(* ===== verification/Severity.thy ===== *)
theory Severity imports Prelude begin

text \<open>
  Log severities (\<open>src/src/ng-log/log_severity.h\<close>) and the two pieces of
  \<open>src/src/logging.cc\<close> that guard their use: \<open>CheckSeverityInRange\<close>, which keeps the
  public entry points from indexing the fixed-size severity arrays out of range, and
  \<open>MaxLogSize\<close>, which keeps the mebibyte shift of the size flag from overflowing.
\<close>

section \<open>The severities and their order\<close>

datatype LogSeverity = NGLOG_INFO | NGLOG_WARNING | NGLOG_ERROR | NGLOG_FATAL

fun sev_int :: "LogSeverity \<Rightarrow> int" where
  "sev_int NGLOG_INFO = 0"
| "sev_int NGLOG_WARNING = 1"
| "sev_int NGLOG_ERROR = 2"
| "sev_int NGLOG_FATAL = 3"

definition NUM_SEVERITIES :: int where
  "NUM_SEVERITIES = 4"

lemma sev_int_inj [simp]: "sev_int a = sev_int b \<longleftrightarrow> a = b"
  by (cases a; cases b) simp_all

lemma sev_int_range: "0 \<le> sev_int s \<and> sev_int s < NUM_SEVERITIES"
  by (cases s) (simp_all add: NUM_SEVERITIES_def)

instantiation LogSeverity :: linorder
begin

definition less_eq_LogSeverity :: "LogSeverity \<Rightarrow> LogSeverity \<Rightarrow> bool" where
  "less_eq_LogSeverity a b \<longleftrightarrow> sev_int a \<le> sev_int b"

definition less_LogSeverity :: "LogSeverity \<Rightarrow> LogSeverity \<Rightarrow> bool" where
  "less_LogSeverity a b \<longleftrightarrow> sev_int a < sev_int b"

instance
  by standard (auto simp: less_eq_LogSeverity_def less_LogSeverity_def)

end

definition all_severities :: "LogSeverity list" where
  "all_severities = [NGLOG_INFO, NGLOG_WARNING, NGLOG_ERROR, NGLOG_FATAL]"

lemma set_all_severities: "set all_severities = UNIV"
  by (auto simp: all_severities_def) (metis LogSeverity.exhaust)

fun LogSeverityNames :: "LogSeverity \<Rightarrow> string" where
  "LogSeverityNames NGLOG_INFO = ''INFO''"
| "LogSeverityNames NGLOG_WARNING = ''WARNING''"
| "LogSeverityNames NGLOG_ERROR = ''ERROR''"
| "LogSeverityNames NGLOG_FATAL = ''FATAL''"

section \<open>Range check of the public entry points\<close>

text \<open>
  A C++ caller can pass any \<open>int\<close> as a severity. A failed \<open>CHECK\<close> ends the call; it
  is the left alternative.
\<close>

datatype check_failure = CHECK_GE_failed int int | CHECK_LT_failed int int

definition CheckSeverityInRange :: "int \<Rightarrow> check_failure + unit" where
  "CheckSeverityInRange severity =
     (if \<not> severity \<ge> 0 then Inl (CHECK_GE_failed severity 0)
      else if \<not> severity < NUM_SEVERITIES then Inl (CHECK_LT_failed severity NUM_SEVERITIES)
      else Inr ())"

definition int_severity :: "int \<Rightarrow> LogSeverity" where
  "int_severity i = (if i = 0 then NGLOG_INFO else if i = 1 then NGLOG_WARNING
     else if i = 2 then NGLOG_ERROR else NGLOG_FATAL)"

definition GetLogSeverityName :: "int \<Rightarrow> check_failure + string" where
  "GetLogSeverityName severity =
     (case CheckSeverityInRange severity of
        Inl e \<Rightarrow> Inl e
      | Inr _ \<Rightarrow> Inr (LogSeverityNames (int_severity severity)))"

lemma int_severity_sev_int [simp]: "int_severity (sev_int s) = s"
  by (cases s) (simp_all add: int_severity_def)

lemma CheckSeverityInRange_iff:
  "CheckSeverityInRange i = Inr () \<longleftrightarrow> (\<exists>s. i = sev_int s)"
proof
  assume "CheckSeverityInRange i = Inr ()"
  then have "0 \<le> i \<and> i < 4"
    by (auto simp: CheckSeverityInRange_def NUM_SEVERITIES_def split: if_splits)
  then have "i = 0 \<or> i = 1 \<or> i = 2 \<or> i = 3" by arith
  then show "\<exists>s. i = sev_int s"
    by (metis sev_int.simps)
next
  assume "\<exists>s. i = sev_int s"
  then show "CheckSeverityInRange i = Inr ()"
    using sev_int_range by (force simp: CheckSeverityInRange_def)
qed

section \<open>The maximum size of a log file\<close>

definition kMebibyteShift :: nat where
  "kMebibyteShift = 20"

definition kMebibyte :: "64 word" where
  "kMebibyte = push_bit kMebibyteShift 1"

definition max_megabytes :: "32 word" where
  "max_megabytes = 4095"

definition MaxLogSize :: "32 word \<Rightarrow> 32 word" where
  "MaxLogSize max_log_size =
     (if max_log_size = 0 then 1
      else if max_log_size < max_megabytes then max_log_size else max_megabytes)"

lemma kMebibyte_eq: "kMebibyte = 1048576"
  by (simp add: kMebibyte_def kMebibyteShift_def)

lemma unat_MaxLogSize: "unat (MaxLogSize m) = (if m = 0 then 1 else min (unat m) 4095)"
  by (auto simp: MaxLogSize_def max_megabytes_def word_less_nat_alt min_def)

lemma MaxLogSize_bounds: "1 \<le> unat (MaxLogSize m) \<and> unat (MaxLogSize m) \<le> 4095"
proof (cases "m = 0")
  case False
  then have "unat m \<noteq> 0" by (simp add: unat_eq_zero)
  with False show ?thesis by (simp add: unat_MaxLogSize)
qed (simp add: unat_MaxLogSize)

end
