(* ===== verification/LogFile.thy ===== *)
theory LogFile imports Severity begin

text \<open>
  \<open>LogFileObject\<close> of \<open>src/src/logging.cc\<close>: the file behind one severity. The state is
  the record \<open>log_file\<close> (one field per member). The calls the code makes to the
  operating system are listed in the \<open>trace\<close> of a \<open>file_world\<close>; what the system
  answers (sizes, failures, the calendar, the process id) is the parameter \<open>os\<close>.

  The branches compiled on Linux are modelled (\<open>NGLOG_OS_LINUX\<close>, \<open>HAVE_UNISTD_H\<close>,
  \<open>HAVE_FCNTL\<close>, \<open>HAVE_POSIX_FADVISE\<close>, \<open>O_NOFOLLOW\<close>, \<open>O_CLOEXEC\<close>). Sizes are 64-bit
  words (\<open>std::size_t\<close>), the rollover counter is a 32-bit word, time points are
  nanoseconds.
\<close>

section \<open>Flags, operating system, state\<close>

text \<open>The flags of \<open>src/src/flags.cc\<close> that the logging core reads.\<close>

record log_flags =
  FLAGS_timestamp_in_logfile_name :: bool
  FLAGS_logtostderr :: bool
  FLAGS_alsologtostderr :: bool
  FLAGS_logtostdout :: bool
  FLAGS_drop_log_memory :: bool
  FLAGS_stderrthreshold :: int
  FLAGS_alsologtoemail :: string
  FLAGS_log_file_header :: bool
  FLAGS_log_prefix :: bool
  FLAGS_log_year_in_prefix :: bool
  FLAGS_minloglevel :: int
  FLAGS_logbuflevel :: int
  FLAGS_logbufsecs :: int
  FLAGS_logemaillevel :: int
  FLAGS_log_link :: string
  FLAGS_max_log_size :: "32 word"
  FLAGS_stop_logging_if_full_disk :: bool
  FLAGS_log_utc_time :: bool

definition default_flags :: log_flags where
  "default_flags = \<lparr>
     FLAGS_timestamp_in_logfile_name = True, FLAGS_logtostderr = False,
     FLAGS_alsologtostderr = False, FLAGS_logtostdout = False, FLAGS_drop_log_memory = True,
     FLAGS_stderrthreshold = sev_int NGLOG_ERROR, FLAGS_alsologtoemail = '''',
     FLAGS_log_file_header = True, FLAGS_log_prefix = True, FLAGS_log_year_in_prefix = True,
     FLAGS_minloglevel = 0, FLAGS_logbuflevel = 0, FLAGS_logbufsecs = 30,
     FLAGS_logemaillevel = 999, FLAGS_log_link = '''', FLAGS_max_log_size = 1800,
     FLAGS_stop_logging_if_full_disk = False, FLAGS_log_utc_time = False\<rparr>"

text \<open>The fields of \<open>struct tm\<close> that the code prints.\<close>

record tm =
  tm_year :: int
  tm_mon :: int
  tm_mday :: int
  tm_hour :: int
  tm_min :: int
  tm_sec :: int

text \<open>
  Answers of the operating system during one call: \<open>os_tm utc t\<close> is
  \<open>gmtime_r\<close>/\<open>localtime_r\<close> of the seconds of \<open>t\<close>, \<open>os_stat\<close> the size of an existing
  file, the boolean fields say whether the call succeeds. \<open>os_enospc\<close> is
  \<open>errno == ENOSPC\<close> after the message was written.
\<close>

record os =
  os_pid :: int
  os_tm :: "bool \<Rightarrow> int \<Rightarrow> tm"
  os_hostname :: string
  os_user :: string
  os_program :: string
  os_log_dirs :: "string list"
  os_fingerprint :: string
  os_prefix_formatter :: bool
  os_stat :: "string \<Rightarrow> 64 word option"
  os_open :: "string \<Rightarrow> bool"
  os_lock :: "string \<Rightarrow> bool"
  os_ftruncate :: "string \<Rightarrow> bool"
  os_fdopen :: "string \<Rightarrow> bool"
  os_devnull :: bool
  os_dupfd :: bool
  os_enospc :: bool

datatype open_flag = O_WRONLY | O_CREAT | O_NOFOLLOW | O_CLOEXEC | O_EXCL

datatype LogFilenameSource = kDefault | kSelected

datatype fevent =
    FStat string
  | FOpen string "open_flag list"
  | FLock string
  | FTruncate string
  | FCloseFd string
  | FFdopen string
  | FUnlink string
  | FSymlink string string
  | FCleaner LogFilenameSource string string string bool
  | FCreateError string
  | FWrite string string
  | FFlush string
  | FNullRedirect string
  | FClose string
  | FAdvise string "64 word" "64 word" bool

record file_world =
  stop_writing :: bool
  trace :: "fevent list"

definition emit :: "fevent \<Rightarrow> file_world \<Rightarrow> file_world" where
  "emit e w = w\<lparr>trace := trace w @ [e]\<rparr>"

lemma trace_emit [simp]: "trace (emit e w) = trace w @ [e]"
  by (simp add: emit_def)

lemma stop_writing_emit [simp]: "stop_writing (emit e w) = stop_writing w"
  by (simp add: emit_def)

text \<open>An open stream is named by the path it was opened for.\<close>

record log_file =
  filename_source :: LogFilenameSource
  base_filename :: string
  symlink_basename :: string
  filename_extension :: string
  stream :: "string option"
  file_pid :: int
  severity :: LogSeverity
  bytes_since_flush :: "64 word"
  dropped_mem_length :: "64 word"
  file_length :: "64 word"
  rollover_attempt :: "32 word"
  next_flush_time :: int
  start_time :: int

definition kRolloverAttemptFrequency :: "32 word" where
  "kRolloverAttemptFrequency = 0x20"

definition kTicksPerSecond :: int where
  "kTicksPerSecond = 1000000000"

text \<open>
  The constructor. The members without an initializer in the class start as zero-initialized
  values; the time points start at the epoch.
\<close>

definition new_LogFileObject :: "os \<Rightarrow> LogSeverity \<Rightarrow> string option \<Rightarrow> int \<Rightarrow> log_file" where
  "new_LogFileObject os sev base now = \<lparr>
     filename_source = (case base of Some _ \<Rightarrow> kSelected | None \<Rightarrow> kDefault),
     base_filename = (case base of Some b \<Rightarrow> b | None \<Rightarrow> ''''),
     symlink_basename = os_program os,
     filename_extension = '''',
     stream = None, file_pid = 0, severity = sev,
     bytes_since_flush = 0, dropped_mem_length = 0, file_length = 0,
     rollover_attempt = kRolloverAttemptFrequency - 1,
     next_flush_time = 0, start_time = now\<rparr>"

section \<open>Closing, discarding, configuring\<close>

text \<open>\<open>file_ = nullptr\<close>: destroying a stream flushes and closes it.\<close>

definition close_file :: "log_file \<Rightarrow> file_world \<Rightarrow> log_file \<times> file_world" where
  "close_file f w = (case stream f of
       None \<Rightarrow> (f, w)
     | Some p \<Rightarrow> (f\<lparr>stream := None\<rparr>, emit (FClose p) w))"

text \<open>\<open>file_length_ = bytes_since_flush_ = dropped_mem_length_ = 0\<close> and the retry counter.\<close>

definition reset_accounting :: "log_file \<Rightarrow> log_file" where
  "reset_accounting f = f\<lparr>file_length := 0, bytes_since_flush := 0, dropped_mem_length := 0,
     rollover_attempt := kRolloverAttemptFrequency - 1\<rparr>"

definition DiscardInheritedFile :: "os \<Rightarrow> log_file \<Rightarrow> file_world \<Rightarrow> log_file \<times> file_world" where
  "DiscardInheritedFile os f w =
     (let w1 = (case stream f of
                  Some p \<Rightarrow> if os_devnull os then emit (FNullRedirect p) w else w
                | None \<Rightarrow> w);
          (f2, w2) = close_file f w1
      in (reset_accounting f2, w2))"

definition DiscardFileIfInherited :: "os \<Rightarrow> log_file \<Rightarrow> file_world \<Rightarrow> log_file \<times> file_world" where
  "DiscardFileIfInherited os f w =
     (if stream f \<noteq> None \<and> file_pid f \<noteq> os_pid os then DiscardInheritedFile os f w else (f, w))"

definition SetBasename :: "os \<Rightarrow> string \<Rightarrow> log_file \<Rightarrow> file_world \<Rightarrow> log_file \<times> file_world" where
  "SetBasename os name f w =
     (let f0 = f\<lparr>filename_source := kSelected\<rparr> in
      if base_filename f0 \<noteq> name then
        let (f1, w1) = DiscardFileIfInherited os f0 w;
            (f2, w2) = close_file f1 w1
        in ((reset_accounting f2)\<lparr>base_filename := name\<rparr>, w2)
      else (f0, w))"

definition SetExtension :: "os \<Rightarrow> string \<Rightarrow> log_file \<Rightarrow> file_world \<Rightarrow> log_file \<times> file_world" where
  "SetExtension os ext f w =
     (if filename_extension f \<noteq> ext then
        let (f1, w1) = DiscardFileIfInherited os f w;
            (f2, w2) = close_file f1 w1
        in ((reset_accounting f2)\<lparr>filename_extension := ext\<rparr>, w2)
      else (f, w))"

definition SetSymlinkBasename :: "string \<Rightarrow> log_file \<Rightarrow> log_file" where
  "SetSymlinkBasename name f = f\<lparr>symlink_basename := name\<rparr>"

definition destroy_LogFileObject :: "os \<Rightarrow> log_file \<Rightarrow> file_world \<Rightarrow> log_file \<times> file_world" where
  "destroy_LogFileObject os f w =
     (let (f1, w1) = DiscardFileIfInherited os f w in close_file f1 w1)"

definition LogSize :: "log_file \<Rightarrow> 32 word" where
  "LogSize f = ucast (file_length f)"

definition FlushUnlocked :: "log_flags \<Rightarrow> os \<Rightarrow> int \<Rightarrow> log_file \<Rightarrow> file_world \<Rightarrow> log_file \<times> file_world" where
  "FlushUnlocked fl os now f w =
     (let (f1, w1) = DiscardFileIfInherited os f w;
          (f2, w2) = (case stream f1 of
                        Some p \<Rightarrow> (f1\<lparr>bytes_since_flush := 0\<rparr>, emit (FFlush p) w1)
                      | None \<Rightarrow> (f1, w1))
      in (f2\<lparr>next_flush_time := now + FLAGS_logbufsecs fl * kTicksPerSecond\<rparr>, w2))"

text \<open>\<open>Flush()\<close> reads the clock and takes the file's mutex.\<close>

definition Flush_file :: "log_flags \<Rightarrow> os \<Rightarrow> int \<Rightarrow> log_file \<Rightarrow> file_world \<Rightarrow> log_file \<times> file_world" where
  "Flush_file fl os now f w = FlushUnlocked fl os now f w"

section \<open>Creating the log file\<close>

definition find_last_sep :: "string \<Rightarrow> nat option" where
  "find_last_sep s = (case filter (\<lambda>i. s ! i = CHR ''/'') (rev [0..<length s]) of
     [] \<Rightarrow> None | i # _ \<Rightarrow> Some i)"

definition create_flags :: "log_flags \<Rightarrow> string \<Rightarrow> open_flag list" where
  "create_flags fl filename =
     [O_WRONLY, O_CREAT]
     @ (if filename \<noteq> ''/dev/stdout'' \<and> filename \<noteq> ''/dev/stderr'' then [O_NOFOLLOW] else [])
     @ [O_CLOEXEC]
     @ (if FLAGS_timestamp_in_logfile_name fl then [O_EXCL] else [])"

text \<open>The symbolic links to a file just created; failures are ignored.\<close>

definition create_links :: "log_flags \<Rightarrow> string \<Rightarrow> log_file \<Rightarrow> file_world \<Rightarrow> file_world" where
  "create_links fl filename f w =
     (if symlink_basename f = '''' then w else
        let sep = find_last_sep filename;
            linkname = symlink_basename f @ ''.'' @ LogSeverityNames (severity f);
            linkpath = (case sep of Some i \<Rightarrow> take (i + 1) filename | None \<Rightarrow> '''') @ linkname;
            linkdest = (case sep of Some i \<Rightarrow> drop (i + 1) filename | None \<Rightarrow> filename);
            w1 = emit (FSymlink linkdest linkpath) (emit (FUnlink linkpath) w)
        in if FLAGS_log_link fl = '''' then w1
           else let external = FLAGS_log_link fl @ ''/'' @ linkname
                in emit (FSymlink filename external) (emit (FUnlink external) w1))"

text \<open>
  The size check on an existing file when names carry no timestamp: whether to truncate,
  and \<open>file_length_\<close> synchronized with the file.
\<close>

definition stat_existing ::
  "log_flags \<Rightarrow> os \<Rightarrow> string \<Rightarrow> log_file \<Rightarrow> file_world \<Rightarrow> bool \<times> log_file \<times> file_world" where
  "stat_existing fl os filename f w =
     (if FLAGS_timestamp_in_logfile_name fl then (False, f, w)
      else let w1 = emit (FStat filename) w in
           case os_stat os filename of
             None \<Rightarrow> (False, f, w1)
           | Some st_size \<Rightarrow>
               (drop_bit kMebibyteShift st_size \<ge> ucast (MaxLogSize (FLAGS_max_log_size fl)),
                f\<lparr>file_length := st_size\<rparr>, w1))"

definition CreateLogfile ::
  "log_flags \<Rightarrow> os \<Rightarrow> string \<Rightarrow> log_file \<Rightarrow> file_world \<Rightarrow> bool \<times> log_file \<times> file_world" where
  "CreateLogfile fl os filename f w =
     (let (truncate_file, f1, w1) = stat_existing fl os filename f w;
          w2 = emit (FOpen filename (create_flags fl filename)) w1
      in if \<not> os_open os filename then (False, f1, w2)
      else let w3 = emit (FLock filename) w2
      in if \<not> os_lock os filename then (False, f1, emit (FCloseFd filename) w3)
      else let w4 = (if truncate_file then emit (FTruncate filename) w3 else w3)
      in if truncate_file \<and> \<not> os_ftruncate os filename
         then (False, f1, emit (FCloseFd filename) w4)
      else let f2 = (if truncate_file then f1\<lparr>file_length := 0\<rparr> else f1);
               (f3, w5) = close_file f2 (emit (FFdopen filename) w4)
      in if \<not> os_fdopen os filename
         then (False, f3, if FLAGS_timestamp_in_logfile_name fl
                          then emit (FUnlink filename) w5 else w5)
      else let f4 = f3\<lparr>stream := Some filename\<rparr>
      in (True, f4, create_links fl filename f4 w5))"

section \<open>Writing a message\<close>

text \<open>\<open>MakeLogFilename\<close> of \<open>src/src/utilities.cc\<close>.\<close>

definition MakeLogFilename :: "string \<Rightarrow> string \<Rightarrow> string \<Rightarrow> bool \<Rightarrow> string" where
  "MakeLogFilename base time_pid ext timestamp_in_logfile_name =
     base @ (if timestamp_in_logfile_name then time_pid else '''') @ ext"

abbreviation zero_pad :: "nat \<Rightarrow> int \<Rightarrow> string" where
  "zero_pad w n \<equiv> setw w (CHR ''0'') (show_int n)"

text \<open>\<open>yyyymmdd-hhmmss.pid\<close>, the part of the name that makes it unique.\<close>

definition time_pid_string :: "tm \<Rightarrow> int \<Rightarrow> string" where
  "time_pid_string t pid =
     show_int (1900 + tm_year t) @ zero_pad 2 (1 + tm_mon t) @ zero_pad 2 (tm_mday t) @ ''-''
     @ zero_pad 2 (tm_hour t) @ zero_pad 2 (tm_min t) @ zero_pad 2 (tm_sec t) @ ''.'' @ show_int pid"

text \<open>Duration casts of \<open>std::chrono\<close> truncate towards zero.\<close>

definition PrettyDuration :: "int \<Rightarrow> string" where
  "PrettyDuration secs =
     (let hours = secs sdiv 3600;
          mins = (secs - hours * 3600) sdiv 60;
          s = secs - hours * 3600 - mins * 60
      in show_int hours @ '':'' @ zero_pad 2 mins @ '':'' @ zero_pad 2 s)"

definition file_header_string :: "log_flags \<Rightarrow> os \<Rightarrow> tm \<Rightarrow> int \<Rightarrow> int \<Rightarrow> string" where
  "file_header_string fl os t timestamp start =
     ''Log file created at: '' @ show_int (1900 + tm_year t) @ ''/'' @ zero_pad 2 (1 + tm_mon t)
     @ ''/'' @ zero_pad 2 (tm_mday t) @ '' '' @ zero_pad 2 (tm_hour t) @ '':''
     @ zero_pad 2 (tm_min t) @ '':'' @ zero_pad 2 (tm_sec t)
     @ (if FLAGS_log_utc_time fl then '' UTC'' @ [newline] else [newline])
     @ ''Running on machine: '' @ (if os_hostname os = '''' then ''(unknown)'' else os_hostname os)
     @ [newline]
     @ (if os_fingerprint os \<noteq> ''''
        then ''Application fingerprint: '' @ os_fingerprint os @ [newline] else '''')
     @ ''Running duration (h:mm:ss): '' @ PrettyDuration ((timestamp - start) sdiv kTicksPerSecond)
     @ [newline]
     @ (if os_prefix_formatter os then ''''
        else ''Log line format: [IWEF]''
             @ (if FLAGS_log_year_in_prefix fl then ''yyyymmdd hh:mm:ss.uuuuuu''
                else ''mmdd hh:mm:ss.uuuuuu'')
             @ '' threadid file:line] msg'' @ [newline])"

definition default_stripped_filename :: "os \<Rightarrow> LogSeverity \<Rightarrow> string" where
  "default_stripped_filename os sev =
     os_program os @ ''.'' @ os_hostname os @ ''.''
     @ (if os_user os = '''' then ''invalid-user'' else os_user os)
     @ ''.log.'' @ LogSeverityNames sev @ ''.''"

text \<open>The loop over the logging directories: the last name tried, and the file if it succeeded.\<close>

fun try_log_dirs ::
  "log_flags \<Rightarrow> os \<Rightarrow> string \<Rightarrow> string \<Rightarrow> string \<Rightarrow> string list \<Rightarrow> log_file \<Rightarrow> file_world
     \<Rightarrow> (bool \<times> string) \<times> log_file \<times> file_world" where
  "try_log_dirs fl os stripped tps filename [] f w = ((False, filename), f, w)"
| "try_log_dirs fl os stripped tps filename (dir # dirs) f w =
     (let f1 = f\<lparr>base_filename := dir @ stripped\<rparr>;
          name = MakeLogFilename (base_filename f1) tps (filename_extension f1)
                   (FLAGS_timestamp_in_logfile_name fl);
          (ok, f2, w2) = CreateLogfile fl os name f1 w
      in if ok then ((True, name), f2, w2)
         else try_log_dirs fl os stripped tps name dirs f2 w2)"

text \<open>Choose the name by the source of the base name and create the file.\<close>

definition create_selected_or_default ::
  "log_flags \<Rightarrow> os \<Rightarrow> string \<Rightarrow> log_file \<Rightarrow> file_world \<Rightarrow> (bool \<times> string) \<times> log_file \<times> file_world" where
  "create_selected_or_default fl os tps f w =
     (case filename_source f of
        kSelected \<Rightarrow>
          (let name = MakeLogFilename (base_filename f) tps (filename_extension f)
                        (FLAGS_timestamp_in_logfile_name fl);
               (ok, f1, w1) = CreateLogfile fl os name f w
           in ((ok, name), f1, w1))
      | kDefault \<Rightarrow>
          try_log_dirs fl os (default_stripped_filename os (severity f)) tps '''' (os_log_dirs os) f w)"

definition write_bytes :: "string \<Rightarrow> log_file \<Rightarrow> file_world \<Rightarrow> log_file \<times> file_world" where
  "write_bytes bs f w =
     (f\<lparr>file_length := file_length f + of_nat (length bs),
        bytes_since_flush := bytes_since_flush f + of_nat (length bs)\<rparr>,
      case stream f of Some p \<Rightarrow> emit (FWrite p bs) w | None \<Rightarrow> w)"

text \<open>
  The part of \<open>WriteUnlocked\<close> that makes sure that there is a file: \<open>False\<close> when the
  message has to be dropped.
\<close>

definition ensure_file ::
  "log_flags \<Rightarrow> os \<Rightarrow> int \<Rightarrow> log_file \<Rightarrow> file_world \<Rightarrow> bool \<times> log_file \<times> file_world" where
  "ensure_file fl os timestamp f w =
     (if stream f \<noteq> None then (True, f, w)
      else let f0 = f\<lparr>rollover_attempt := rollover_attempt f + 1\<rparr>
      in if rollover_attempt f0 \<noteq> kRolloverAttemptFrequency then (False, f0, w)
      else let f1 = f0\<lparr>rollover_attempt := 0, file_pid := os_pid os\<rparr>;
               t = os_tm os (FLAGS_log_utc_time fl) timestamp;
               ((ok, name), f2, w2) =
                  create_selected_or_default fl os (time_pid_string t (os_pid os)) f1 w
      in if \<not> ok then (False, f2, emit (FCreateError name) w2)
      else let w3 = emit (FCleaner (filename_source f2) (base_filename f2) name
                            (filename_extension f2) (FLAGS_timestamp_in_logfile_name fl)) w2;
               (f4, w4) = (if FLAGS_log_file_header fl
                           then write_bytes (file_header_string fl os t timestamp (start_time f2)) f2 w3
                           else (f2, w3))
      in (True, f4, w4))"

definition kFlushBytes :: "64 word" where
  "kFlushBytes = 1000000"

definition total_drop_length :: "64 word \<Rightarrow> 64 word" where
  "total_drop_length len = and len (not (kMebibyte - 1)) - kMebibyte"

text \<open>Release the page cache of the part of the file that no reader is likely to want.\<close>

definition drop_memory :: "log_flags \<Rightarrow> os \<Rightarrow> log_file \<Rightarrow> file_world \<Rightarrow> log_file \<times> file_world" where
  "drop_memory fl os f w =
     (if FLAGS_drop_log_memory fl \<and> file_length f \<ge> 3 * kMebibyte then
        let total = total_drop_length (file_length f);
            this_drop = total - dropped_mem_length f
        in if this_drop \<ge> 2 * kMebibyte
           then (f\<lparr>dropped_mem_length := total\<rparr>,
                 case stream f of
                   Some p \<Rightarrow> emit (FAdvise p (dropped_mem_length f) this_drop (os_dupfd os)) w
                 | None \<Rightarrow> w)
           else (f, w)
      else (f, w))"

text \<open>The roll over check: a file that reached the limit is closed.\<close>

definition roll_over :: "log_flags \<Rightarrow> log_file \<Rightarrow> file_world \<Rightarrow> log_file \<times> file_world" where
  "roll_over fl f w =
     (if drop_bit kMebibyteShift (file_length f) \<ge> ucast (MaxLogSize (FLAGS_max_log_size fl))
      then let (f1, w1) = close_file f w in (reset_accounting f1, w1)
      else (f, w))"

definition write_message ::
  "log_flags \<Rightarrow> os \<Rightarrow> bool \<Rightarrow> int \<Rightarrow> string \<Rightarrow> log_file \<Rightarrow> file_world \<Rightarrow> log_file \<times> file_world" where
  "write_message fl os force_flush timestamp message f w =
     (if \<not> stop_writing w then
        if FLAGS_stop_logging_if_full_disk fl \<and> os_enospc os
        then (f, (case stream f of Some p \<Rightarrow> emit (FWrite p message) w | None \<Rightarrow> w)
                   \<lparr>stop_writing := True\<rparr>)
        else let (f1, w1) = write_bytes message f w
             in if force_flush \<or> bytes_since_flush f1 \<ge> kFlushBytes \<or> timestamp \<ge> next_flush_time f1
                then let (f2, w2) = FlushUnlocked fl os timestamp f1 w1 in drop_memory fl os f2 w2
                else (f1, w1)
      else (f, if timestamp \<ge> next_flush_time f then w\<lparr>stop_writing := False\<rparr> else w))"

definition WriteUnlocked ::
  "log_flags \<Rightarrow> os \<Rightarrow> bool \<Rightarrow> int \<Rightarrow> string \<Rightarrow> log_file \<Rightarrow> file_world \<Rightarrow> log_file \<times> file_world" where
  "WriteUnlocked fl os force_flush timestamp message f w =
     (if filename_source f = kSelected \<and> base_filename f = '''' then (f, w)
      else let (f1, w1) = DiscardFileIfInherited os f w;
               (f2, w2) = roll_over fl f1 w1;
               (ok, f3, w3) = ensure_file fl os timestamp f2 w2
           in if ok then write_message fl os force_flush timestamp message f3 w3 else (f3, w3))"

end
