(* ===== verification/LogFileFacts.thy ===== *)
theory LogFileFacts imports LogFile begin

text \<open>
  Lemmas about the operations of \<open>LogFile\<close>: the invariant \<open>file_ok\<close> of the page cache
  accounting, the size that an open file can have (\<open>below_limit\<close>), which fields and which
  events of the trace each operation leaves alone.
\<close>

section \<open>Accounting\<close>

lemma and_not_mask: "and x (not (mask n)) = push_bit n (drop_bit n (x :: 64 word))"
  by (rule bit_word_eqI) (auto simp: bit_simps)

lemma unat_and_not_mask: "unat (and x (not (mask n)) :: 64 word) = unat x div 2 ^ n * 2 ^ n"
proof -
  have "unat x < 2 ^ LENGTH(64)" by (rule unsigned_less)
  moreover have "unat x div 2 ^ n * 2 ^ n \<le> unat x" by (rule div_times_less_eq_dividend)
  ultimately have "take_bit LENGTH(64) (unat x div 2 ^ n * 2 ^ n) = unat x div 2 ^ n * 2 ^ n"
    by (simp only: take_bit_nat_eq_self)
  then show ?thesis
    unfolding and_not_mask unsigned_push_bit_eq unat_drop_bit_64 by (simp only: push_bit_eq_mult)
qed

lemma kMebibyte_minus_1: "kMebibyte - 1 = mask 20"
  by (simp add: kMebibyte_eq mask_eq_exp_minus_1)

lemma unat_total_drop_length:
  assumes "2 ^ 20 \<le> unat len"
  shows "unat (total_drop_length len) = (unat len div 2 ^ 20 - 1) * 2 ^ 20"
proof -
  have le: "kMebibyte \<le> and len (not (mask 20))"
    using assms div_le_mono [OF assms, of "2 ^ 20"]
    by (simp add: word_le_nat_alt unat_and_not_mask kMebibyte_eq)
  show ?thesis
    by (simp only: total_drop_length_def kMebibyte_minus_1 unat_sub [OF le] unat_and_not_mask)
      (simp add: kMebibyte_eq diff_mult_distrib)
qed

definition file_ok :: "log_file \<Rightarrow> bool" where
  "file_ok f \<longleftrightarrow>
     (stream f = None \<longrightarrow> dropped_mem_length f = 0)
     \<and> 2 ^ 20 dvd unat (dropped_mem_length f)
     \<and> (dropped_mem_length f = 0
        \<or> unat (dropped_mem_length f) + 2 ^ 20 \<le> unat (file_length f))"

lemma file_ok_reset [intro, simp]: "file_ok (reset_accounting f)"
  by (simp add: file_ok_def reset_accounting_def)

lemma file_ok_new: "file_ok (new_LogFileObject os sev base now)"
  by (simp add: file_ok_def new_LogFileObject_def)

lemma file_ok_discard: "file_ok f \<Longrightarrow> file_ok (fst (DiscardFileIfInherited os f w))"
  by (auto simp: DiscardFileIfInherited_def DiscardInheritedFile_def Let_def split: prod.splits)

lemma file_ok_SetBasename: "file_ok f \<Longrightarrow> file_ok (fst (SetBasename os n f w))"
  by (auto simp: SetBasename_def Let_def file_ok_def reset_accounting_def split: prod.splits)

lemma file_ok_SetExtension: "file_ok f \<Longrightarrow> file_ok (fst (SetExtension os n f w))"
  by (auto simp: SetExtension_def Let_def file_ok_def reset_accounting_def split: prod.splits)

lemma file_ok_Flush: "file_ok f \<Longrightarrow> file_ok (fst (FlushUnlocked fl os now f w))"
  using file_ok_discard [of f os w]
  by (auto simp: FlushUnlocked_def file_ok_def split: prod.splits option.splits)

lemma file_ok_roll_over: "file_ok f \<Longrightarrow> file_ok (fst (roll_over fl f w))"
  by (auto simp: roll_over_def split: prod.splits)

lemma file_ok_write_bytes:
  assumes "file_ok f" and "unat (file_length f) + length bs < 2 ^ 64"
  shows "file_ok (fst (write_bytes bs f w))"
    and "unat (file_length (fst (write_bytes bs f w))) = unat (file_length f) + length bs"
proof -
  have "unat (of_nat (length bs) :: 64 word) = length bs"
    using assms(2) by (intro unat_of_nat_64) simp
  then show len: "unat (file_length (fst (write_bytes bs f w))) = unat (file_length f) + length bs"
    using assms(2) by (simp add: write_bytes_def unat_add_no_wrap)
  show "file_ok (fst (write_bytes bs f w))"
    using assms(1) len by (auto simp: file_ok_def write_bytes_def)
qed

lemma file_ok_drop_memory:
  assumes "file_ok f" and "stream f \<noteq> None"
  shows "file_ok (fst (drop_memory fl os f w))"
proof (cases "3 * kMebibyte \<le> file_length f")
  case True
  then have len: "3 * 2 ^ 20 \<le> unat (file_length f)"
    by (simp add: word_le_nat_alt kMebibyte_eq)
  then have "2 ^ 20 \<le> unat (file_length f)" by simp
  note u = unat_total_drop_length [OF this]
  have "(unat (file_length f) div 2 ^ 20 - 1) * 2 ^ 20 + 2 ^ 20 \<le> unat (file_length f)"
    using len by simp
  then show ?thesis
    using assms u by (auto simp: drop_memory_def file_ok_def Let_def)
qed (use assms in \<open>auto simp: drop_memory_def file_ok_def\<close>)

definition below_limit :: "log_flags \<Rightarrow> log_file \<Rightarrow> bool" where
  "below_limit fl f \<longleftrightarrow>
     unat (file_length f) < unat (MaxLogSize (FLAGS_max_log_size fl)) * 2 ^ kMebibyteShift"

lemma at_limit_iff:
  "ucast (MaxLogSize m) \<le> drop_bit kMebibyteShift (x :: 64 word)
     \<longleftrightarrow> unat (MaxLogSize m) * 2 ^ kMebibyteShift \<le> unat x"
proof -
  have "unat (MaxLogSize m) \<le> unat x div 2 ^ kMebibyteShift
     \<longleftrightarrow> unat (MaxLogSize m) * 2 ^ kMebibyteShift \<le> unat x"
    by (rule less_eq_div_iff_mult_less_eq) simp
  then show ?thesis
    by (simp add: word_le_nat_alt unat_drop_bit_64)
qed

lemma below_limit_max: "below_limit fl f \<Longrightarrow> unat (file_length f) < 2 ^ 32"
  using MaxLogSize_bounds [of "FLAGS_max_log_size fl"]
  by (simp add: below_limit_def kMebibyteShift_def)

lemma below_limit_reset [simp]: "below_limit fl (reset_accounting f)"
  using MaxLogSize_bounds [of "FLAGS_max_log_size fl"]
  by (simp add: below_limit_def reset_accounting_def)

lemma below_limit_roll_over: "below_limit fl (fst (roll_over fl f w))"
  by (auto simp: roll_over_def at_limit_iff below_limit_def not_le split: prod.splits)
    (metis below_limit_def below_limit_reset)

lemma close_file_frame [frame_simps]:
  "file_length (fst (close_file f w)) = file_length f"
  "dropped_mem_length (fst (close_file f w)) = dropped_mem_length f"
  "bytes_since_flush (fst (close_file f w)) = bytes_since_flush f"
  "stream (fst (close_file f w)) = None"
  "rollover_attempt (fst (close_file f w)) = rollover_attempt f"
  "filename_source (fst (close_file f w)) = filename_source f"
  "base_filename (fst (close_file f w)) = base_filename f"
  "filename_extension (fst (close_file f w)) = filename_extension f"
  "next_flush_time (fst (close_file f w)) = next_flush_time f"
  "file_pid (fst (close_file f w)) = file_pid f"
  "severity (fst (close_file f w)) = severity f"
  "stop_writing (snd (close_file f w)) = stop_writing w"
  by (auto simp: close_file_def split: option.splits)

lemma create_links_stop [simp]: "stop_writing (create_links fl fn f w) = stop_writing w"
  by (simp add: create_links_def Let_def)

text \<open>What \<open>CreateLogfile\<close> leaves alone, and the size it accounts for.\<close>

lemma CreateLogfile_frame:
  assumes "CreateLogfile fl os fn f w = (ok, f', w')"
  shows "dropped_mem_length f' = dropped_mem_length f"
    and "bytes_since_flush f' = bytes_since_flush f"
    and "filename_source f' = filename_source f"
    and "base_filename f' = base_filename f"
    and "rollover_attempt f' = rollover_attempt f"
    and "next_flush_time f' = next_flush_time f"
    and "file_pid f' = file_pid f"
    and "stop_writing w' = stop_writing w"
    and "ok \<Longrightarrow> stream f' = Some fn"
    and "\<not> ok \<Longrightarrow> stream f = None \<Longrightarrow> stream f' = None"
  using assms
  by (auto simp: CreateLogfile_def stat_existing_def Let_def close_file_def
      split: if_splits option.splits prod.splits)

lemma CreateLogfile_below_limit:
  assumes "CreateLogfile fl os fn f w = (ok, f', w')" and "ok" and "below_limit fl f"
  shows "below_limit fl f'"
  using assms MaxLogSize_bounds [of "FLAGS_max_log_size fl"]
  by (auto simp: CreateLogfile_def stat_existing_def Let_def close_file_def below_limit_def
      at_limit_iff not_le split: if_splits option.splits prod.splits)

lemma try_log_dirs_frame:
  assumes "try_log_dirs fl os st tps fn dirs f w = ((ok, name), f', w')"
  shows "dropped_mem_length f' = dropped_mem_length f"
    and "filename_source f' = filename_source f"
    and "rollover_attempt f' = rollover_attempt f"
    and "next_flush_time f' = next_flush_time f"
    and "file_pid f' = file_pid f"
    and "stop_writing w' = stop_writing w"
    and "ok \<Longrightarrow> stream f' = Some name"
    and "\<not> ok \<Longrightarrow> stream f = None \<Longrightarrow> stream f' = None"
  using assms
  by (induction fl os st tps fn dirs f w rule: try_log_dirs.induct)
    (fastforce simp: Let_def dest: CreateLogfile_frame split: prod.splits if_splits)+

lemma CreateLogfile_timestamp_length:
  assumes "CreateLogfile fl os fn f w = (ok, f', w')" and "FLAGS_timestamp_in_logfile_name fl"
  shows "file_length f' = file_length f"
  using assms
  by (auto simp: CreateLogfile_def stat_existing_def Let_def close_file_def
      split: if_splits option.splits prod.splits)

lemma try_log_dirs_below_limit:
  assumes "try_log_dirs fl os st tps fn dirs f w = ((ok, name), f', w')"
    and "FLAGS_timestamp_in_logfile_name fl"
  shows "file_length f' = file_length f"
  using assms
  by (induction fl os st tps fn dirs f w rule: try_log_dirs.induct)
    (auto simp: Let_def dest: CreateLogfile_timestamp_length split: prod.splits if_splits)

lemma create_frame:
  assumes "create_selected_or_default fl os tps f w = ((ok, name), f', w')"
  shows "dropped_mem_length f' = dropped_mem_length f"
    and "filename_source f' = filename_source f"
    and "rollover_attempt f' = rollover_attempt f"
    and "next_flush_time f' = next_flush_time f"
    and "file_pid f' = file_pid f"
    and "stop_writing w' = stop_writing w"
    and "ok \<Longrightarrow> stream f' = Some name"
    and "\<not> ok \<Longrightarrow> stream f = None \<Longrightarrow> stream f' = None"
  using assms
  by (auto simp: create_selected_or_default_def Let_def
      dest: CreateLogfile_frame try_log_dirs_frame split: LogFilenameSource.splits prod.splits)

text \<open>
  The name has one directory or a timestamp: then no length of another existing file is
  left over in \<open>file_length_\<close>.
\<close>

definition single_name :: "log_flags \<Rightarrow> log_file \<Rightarrow> bool" where
  "single_name fl f \<longleftrightarrow> filename_source f = kSelected \<or> FLAGS_timestamp_in_logfile_name fl"

lemma create_below_limit:
  assumes "create_selected_or_default fl os tps f w = ((ok, name), f', w')" and "ok"
    and "below_limit fl f" and "single_name fl f"
  shows "below_limit fl f'"
proof (cases "filename_source f")
  case kDefault
  with assms(4) have ts: "FLAGS_timestamp_in_logfile_name fl"
    by (simp add: single_name_def)
  with assms(1) kDefault have "file_length f' = file_length f"
    by (auto simp: create_selected_or_default_def dest: try_log_dirs_below_limit)
  with assms(3) show ?thesis by (simp add: below_limit_def)
next
  case kSelected
  with assms show ?thesis
    by (auto simp: create_selected_or_default_def Let_def intro: CreateLogfile_below_limit
        split: prod.splits)
qed

lemma write_bytes_frame [frame_simps]:
  "stream (fst (write_bytes bs f w)) = stream f"
  "dropped_mem_length (fst (write_bytes bs f w)) = dropped_mem_length f"
  "next_flush_time (fst (write_bytes bs f w)) = next_flush_time f"
  "file_pid (fst (write_bytes bs f w)) = file_pid f"
  "stop_writing (snd (write_bytes bs f w)) = stop_writing w"
  by (simp_all add: write_bytes_def split: option.splits)

text \<open>The header that \<open>ensure_file\<close> writes, or nothing.\<close>

definition header_of :: "log_flags \<Rightarrow> os \<Rightarrow> int \<Rightarrow> log_file \<Rightarrow> string" where
  "header_of fl os timestamp f =
     (if FLAGS_log_file_header fl
      then file_header_string fl os (os_tm os (FLAGS_log_utc_time fl) timestamp) timestamp
             (start_time f)
      else '''')"

lemma start_time_frame:
  "CreateLogfile fl os fn f w = (ok, f', w') \<Longrightarrow> start_time f' = start_time f"
  "try_log_dirs fl os st tps fn dirs f w = ((ok, name), f', w') \<Longrightarrow> start_time f' = start_time f"
proof -
  show one: "CreateLogfile fl os fn f w = (ok, f', w') \<Longrightarrow> start_time f' = start_time f"
    for fl os fn f w ok f' w'
    by (auto simp: CreateLogfile_def stat_existing_def Let_def close_file_def
        split: if_splits option.splits prod.splits)
  show "try_log_dirs fl os st tps fn dirs f w = ((ok, name), f', w') \<Longrightarrow> start_time f' = start_time f"
    by (induction fl os st tps fn dirs f w rule: try_log_dirs.induct)
      (auto simp: Let_def dest: one split: prod.splits if_splits)
qed

lemma create_start_time:
  "create_selected_or_default fl os tps f w = ((ok, name), f', w') \<Longrightarrow> start_time f' = start_time f"
  by (auto simp: create_selected_or_default_def Let_def
      dest: start_time_frame split: LogFilenameSource.splits prod.splits)

lemma ensure_file_size:
  assumes "ensure_file fl os ts f w = (True, f', w')"
    and "file_ok f" and "below_limit fl f" and "single_name fl f"
    and "length (header_of fl os ts f) < 2 ^ 62"
  shows "file_ok f'" and "stream f' \<noteq> None"
    and "unat (file_length f')
           < unat (MaxLogSize (FLAGS_max_log_size fl)) * 2 ^ kMebibyteShift
             + (if stream f = None then length (header_of fl os ts f) else 0)"
proof -
  have "file_ok f' \<and> stream f' \<noteq> None \<and> unat (file_length f')
           < unat (MaxLogSize (FLAGS_max_log_size fl)) * 2 ^ kMebibyteShift
             + (if stream f = None then length (header_of fl os ts f) else 0)"
  proof (cases "stream f = None")
    case False
    then show ?thesis using assms by (simp add: ensure_file_def below_limit_def)
  next
    case True
    define f1 where "f1 = f\<lparr>rollover_attempt := 0, file_pid := os_pid os\<rparr>"
    define tps where "tps = time_pid_string (os_tm os (FLAGS_log_utc_time fl) ts) (os_pid os)"
    obtain ok name f2 w2 where c: "create_selected_or_default fl os tps f1 w = ((ok, name), f2, w2)"
      by (metis prod_cases3 surj_pair)
    have ok: "ok" and f': "f' = (if FLAGS_log_file_header fl
        then fst (write_bytes (header_of fl os ts f) f2 w2) else f2)"
      using assms(1) True c create_start_time [OF c]
      by (auto simp: ensure_file_def Let_def f1_def tps_def header_of_def write_bytes_def
          split: if_splits)
    have b1: "below_limit fl f1" and s1: "single_name fl f1"
      using assms(3,4) by (simp_all add: f1_def below_limit_def single_name_def)
    have b2: "below_limit fl f2" by (rule create_below_limit [OF c ok b1 s1])
    have fok: "file_ok f2" and st: "stream f2 = Some name"
      using assms(2) True create_frame [OF c] ok by (simp_all add: file_ok_def f1_def)
    have nw: "unat (file_length f2) + length (header_of fl os ts f) < 2 ^ 64"
      using below_limit_max [OF b2] assms(5) by simp
    show ?thesis
      using f' True file_ok_write_bytes [OF fok nw, of w2] fok st b2
      by (auto simp: frame_simps below_limit_def header_of_def)
  qed
  then show "file_ok f'" and "stream f' \<noteq> None"
    and "unat (file_length f')
           < unat (MaxLogSize (FLAGS_max_log_size fl)) * 2 ^ kMebibyteShift
             + (if stream f = None then length (header_of fl os ts f) else 0)"
    by auto
qed

lemma ensure_file_failed:
  assumes "ensure_file fl os ts f w = (False, f', w')" and "file_ok f"
  shows "stream f' = None" and "file_ok f'"
proof -
  have "stream f = None"
    using assms(1) by (auto simp: ensure_file_def split: if_splits)
  moreover obtain ok name f2 w2 where c: "create_selected_or_default fl os
      (time_pid_string (os_tm os (FLAGS_log_utc_time fl) ts) (os_pid os))
      (f\<lparr>rollover_attempt := 0, file_pid := os_pid os\<rparr>) w = ((ok, name), f2, w2)"
    by (metis prod_cases3 surj_pair)
  ultimately show "stream f' = None" and "file_ok f'"
    using assms create_frame [OF c]
    by (auto simp: ensure_file_def Let_def file_ok_def split: if_splits prod.splits)
qed

section \<open>Events added by an operation\<close>

definition adds :: "fevent set \<Rightarrow> file_world \<Rightarrow> file_world \<Rightarrow> bool" where
  "adds K w w' \<longleftrightarrow> (\<exists>es. trace w' = trace w @ es \<and> set es \<subseteq> K)"

lemma adds_refl [simp, intro]: "adds K w w"
  by (simp add: adds_def)

lemma adds_trans [trans]: "adds K w w' \<Longrightarrow> adds K w' w'' \<Longrightarrow> adds K w w''"
  by (fastforce simp: adds_def)

lemma adds_emit: "e \<in> K \<Longrightarrow> adds K w w' \<Longrightarrow> adds K w (emit e w')"
  by (auto simp: adds_def)

lemma adds_stop_writing [simp]: "adds K w (w'\<lparr>stop_writing := b\<rparr>) = adds K w w'"
  by (simp add: adds_def)

lemma adds_mono: "adds K w w' \<Longrightarrow> K \<subseteq> L \<Longrightarrow> adds L w w'"
  by (fastforce simp: adds_def)

text \<open>
  The events of an operation other than the release of page cache: a file is truncated only
  under its lock and when its size is at the limit, and opened with the flags of
  \<open>create_flags\<close>.
\<close>

fun file_event :: "log_flags \<Rightarrow> os \<Rightarrow> fevent \<Rightarrow> bool" where
  "file_event fl os (FAdvise p off len r) = False"
| "file_event fl os (FTruncate n) =
     (\<not> FLAGS_timestamp_in_logfile_name fl \<and> os_lock os n
      \<and> (case os_stat os n of None \<Rightarrow> False
         | Some st \<Rightarrow> unat (MaxLogSize (FLAGS_max_log_size fl)) * 2 ^ kMebibyteShift \<le> unat st))"
| "file_event fl os (FOpen n flags) = (flags = create_flags fl n)"
| "file_event fl os e = True"

abbreviation file_events :: "log_flags \<Rightarrow> os \<Rightarrow> fevent set" where
  "file_events fl os \<equiv> {e. file_event fl os e}"

lemma adds_close: "FClose ` UNIV \<subseteq> K \<Longrightarrow> adds K w (snd (close_file f w))"
  by (auto simp: close_file_def intro: adds_emit split: option.splits)

lemma adds_discard: "adds (file_events fl os) w (snd (DiscardFileIfInherited os f w))"
  by (auto simp: DiscardFileIfInherited_def DiscardInheritedFile_def close_file_def Let_def
      intro!: adds_emit split: prod.splits option.splits)

lemma adds_roll_over: "adds (file_events fl os) w (snd (roll_over fl f w))"
  by (auto simp: roll_over_def close_file_def intro: adds_emit split: prod.splits option.splits)

lemma adds_create_links: "adds (file_events fl os) w w' \<Longrightarrow> adds (file_events fl os) w (create_links fl fn f w')"
  by (simp add: create_links_def Let_def adds_emit)

lemma adds_CreateLogfile:
  "CreateLogfile fl os fn f w = (ok, f', w') \<Longrightarrow> adds (file_events fl os) w w'"
  by (auto simp: CreateLogfile_def stat_existing_def close_file_def Let_def at_limit_iff
      intro!: adds_emit adds_create_links split: prod.splits option.splits if_splits)

lemma adds_try_log_dirs:
  "try_log_dirs fl os st tps fn dirs f w = (r, f', w') \<Longrightarrow> adds (file_events fl os) w w'"
proof (induction fl os st tps fn dirs f w rule: try_log_dirs.induct)
  case (2 fl os stripped tps filename dir dirs f w)
  obtain ok f2 w2 where c: "CreateLogfile fl os (MakeLogFilename (dir @ stripped) tps
      (filename_extension f) (FLAGS_timestamp_in_logfile_name fl)) (f\<lparr>base_filename := dir @ stripped\<rparr>) w
        = (ok, f2, w2)"
    by (metis prod_cases3)
  from adds_CreateLogfile [OF c] 2 c show ?case
    by (auto simp: Let_def split: if_splits intro: adds_trans)
qed simp

lemma adds_create:
  "create_selected_or_default fl os tps f w = (r, f', w') \<Longrightarrow> adds (file_events fl os) w w'"
  by (auto simp: create_selected_or_default_def Let_def
      dest: adds_CreateLogfile adds_try_log_dirs split: LogFilenameSource.splits prod.splits)

lemma adds_write_bytes: "adds (file_events fl os) w (snd (write_bytes bs f w))"
  by (auto simp: write_bytes_def intro: adds_emit split: option.splits)

lemma adds_ensure_file:
  "ensure_file fl os ts f w = (ok, f', w') \<Longrightarrow> adds (file_events fl os) w w'"
proof -
  assume e: "ensure_file fl os ts f w = (ok, f', w')"
  obtain r f2 w2 where c: "create_selected_or_default fl os
      (time_pid_string (os_tm os (FLAGS_log_utc_time fl) ts) (os_pid os))
      (f\<lparr>rollover_attempt := 0, file_pid := os_pid os\<rparr>) w = (r, f2, w2)"
    by (metis prod_cases3)
  show ?thesis
    using e c adds_create [OF c]
    by (auto simp: ensure_file_def Let_def write_bytes_def intro!: adds_emit
        split: if_splits prod.splits option.splits)
qed

lemma FlushUnlocked_frame [frame_simps]:
  "stream f = None \<or> file_pid f = os_pid os \<Longrightarrow>
     FlushUnlocked fl os now f w =
       (f\<lparr>bytes_since_flush := (if stream f = None then bytes_since_flush f else 0),
          next_flush_time := now + FLAGS_logbufsecs fl * kTicksPerSecond\<rparr>,
        case stream f of Some p \<Rightarrow> emit (FFlush p) w | None \<Rightarrow> w)"
  by (auto simp: FlushUnlocked_def DiscardFileIfInherited_def split: option.splits)

lemma discard_own:
  "stream (fst (DiscardFileIfInherited os f w)) = None
     \<or> file_pid (fst (DiscardFileIfInherited os f w)) = os_pid os"
  by (auto simp: DiscardFileIfInherited_def DiscardInheritedFile_def close_file_def
      reset_accounting_def Let_def split: prod.splits option.splits)

text \<open>After \<open>ensure_file\<close> succeeded, the stream is open and belongs to this process.\<close>

lemma ensure_file_own:
  assumes "ensure_file fl os ts f w = (True, f', w')"
    and "stream f = None \<or> file_pid f = os_pid os"
  shows "stream f' \<noteq> None \<and> file_pid f' = os_pid os"
proof (cases "stream f = None")
  case True
  obtain ok name f2 w2 where c: "create_selected_or_default fl os
      (time_pid_string (os_tm os (FLAGS_log_utc_time fl) ts) (os_pid os))
      (f\<lparr>rollover_attempt := 0, file_pid := os_pid os\<rparr>) w = ((ok, name), f2, w2)"
    by (metis prod_cases3 surj_pair)
  show ?thesis
    using assms True c create_frame [OF c]
    by (auto simp: ensure_file_def Let_def write_bytes_def split: if_splits prod.splits)
qed (use assms in \<open>auto simp: ensure_file_def\<close>)

lemma roll_over_own:
  "stream f = None \<or> file_pid f = pid \<Longrightarrow>
     stream (fst (roll_over fl f w)) = None \<or> file_pid (fst (roll_over fl f w)) = pid"
  by (auto simp: roll_over_def close_file_def reset_accounting_def split: prod.splits option.splits)

lemma write_message_size:
  assumes "file_ok f" and "stream f \<noteq> None" and "file_pid f = os_pid os"
    and "unat (file_length f) + length msg < 2 ^ 64"
    and "write_message fl os force ts msg f w = (f', w')"
  shows "file_ok f'" and "stream f' = stream f"
    and "unat (file_length f') \<le> unat (file_length f) + length msg"
proof -
  obtain p where p: "stream f = Some p" using assms(2) by auto
  let ?f1 = "fst (write_bytes msg f w)"
  have ok1: "file_ok ?f1" and len1: "unat (file_length ?f1) = unat (file_length f) + length msg"
    using file_ok_write_bytes [OF assms(1,4), of w] by auto
  define f2 where "f2 = ?f1\<lparr>bytes_since_flush := 0,
      next_flush_time := ts + FLAGS_logbufsecs fl * kTicksPerSecond\<rparr>"
  have ok2: "file_ok f2" and st2: "stream f2 \<noteq> None"
    using ok1 p by (auto simp: f2_def file_ok_def frame_simps)
  have "f' = f \<or> f' = ?f1 \<or> (\<exists>w2. f' = fst (drop_memory fl os f2 w2))"
    using assms(3,5) p
    by (auto simp: write_message_def FlushUnlocked_frame write_bytes_def f2_def
        split: if_splits prod.splits) (metis fst_conv)+
  moreover have "file_length (fst (drop_memory fl os f2 w2)) = file_length ?f1"
    "stream (fst (drop_memory fl os f2 w2)) = stream ?f1" for w2
    by (auto simp: drop_memory_def Let_def f2_def)
  ultimately show "file_ok f'" and "stream f' = stream f"
    and "unat (file_length f') \<le> unat (file_length f) + length msg"
    using assms(1) ok1 len1 file_ok_drop_memory [OF ok2 st2] by (auto simp: frame_simps)
qed

definition writes_disabled :: "log_file \<Rightarrow> bool" where
  "writes_disabled f \<longleftrightarrow> filename_source f = kSelected \<and> base_filename f = ''''"

lemma discard_frame:
  "filename_source (fst (DiscardFileIfInherited os f w)) = filename_source f"
  "start_time (fst (DiscardFileIfInherited os f w)) = start_time f"
  by (auto simp: DiscardFileIfInherited_def DiscardInheritedFile_def close_file_def
      reset_accounting_def Let_def split: prod.splits option.splits)

lemma roll_over_frame:
  "filename_source (fst (roll_over fl f w)) = filename_source f"
  "start_time (fst (roll_over fl f w)) = start_time f"
  by (auto simp: roll_over_def close_file_def reset_accounting_def Let_def
      split: prod.splits option.splits)

end
