(* ===== verification/LogFileProps.thy ===== *)
theory LogFileProps imports LogFileFacts begin

text \<open>
  What a write to a log file does as a whole: which calls it makes, how large the file gets,
  what happens to a file inherited over \<open>fork\<close>, when messages are dropped, when the stream is
  flushed.
\<close>

section \<open>Witness states\<close>

definition test_tm :: "bool \<Rightarrow> int \<Rightarrow> tm" where
  "test_tm utc t = \<lparr>tm_year = 124, tm_mon = 0, tm_mday = 5, tm_hour = 1, tm_min = 2, tm_sec = 3\<rparr>"

definition test_os :: os where
  "test_os = \<lparr>os_pid = 7, os_tm = test_tm, os_hostname = ''h'', os_user = ''u'', os_program = ''p'',
     os_log_dirs = [''/a/'', ''/b/''], os_fingerprint = '''', os_prefix_formatter = False,
     os_stat = (\<lambda>n. None), os_open = (\<lambda>n. True), os_lock = (\<lambda>n. True),
     os_ftruncate = (\<lambda>n. True), os_fdopen = (\<lambda>n. True), os_devnull = True, os_dupfd = True,
     os_enospc = False\<rparr>"

definition test_world :: file_world where
  "test_world = \<lparr>stop_writing = False, trace = []\<rparr>"

definition test_file :: log_file where
  "test_file = new_LogFileObject test_os NGLOG_INFO (Some ''/tmp/x'') 0"

section \<open>Whole operations\<close>

lemma drop_range:
  assumes "file_ok f" and "3 * kMebibyte \<le> file_length f"
    and "2 * kMebibyte \<le> total_drop_length (file_length f) - dropped_mem_length f"
  shows "unat (dropped_mem_length f)
         + unat (total_drop_length (file_length f) - dropped_mem_length f) + 2 ^ 20
         \<le> unat (file_length f)"
proof -
  have len: "2 ^ 20 \<le> unat (file_length f)" "3 * 2 ^ 20 \<le> unat (file_length f)"
    using assms(2) by (simp_all add: word_le_nat_alt kMebibyte_eq)
  obtain k where k: "unat (dropped_mem_length f) = k * 2 ^ 20"
    using assms(1) by (auto simp: file_ok_def dvd_def mult.commute)
  have dl: "dropped_mem_length f = 0 \<or> k * 2 ^ 20 + 2 ^ 20 \<le> unat (file_length f)"
    using assms(1) k by (auto simp: file_ok_def)
  have "k \<le> unat (file_length f) div 2 ^ 20 - 1"
  proof (cases "dropped_mem_length f = 0")
    case False
    then have "(k + 1) * 2 ^ 20 \<le> unat (file_length f)" using dl by simp
    then have "k + 1 \<le> unat (file_length f) div 2 ^ 20"
      using less_eq_div_iff_mult_less_eq [of "2 ^ 20" "k + 1"] by simp
    then show ?thesis by simp
  qed (use k in simp)
  then have le: "dropped_mem_length f \<le> total_drop_length (file_length f)"
    by (simp add: word_le_nat_alt unat_total_drop_length [OF len(1)] k)
  have "(unat (file_length f) div 2 ^ 20 - 1) * 2 ^ 20 + 2 ^ 20 \<le> unat (file_length f)"
    using len by simp
  then show ?thesis
    using le by (simp add: unat_sub word_le_nat_alt unat_total_drop_length [OF len(1)])
qed

text \<open>What a write may add to the trace when the file has length \<open>n\<close> after it.\<close>

fun write_event :: "log_flags \<Rightarrow> os \<Rightarrow> nat \<Rightarrow> fevent \<Rightarrow> bool" where
  "write_event fl os n (FAdvise p off len r) = (unat off + unat len + 2 ^ 20 \<le> n)"
| "write_event fl os n e = file_event fl os e"

abbreviation write_events :: "log_flags \<Rightarrow> os \<Rightarrow> nat \<Rightarrow> fevent set" where
  "write_events fl os n \<equiv> {e. write_event fl os n e}"

lemma file_events_write_events: "file_events fl os \<subseteq> write_events fl os n"
proof
  show "e \<in> write_events fl os n" if "e \<in> file_events fl os" for e
    using that by (cases e) auto
qed

text \<open>A write to the open file of this process, without the calls that do nothing then.\<close>

lemma write_message_own:
  assumes "stream f = Some p" and "file_pid f = os_pid os"
  shows "write_message fl os force ts msg f w =
    (if stop_writing w
     then (f, if next_flush_time f \<le> ts then w\<lparr>stop_writing := False\<rparr> else w)
     else if FLAGS_stop_logging_if_full_disk fl \<and> os_enospc os
     then (f, (emit (FWrite p msg) w)\<lparr>stop_writing := True\<rparr>)
     else let f1 = fst (write_bytes msg f w) in
       if force \<or> kFlushBytes \<le> bytes_since_flush f1 \<or> next_flush_time f \<le> ts
       then drop_memory fl os
              (f1\<lparr>bytes_since_flush := 0,
                  next_flush_time := ts + FLAGS_logbufsecs fl * kTicksPerSecond\<rparr>)
              (emit (FFlush p) (emit (FWrite p msg) w))
       else (f1, emit (FWrite p msg) w))"
  using assms by (simp add: write_message_def FlushUnlocked_frame write_bytes_def Let_def)

lemma drop_memory_length [frame_simps]:
  "file_length (fst (drop_memory fl os f w)) = file_length f"
  "stream (fst (drop_memory fl os f w)) = stream f"
  "bytes_since_flush (fst (drop_memory fl os f w)) = bytes_since_flush f"
  "file_pid (fst (drop_memory fl os f w)) = file_pid f"
  "next_flush_time (fst (drop_memory fl os f w)) = next_flush_time f"
  by (auto simp: drop_memory_def Let_def)

lemma adds_drop_memory:
  assumes "file_ok f" and "adds (write_events fl os (unat (file_length f))) w0 w"
  shows "adds (write_events fl os (unat (file_length (fst (drop_memory fl os f w))))) w0
           (snd (drop_memory fl os f w))"
  using drop_range [OF assms(1)] assms(2)
  by (auto simp: drop_memory_def Let_def intro!: adds_emit split: option.splits)

lemma write_message_events:
  assumes "file_ok f" and "stream f = Some p" and "file_pid f = os_pid os"
    and "unat (file_length f) + length msg < 2 ^ 64"
    and "write_message fl os force ts msg f w = (f', w')"
  shows "adds (write_events fl os (unat (file_length f'))) w w'"
proof -
  let ?f1 = "fst (write_bytes msg f w)"
  let ?f2 = "?f1\<lparr>bytes_since_flush := 0,
      next_flush_time := ts + FLAGS_logbufsecs fl * kTicksPerSecond\<rparr>"
  have ok2: "file_ok ?f2"
    using file_ok_write_bytes [OF assms(1,4), of w] by (auto simp: file_ok_def)
  have em: "adds (write_events fl os n) w (emit (FWrite p msg) w)"
    "adds (write_events fl os n) w (emit (FFlush p) (emit (FWrite p msg) w))" for n
    by (auto intro!: adds_emit)
  show ?thesis
    using assms(5) adds_drop_memory [OF ok2 em(2)] em
    unfolding write_message_own [OF assms(2,3)]
    by (auto simp: Let_def split: if_splits)
qed

text \<open>
  The two courses of a write: there is no file and the message is dropped, or the message goes
  to the open file of this process.
\<close>

lemma WriteUnlocked_cases [consumes 5, case_names dropped written]:
  assumes "file_ok f" and "single_name fl f" and "length (header_of fl os ts f) < 2 ^ 62"
    and "\<not> writes_disabled f"
    and "WriteUnlocked fl os force ts msg f w = (f', w')"
  obtains
    (dropped) "stream f' = None" and "file_ok f'" and "adds (file_events fl os) w w'"
  | (written) f3 w3 p where "adds (file_events fl os) w w3"
      and "write_message fl os force ts msg f3 w3 = (f', w')"
      and "file_ok f3" and "stream f3 = Some p" and "file_pid f3 = os_pid os"
      and "unat (file_length f3) < unat (MaxLogSize (FLAGS_max_log_size fl)) * 2 ^ 20
             + length (header_of fl os ts f)"
proof -
  obtain f1 w1 where d: "DiscardFileIfInherited os f w = (f1, w1)" by force
  obtain f2 w2 where r: "roll_over fl f1 w1 = (f2, w2)" by force
  obtain ok f3 w3 where e: "ensure_file fl os ts f2 w2 = (ok, f3, w3)" by (metis prod_cases3)
  have ok2: "file_ok f2" and b2: "below_limit fl f2"
    using file_ok_roll_over [of f1 fl w1] file_ok_discard [OF assms(1), of os w]
      below_limit_roll_over [of fl f1 w1] d r by simp_all
  have s2: "single_name fl f2" and h2: "header_of fl os ts f2 = header_of fl os ts f"
    using assms(2) discard_frame [of os f w] roll_over_frame [of fl f1 w1] d r
    by (simp_all add: single_name_def header_of_def)
  have own: "stream f2 = None \<or> file_pid f2 = os_pid os"
    using roll_over_own discard_own d r by (metis fst_conv)
  have W: "(f', w') = (if ok then write_message fl os force ts msg f3 w3 else (f3, w3))"
    using assms(4,5) d r e by (auto simp: WriteUnlocked_def writes_disabled_def)
  have "adds (file_events fl os) w w1" "adds (file_events fl os) w1 w2"
    using adds_discard [where os = os and f = f and w = w]
      adds_roll_over [where f = f1 and w = w1] d r by (metis snd_conv)+
  then have ad: "adds (file_events fl os) w w3"
    using adds_ensure_file [OF e] adds_trans by blast
  show ?thesis
  proof (cases ok)
    case False
    then show ?thesis
      using dropped W ad ensure_file_failed [of fl os ts f2 w2 f3 w3] e ok2 by simp
  next
    case True
    have hd: "length (header_of fl os ts f2) < 2 ^ 62" using assms(3) h2 by simp
    have e': "ensure_file fl os ts f2 w2 = (True, f3, w3)" using e True by simp
    note ok3 = ensure_file_size [OF e' ok2 b2 s2 hd]
    obtain p where p: "stream f3 = Some p" using ok3(2) by auto
    have "unat (file_length f3) < unat (MaxLogSize (FLAGS_max_log_size fl)) * 2 ^ 20
             + length (header_of fl os ts f)"
      using ok3(3) h2 by (auto simp: kMebibyteShift_def split: if_splits)
    then show ?thesis
      using written [OF ad _ ok3(1) p] ensure_file_own [OF e' own] W True by simp
  qed
qed


definition test_run :: "log_file \<times> file_world" where
  "test_run = WriteUnlocked default_flags test_os True 0 ''m'' test_file test_world"

lemma test_facts:
  "file_ok test_file" "single_name default_flags test_file" "\<not> writes_disabled test_file"
  "length (header_of default_flags test_os 0 test_file) = 171"
  "stream (fst test_run) \<noteq> None" "unat (MaxLogSize (FLAGS_max_log_size default_flags)) = 1800"
proof -
  show "file_ok test_file" by (simp add: test_file_def file_ok_new)
  show "single_name default_flags test_file" "\<not> writes_disabled test_file"
    "stream (fst test_run) \<noteq> None" by code_simp+
  show "length (header_of default_flags test_os 0 test_file) = 171" by code_simp
  show "unat (MaxLogSize (FLAGS_max_log_size default_flags)) = 1800" by code_simp
qed




section \<open>A file inherited over \<open>fork\<close>\<close>

definition inherited :: "os \<Rightarrow> log_file \<Rightarrow> bool" where
  "inherited os f \<longleftrightarrow> stream f \<noteq> None \<and> file_pid f \<noteq> os_pid os"

definition discard_events :: "os \<Rightarrow> string \<Rightarrow> fevent list" where
  "discard_events os p = (if os_devnull os then [FNullRedirect p] else []) @ [FClose p]"

lemma discard_inherited:
  assumes "inherited os f" and "stream f = Some p"
  shows "DiscardFileIfInherited os f w
    = (reset_accounting (f\<lparr>stream := None\<rparr>), w\<lparr>trace := trace w @ discard_events os p\<rparr>)"
  using assms
  by (simp add: inherited_def DiscardFileIfInherited_def DiscardInheritedFile_def close_file_def
      discard_events_def emit_def)

lemma adds_prefix: "adds K w w' \<Longrightarrow> \<exists>es. trace w' = trace w @ es"
  by (auto simp: adds_def)

lemma adds_write_message:
  assumes "stream f = Some p" and "file_pid f = os_pid os"
  shows "adds UNIV w (snd (write_message fl os force ts msg f w))"
  unfolding write_message_own [OF assms]
  by (auto simp: Let_def drop_memory_def intro!: adds_emit split: option.splits)

text \<open>
  A log file inherited from the parent process is never written, flushed or truncated by the
  child: the first thing that a write does is to redirect the descriptor to the null device and
  close the stream, and the stream open after it belongs to this process.
\<close>

theorem WriteUnlocked_inherited:
  assumes "inherited os f" and "stream f = Some p" and "\<not> writes_disabled f"
    and "WriteUnlocked fl os force ts msg f w = (f', w')"
  shows "(\<exists>es. trace w' = trace w @ discard_events os p @ es)
    \<and> (stream f' \<noteq> None \<longrightarrow> file_pid f' = os_pid os)"
proof -
  let ?f1 = "reset_accounting (f\<lparr>stream := None\<rparr>)"
  let ?w1 = "w\<lparr>trace := trace w @ discard_events os p\<rparr>"
  obtain ok f3 w3 where e: "ensure_file fl os ts ?f1 ?w1 = (ok, f3, w3)" by (metis prod_cases3)
  have r: "roll_over fl ?f1 ?w1 = (?f1, ?w1)"
    using below_limit_reset [of fl "f\<lparr>stream := None\<rparr>"]
    by (simp add: roll_over_def at_limit_iff below_limit_def del: below_limit_reset)
  have W: "(f', w') = (if ok then write_message fl os force ts msg f3 w3 else (f3, w3))"
    using assms(3,4) e r
    by (auto simp: WriteUnlocked_def writes_disabled_def discard_inherited [OF assms(1,2)])
  have st: "stream ?f1 = None" by (simp add: reset_accounting_def)
  obtain es where es: "trace w3 = trace ?w1 @ es"
    using adds_prefix [OF adds_ensure_file [OF e]] by auto
  show ?thesis
  proof (cases ok)
    case False
    then show ?thesis
      using W es e ensure_file_failed [of fl os ts ?f1 ?w1 f3 w3] by auto
  next
    case True
    obtain p' where own: "stream f3 = Some p'" "file_pid f3 = os_pid os"
      using ensure_file_own [of fl os ts ?f1 ?w1 f3 w3] e True st by auto
    have "adds UNIV w3 w'" using adds_write_message [OF own] W True by (metis snd_conv)
    moreover have "file_pid f' = os_pid os"
      using W True own unfolding write_message_own [OF own]
      by (auto simp: Let_def frame_simps split: if_splits dest!: arg_cong [where f = fst])
    ultimately show ?thesis using es by (auto simp: adds_def)
  qed
qed

lemma WriteUnlocked_inherited_witness:
  "\<exists>es. trace (snd (WriteUnlocked default_flags (test_os\<lparr>os_pid := 8\<rparr>) True 0 ''m'' (fst test_run)
            test_world))
     = [FNullRedirect ''/tmp/x20240105-010203.7'', FClose ''/tmp/x20240105-010203.7''] @ es"
proof -
  have "inherited (test_os\<lparr>os_pid := 8\<rparr>) (fst test_run)"
    "stream (fst test_run) = Some ''/tmp/x20240105-010203.7''"
    "\<not> writes_disabled (fst test_run)"
    "trace test_world @ discard_events (test_os\<lparr>os_pid := 8\<rparr>) ''/tmp/x20240105-010203.7''
       = [FNullRedirect ''/tmp/x20240105-010203.7'', FClose ''/tmp/x20240105-010203.7'']"
    by code_simp+
  then show ?thesis
    using WriteUnlocked_inherited [of "test_os\<lparr>os_pid := 8\<rparr>" "fst test_run" _ default_flags True 0
        "''m''" test_world] by (metis append_assoc prod.collapse)
qed

text \<open>
  The other entry points on an inherited file: flushing, giving the file another base name
  or extension and destroying it redirect and close the stream, and do nothing else to it.
\<close>

theorem inherited_only_discarded:
  assumes "inherited os f" and "stream f = Some p"
  shows "trace (snd (Flush_file fl os now f w)) = trace w @ discard_events os p
    \<and> trace (snd (destroy_LogFileObject os f w)) = trace w @ discard_events os p
    \<and> (base_filename f \<noteq> n \<longrightarrow> trace (snd (SetBasename os n f w)) = trace w @ discard_events os p)
    \<and> (filename_extension f \<noteq> n \<longrightarrow>
         trace (snd (SetExtension os n f w)) = trace w @ discard_events os p)
    \<and> stream (fst (Flush_file fl os now f w)) = None"
proof -
  have "inherited os (f\<lparr>filename_source := kSelected\<rparr>)"
    "stream (f\<lparr>filename_source := kSelected\<rparr>) = Some p"
    using assms by (simp_all add: inherited_def)
  note d = discard_inherited [OF this] discard_inherited [OF assms]
  show ?thesis
    by (simp add: Flush_file_def FlushUnlocked_def destroy_LogFileObject_def SetBasename_def
        SetExtension_def d close_file_def reset_accounting_def)
qed

lemma inherited_only_discarded_witness:
  "trace (snd (Flush_file default_flags (test_os\<lparr>os_pid := 8\<rparr>) 5 (fst test_run) test_world))
     = [FNullRedirect ''/tmp/x20240105-010203.7'', FClose ''/tmp/x20240105-010203.7'']"
proof -
  have "inherited (test_os\<lparr>os_pid := 8\<rparr>) (fst test_run)"
    "stream (fst test_run) = Some ''/tmp/x20240105-010203.7''"
    "trace test_world @ discard_events (test_os\<lparr>os_pid := 8\<rparr>) ''/tmp/x20240105-010203.7''
       = [FNullRedirect ''/tmp/x20240105-010203.7'', FClose ''/tmp/x20240105-010203.7'']"
    by code_simp+
  then show ?thesis
    using inherited_only_discarded [of "test_os\<lparr>os_pid := 8\<rparr>" "fst test_run"] by metis
qed

section \<open>Sequences of writes\<close>

text \<open>One call of \<open>WriteUnlocked\<close>: what the system answers and the arguments.\<close>

record write_call =
  call_os :: os
  call_force :: bool
  call_time :: int
  call_msg :: string

definition do_write :: "log_flags \<Rightarrow> write_call \<Rightarrow> log_file \<times> file_world \<Rightarrow> log_file \<times> file_world" where
  "do_write fl c s = WriteUnlocked fl (call_os c) (call_force c) (call_time c) (call_msg c) (fst s) (snd s)"

definition do_writes :: "log_flags \<Rightarrow> write_call list \<Rightarrow> log_file \<times> file_world \<Rightarrow> log_file \<times> file_world" where
  "do_writes fl cs s = fold (do_write fl) cs s"

lemma do_write_throttled:
  assumes "stream f = None" and "below_limit fl f" and "\<not> writes_disabled f"
    and "rollover_attempt f + 1 \<noteq> kRolloverAttemptFrequency"
  shows "do_write fl c (f, w) = (f\<lparr>rollover_attempt := rollover_attempt f + 1\<rparr>, w)"
proof -
  have r: "roll_over fl f w = (f, w)"
    using assms(2) by (simp add: roll_over_def at_limit_iff below_limit_def)
  show ?thesis
    using assms r by (auto simp: do_write_def WriteUnlocked_def writes_disabled_def
        DiscardFileIfInherited_def ensure_file_def)
qed

text \<open>
  Throttling of failed attempts: when a write has just failed to create the file (the retry
  counter is 0) and no left-over length is at the limit, the next 31 writes make no system call
  at all: their messages are dropped and only the counter moves.
\<close>

theorem failed_create_throttles:
  assumes "stream f = None" and "below_limit fl f" and "\<not> writes_disabled f"
    and "rollover_attempt f = 0" and "length cs < 32"
  shows "do_writes fl cs (f, w) = (f\<lparr>rollover_attempt := of_nat (length cs)\<rparr>, w)"
  using assms(5)
proof (induction cs rule: rev_induct)
  case (snoc c cs)
  let ?f = "f\<lparr>rollover_attempt := of_nat (length cs)\<rparr>"
  have IH: "do_writes fl cs (f, w) = (?f, w)" using snoc by simp
  have "(of_nat (length cs) :: 32 word) + 1 = of_nat (length cs + 1)" by simp
  also have "\<dots> \<noteq> kRolloverAttemptFrequency"
  proof
    assume "(of_nat (length cs + 1) :: 32 word) = kRolloverAttemptFrequency"
    then have "unat (of_nat (length cs + 1) :: 32 word) = 32"
      by (simp only: kRolloverAttemptFrequency_def) simp
    moreover have "unat (of_nat (length cs + 1) :: 32 word) = length cs + 1"
      using snoc.prems by (simp only: unat_of_nat) (simp add: take_bit_nat_eq_self)
    ultimately show False using snoc.prems by simp
  qed
  finally have "do_write fl c (?f, w) = (?f\<lparr>rollover_attempt := rollover_attempt ?f + 1\<rparr>, w)"
    using assms(1-3) by (intro do_write_throttled) (simp_all add: below_limit_def writes_disabled_def)
  then show ?case using IH by (simp add: do_writes_def)
qed (use assms(4) in \<open>simp add: do_writes_def\<close>)

text \<open>A call for which the file cannot be opened.\<close>

definition failing_call :: write_call where
  "failing_call = \<lparr>call_os = test_os\<lparr>os_open := \<lambda>n. False\<rparr>, call_force = False, call_time = 0,
     call_msg = ''m''\<rparr>"

definition failed_run :: "log_file \<times> file_world" where
  "failed_run = do_write default_flags failing_call (test_file, test_world)"

lemma failed_create_throttles_witness:
  "do_writes default_flags (replicate 31 failing_call) failed_run
     = ((fst failed_run)\<lparr>rollover_attempt := 31\<rparr>, snd failed_run)
   \<and> length (trace (snd failed_run)) = 2"
proof -
  have "stream (fst failed_run) = None" "\<not> writes_disabled (fst failed_run)"
    "rollover_attempt (fst failed_run) = 0" "file_length (fst failed_run) = 0"
    "length (trace (snd failed_run)) = 2"
    by code_simp+
  moreover from this have "below_limit default_flags (fst failed_run)"
    using test_facts(6) by (simp add: below_limit_def)
  ultimately show ?thesis
    using failed_create_throttles [of "fst failed_run" default_flags "replicate 31 failing_call"
        "snd failed_run"] by simp
qed

text \<open>
  The retry counter does not throttle when the length left over from the size check of an
  existing file is at the limit (here the file is locked by another process): every write makes
  the system calls again.
\<close>

definition locked_call :: write_call where
  "locked_call = \<lparr>call_os = test_os\<lparr>os_stat := \<lambda>n. Some 0x80000000, os_lock := \<lambda>n. False\<rparr>,
     call_force = False, call_time = 0, call_msg = ''m''\<rparr>"

lemma locked_oversized_not_throttled:
  "length (filter (\<lambda>e. e = FStat ''/tmp/x'')
     (trace (snd (do_writes (default_flags\<lparr>FLAGS_timestamp_in_logfile_name := False\<rparr>)
        (replicate 4 locked_call) (test_file, test_world))))) = 4"
  by code_simp

section \<open>Delivery and flushing\<close>

fun is_write :: "fevent \<Rightarrow> bool" where
  "is_write (FWrite p bs) = True"
| "is_write e = False"

definition writes_of :: "fevent list \<Rightarrow> fevent list" where
  "writes_of es = filter is_write es"

lemma writes_of_append [simp]: "writes_of (xs @ ys) = writes_of xs @ writes_of ys"
  by (simp add: writes_of_def)

abbreviation writes_in :: "file_world \<Rightarrow> fevent list" where
  "writes_in w \<equiv> writes_of (trace w)"

lemma writes_close [frame_simps]: "writes_in (snd (close_file f w)) = writes_in w"
  by (simp add: close_file_def writes_of_def split: option.splits)

lemma writes_discard [frame_simps]: "writes_in (snd (DiscardFileIfInherited os f w)) = writes_in w"
  by (simp add: DiscardFileIfInherited_def DiscardInheritedFile_def close_file_def writes_of_def
      Let_def split: prod.splits option.splits)

lemma writes_roll_over [frame_simps]: "writes_in (snd (roll_over fl f w)) = writes_in w"
  by (simp add: roll_over_def close_file_def writes_of_def split: prod.splits option.splits)

lemma writes_create_links [frame_simps]: "writes_in (create_links fl n f w) = writes_in w"
  by (simp add: create_links_def writes_of_def Let_def)

lemma writes_CreateLogfile:
  "CreateLogfile fl os n f w = (ok, f', w') \<Longrightarrow> writes_in w' = writes_in w"
  by (auto simp: CreateLogfile_def stat_existing_def close_file_def Let_def frame_simps
      writes_of_def [of "_ # _"] writes_of_def [of "[]"] split: prod.splits option.splits if_splits)

lemma writes_try_log_dirs:
  "try_log_dirs fl os st tps fn dirs f w = (r, f', w') \<Longrightarrow> writes_in w' = writes_in w"
  by (induction fl os st tps fn dirs f w rule: try_log_dirs.induct)
    (auto simp: Let_def dest!: writes_CreateLogfile split: prod.splits if_splits)

lemma writes_create:
  "create_selected_or_default fl os tps f w = (r, f', w') \<Longrightarrow> writes_in w' = writes_in w"
  by (auto simp: create_selected_or_default_def Let_def
      dest: writes_CreateLogfile writes_try_log_dirs split: LogFilenameSource.splits prod.splits)

text \<open>A new file starts with its header, when headers are enabled; an open file gets nothing.\<close>

lemma ensure_file_writes:
  assumes "ensure_file fl os ts f w = (ok, f', w')"
  shows "writes_in w' = writes_in w
    \<or> ok \<and> (\<exists>p. stream f' = Some p \<and> writes_in w' = writes_in w @ [FWrite p (header_of fl os ts f)])"
    and "\<not> ok \<Longrightarrow> writes_in w' = writes_in w"
    and "stop_writing w' = stop_writing w"
proof -
  obtain ok' name f2 w2 where c: "create_selected_or_default fl os
      (time_pid_string (os_tm os (FLAGS_log_utc_time fl) ts) (os_pid os))
      (f\<lparr>rollover_attempt := 0, file_pid := os_pid os\<rparr>) w = ((ok', name), f2, w2)"
    by (metis prod_cases3 surj_pair)
  note cs = writes_create [OF c] create_frame(6,7) [OF c] create_start_time [OF c]
  show "writes_in w' = writes_in w
    \<or> ok \<and> (\<exists>p. stream f' = Some p \<and> writes_in w' = writes_in w @ [FWrite p (header_of fl os ts f)])"
    using assms c cs
    by (auto simp: ensure_file_def Let_def header_of_def write_bytes_def
        writes_of_def [of "_ # _"] writes_of_def [of "[]"] split: if_splits)
  show "\<not> ok \<Longrightarrow> writes_in w' = writes_in w"
    using assms c cs
    by (auto simp: ensure_file_def Let_def writes_of_def [of "_ # _"] writes_of_def [of "[]"]
        split: if_splits prod.splits)
  show "stop_writing w' = stop_writing w"
    using assms c cs by (auto simp: ensure_file_def Let_def write_bytes_def split: if_splits prod.splits option.splits)
qed

lemma writes_drop_memory [frame_simps]: "writes_in (snd (drop_memory fl os f w)) = writes_in w"
  by (simp add: drop_memory_def writes_of_def Let_def split: option.splits)

lemma stop_writing_frame [frame_simps]:
  "stop_writing (snd (DiscardFileIfInherited os f w)) = stop_writing w"
  "stop_writing (snd (roll_over fl f w)) = stop_writing w"
  by (auto simp: DiscardFileIfInherited_def DiscardInheritedFile_def roll_over_def close_file_def
      Let_def split: prod.splits option.splits)

lemma drop_memory_adds_advise:
  "\<exists>es. trace (snd (drop_memory fl os f w)) = trace w @ es \<and> writes_of es = []"
  by (auto simp: drop_memory_def Let_def writes_of_def split: option.splits)

text \<open>The message itself: written once, and flushed when the policy asks for it.\<close>

lemma write_message_delivers:
  assumes "stream f = Some p" and "file_pid f = os_pid os" and "\<not> stop_writing w"
    and "write_message fl os force ts msg f w = (f', w')"
  shows "\<exists>es. trace w' = trace w @ FWrite p msg # es \<and> writes_of es = []
    \<and> stream f' = Some p
    \<and> (\<not> (FLAGS_stop_logging_if_full_disk fl \<and> os_enospc os) \<longrightarrow>
        bytes_since_flush f' < kFlushBytes
        \<and> (force \<or> next_flush_time f \<le> ts \<longrightarrow>
             bytes_since_flush f' = 0 \<and> (\<exists>es'. es = FFlush p # es')))"
proof -
  let ?f2 = "(fst (write_bytes msg f w))\<lparr>bytes_since_flush := 0,
      next_flush_time := ts + FLAGS_logbufsecs fl * kTicksPerSecond\<rparr>"
  obtain es where es: "trace (snd (drop_memory fl os ?f2 (emit (FFlush p) (emit (FWrite p msg) w))))
       = trace w @ [FWrite p msg, FFlush p] @ es" "writes_of es = []"
    using drop_memory_adds_advise [of fl os ?f2 "emit (FFlush p) (emit (FWrite p msg) w)"] by auto
  have fl2: "bytes_since_flush (fst (drop_memory fl os ?f2 w2)) = 0"
    "stream (fst (drop_memory fl os ?f2 w2)) = Some p" for w2
    using assms(1) by (simp_all add: frame_simps)
  let ?full = "FLAGS_stop_logging_if_full_disk fl \<and> os_enospc os"
  let ?f1 = "fst (write_bytes msg f w)"
  have st1: "stream ?f1 = Some p" using assms(1) by (simp add: frame_simps)
  note eq = assms(4) [unfolded write_message_own [OF assms(1,2)], simplified assms(3) if_False Let_def]
  show ?thesis
  proof (cases "\<not> ?full \<and> (force \<or> kFlushBytes \<le> bytes_since_flush ?f1 \<or> next_flush_time f \<le> ts)")
    case True
    then have "f' = fst (drop_memory fl os ?f2 (emit (FFlush p) (emit (FWrite p msg) w)))"
      "w' = snd (drop_memory fl os ?f2 (emit (FFlush p) (emit (FWrite p msg) w)))"
      using eq by (metis fst_conv snd_conv)+
    then show ?thesis
      using es fl2 by (auto simp: writes_of_def kFlushBytes_def)
  next
    case False
    then have "w' = emit (FWrite p msg) w \<and> f' = ?f1 \<and> \<not> ?full
      \<or> w' = (emit (FWrite p msg) w)\<lparr>stop_writing := True\<rparr> \<and> f' = f \<and> ?full"
      using eq by (auto split: if_splits)
    then show ?thesis
      using False st1 assms(1) by (auto simp: writes_of_def not_le)
  qed
qed



text \<open>
  A full disk. With \<open>stop_logging_if_full_disk\<close>, a write that fails for lack of space stops
  the writing of every log file; until the flush time of its file is reached a write then leaves
  the file and the system alone, and the first write after it resumes writing for the next one.
\<close>

theorem full_disk_stops_writing:
  assumes "stream f = Some p" and "file_pid f = os_pid os" and "below_limit fl f"
    and "\<not> writes_disabled f" and "FLAGS_stop_logging_if_full_disk fl" and "os_enospc os"
  shows "stop_writing (snd (WriteUnlocked fl os force ts msg f (w\<lparr>stop_writing := False\<rparr>)))
    \<and> fst (WriteUnlocked fl os force ts msg f (w\<lparr>stop_writing := False\<rparr>)) = f
    \<and> WriteUnlocked fl os force ts msg f (w\<lparr>stop_writing := True\<rparr>)
        = (f, w\<lparr>stop_writing := ts < next_flush_time f\<rparr>)"
proof -
  have r: "roll_over fl f w = (f, w)" for w
    using assms(3) by (simp add: roll_over_def at_limit_iff below_limit_def)
  have "WriteUnlocked fl os force ts msg f w = write_message fl os force ts msg f w" for w
    using assms(1,2,4) by (auto simp: WriteUnlocked_def writes_disabled_def ensure_file_def
        DiscardFileIfInherited_def r)
  then show ?thesis
    by (simp add: write_message_own [OF assms(1,2)] assms(5,6))
qed

lemma full_disk_stops_writing_witness:
  "stop_writing (snd (WriteUnlocked (default_flags\<lparr>FLAGS_stop_logging_if_full_disk := True\<rparr>)
     (test_os\<lparr>os_enospc := True\<rparr>) False 0 ''m'' (fst test_run) (test_world\<lparr>stop_writing := False\<rparr>)))"
proof -
  let ?fl = "default_flags\<lparr>FLAGS_stop_logging_if_full_disk := True\<rparr>"
  have "stream (fst test_run) = Some ''/tmp/x20240105-010203.7''" by code_simp
  moreover have "file_pid (fst test_run) = os_pid (test_os\<lparr>os_enospc := True\<rparr>)" by code_simp
  moreover have "\<not> writes_disabled (fst test_run)" by code_simp
  moreover have len: "file_length (fst test_run) = 172" by code_simp
  moreover have lim: "unat (MaxLogSize (FLAGS_max_log_size ?fl)) = 1800" by code_simp
  moreover have "FLAGS_stop_logging_if_full_disk ?fl" "os_enospc (test_os\<lparr>os_enospc := True\<rparr>)"
    by simp_all
  moreover have "below_limit ?fl (fst test_run)"
    unfolding below_limit_def len lim by (simp add: kMebibyteShift_def)
  ultimately show ?thesis
    by - (rule conjunct1 [OF full_disk_stops_writing], assumption+)
qed

end
