(* ===== verification/LogDestination.thy ===== *)
theory LogDestination imports LogFileProps begin

text \<open>
  \<open>LogDestination\<close> of \<open>src/src/logging.cc\<close>: the array of destinations, one per severity, with
  the file behind each and the logger that a user may install instead; which destinations a
  message reaches; the configuration entry points. The global variables of the logging core are
  the record \<open>log_world\<close>, what a call reads without changing it is the record \<open>log_env\<close>.

  What leaves the library is listed in \<open>events\<close>: taking and releasing \<open>log_mutex\<close>, output to the
  terminal, calls of loggers and sinks. A write to the file of a destination appears there as
  \<open>ELogfile\<close> and takes its effect on the \<open>log_file\<close> (theory \<open>LogFile\<close>). Colours are not modelled:
  the text of a message is the same with and without them.
\<close>

section \<open>State\<close>

datatype devent =
    ELock
  | EUnlock
  | EPreInitWarning
  | EStdout string
  | EStderr string
  | EFlushStdout
  | ELogfile LogSeverity bool int string
  | ELogger nat LogSeverity bool int string
  | ELoggerFlush nat
  | EReleaseLogger nat
  | ESinkSend nat string
  | ESinkWait nat
  | EEmail LogSeverity string string string
  | EOutvec nat string
  | EString nat string
  | ESyslog LogSeverity string
  | EStackTrace
  | EFail

text \<open>A logger is the destination's own file (\<open>None\<close>) or an installed object.\<close>

record log_destination =
  fileobject :: log_file
  logger :: "nat option"

record log_env =
  env_flags :: log_flags
  env_os :: os
  env_now :: int
  exit_on_dfatal :: bool
  logging_initialized :: bool
  logmailer :: string

record crash_reason =
  crash_filename :: string
  crash_line :: int
  crash_message :: string

record log_world =
  destinations :: "LogSeverity \<Rightarrow> log_destination option"
  files :: file_world
  email_logging_severity :: int
  addresses :: string
  sinks :: "nat list"
  already_warned_before_init :: bool
  num_messages :: "LogSeverity \<Rightarrow> 64 word"
  crash :: "crash_reason option"
  fatal_message :: string
  fatal_time :: int
  thread_data_available :: bool
  fatal_msg_exclusive :: bool
  cur_errno :: int
  events :: "devent list"

definition note_event :: "devent \<Rightarrow> log_world \<Rightarrow> log_world" where
  "note_event e w = w\<lparr>events := events w @ [e]\<rparr>"

lemma events_note [simp]: "events (note_event e w) = events w @ [e]"
  by (simp add: note_event_def)

definition kEmailLoggingDisabled :: int where
  "kEmailLoggingDisabled = 99999"

text \<open>The globals when the program starts.\<close>

definition initial_world :: log_world where
  "initial_world = \<lparr>destinations = (\<lambda>s. None), files = \<lparr>stop_writing = False, trace = []\<rparr>,
     email_logging_severity = kEmailLoggingDisabled, addresses = '''', sinks = [],
     already_warned_before_init = False, num_messages = (\<lambda>s. 0), crash = None,
     fatal_message = '''', fatal_time = 0, thread_data_available = True,
     fatal_msg_exclusive = True, cur_errno = 0, events = []\<rparr>"

section \<open>One destination\<close>

text \<open>\<open>log_destination(severity)\<close> creates the destination on first use.\<close>

definition log_destination :: "log_env \<Rightarrow> LogSeverity \<Rightarrow> log_world \<Rightarrow> log_destination \<times> log_world" where
  "log_destination env sev w =
     (case destinations w sev of
        Some d \<Rightarrow> (d, w)
      | None \<Rightarrow>
          let d = \<lparr>fileobject = new_LogFileObject (env_os env) sev None (env_now env), logger = None\<rparr>
          in (d, w\<lparr>destinations := (destinations w)(sev := Some d)\<rparr>))"

definition set_fileobject :: "LogSeverity \<Rightarrow> log_destination \<Rightarrow> log_file \<times> file_world \<Rightarrow> log_world \<Rightarrow> log_world" where
  "set_fileobject sev d r w =
     w\<lparr>destinations := (destinations w)(sev := Some (d\<lparr>fileobject := fst r\<rparr>)), files := snd r\<rparr>"

text \<open>\<open>destination->logger_->Write(...)\<close>: virtual, the file's own \<open>Write\<close> by default.\<close>

definition logger_Write ::
  "log_env \<Rightarrow> LogSeverity \<Rightarrow> log_destination \<Rightarrow> bool \<Rightarrow> int \<Rightarrow> string \<Rightarrow> log_world \<Rightarrow> log_world" where
  "logger_Write env sev d force_flush timestamp message w =
     (case logger d of
        Some l \<Rightarrow> note_event (ELogger l sev force_flush timestamp message) w
      | None \<Rightarrow>
          set_fileobject sev d
            (WriteUnlocked (env_flags env) (env_os env) force_flush timestamp message (fileobject d) (files w))
            (note_event (ELogfile sev force_flush timestamp message) w))"

definition logger_Flush :: "log_env \<Rightarrow> LogSeverity \<Rightarrow> log_destination \<Rightarrow> log_world \<Rightarrow> log_world" where
  "logger_Flush env sev d w =
     (case logger d of
        Some l \<Rightarrow> note_event (ELoggerFlush l) w
      | None \<Rightarrow>
          set_fileobject sev d
            (Flush_file (env_flags env) (env_os env) (env_now env) (fileobject d) (files w)) w)"

definition MaybeLogToLogfile ::
  "log_env \<Rightarrow> LogSeverity \<Rightarrow> int \<Rightarrow> string \<Rightarrow> log_world \<Rightarrow> log_world" where
  "MaybeLogToLogfile env sev timestamp message w =
     (let should_flush = sev_int sev > FLAGS_logbuflevel (env_flags env);
          (d, w1) = log_destination env sev w
      in logger_Write env sev d should_flush timestamp message w1)"

definition MaybeLogToLogfileLocked ::
  "log_env \<Rightarrow> LogSeverity \<Rightarrow> int \<Rightarrow> string \<Rightarrow> log_world \<Rightarrow> log_world" where
  "MaybeLogToLogfileLocked env sev timestamp message w =
     (let should_flush = sev_int sev > FLAGS_logbuflevel (env_flags env);
          (d, w1) = log_destination env sev w
      in logger_Write env sev d should_flush timestamp message w1)"

section \<open>Terminal output\<close>

text \<open>Whether a line meant for stdout goes to stderr instead is decided by the severity.\<close>

definition MaybeFlushStdout :: "log_env \<Rightarrow> LogSeverity \<Rightarrow> log_world \<Rightarrow> log_world" where
  "MaybeFlushStdout env sev w =
     (if sev_int sev > FLAGS_logbuflevel (env_flags env) then note_event EFlushStdout w else w)"

definition ColoredWriteToStdout :: "log_env \<Rightarrow> LogSeverity \<Rightarrow> string \<Rightarrow> log_world \<Rightarrow> log_world" where
  "ColoredWriteToStdout env sev message w =
     (if sev_int sev \<ge> FLAGS_stderrthreshold (env_flags env) then note_event (EStderr message) w
      else MaybeFlushStdout env sev (note_event (EStdout message) w))"

definition ColoredWriteToStderr :: "log_env \<Rightarrow> LogSeverity \<Rightarrow> string \<Rightarrow> log_world \<Rightarrow> log_world" where
  "ColoredWriteToStderr env sev message w = note_event (EStderr message) w"

definition MaybeLogToStderr :: "log_env \<Rightarrow> LogSeverity \<Rightarrow> string \<Rightarrow> log_world \<Rightarrow> log_world" where
  "MaybeLogToStderr env sev message w =
     (if sev_int sev \<ge> FLAGS_stderrthreshold (env_flags env) \<or> FLAGS_alsologtostderr (env_flags env)
      then ColoredWriteToStderr env sev message w else w)"

section \<open>All destinations\<close>

text \<open>\<open>for (int i = severity; i >= 0; --i)\<close>\<close>

definition severities_down_from :: "LogSeverity \<Rightarrow> LogSeverity list" where
  "severities_down_from sev = rev (filter (\<lambda>s. s \<le> sev) all_severities)"

definition LogToAllLogfiles :: "log_env \<Rightarrow> LogSeverity \<Rightarrow> int \<Rightarrow> string \<Rightarrow> log_world \<Rightarrow> log_world" where
  "LogToAllLogfiles env sev timestamp message w =
     (if FLAGS_logtostdout (env_flags env) then ColoredWriteToStdout env sev message w
      else if FLAGS_logtostderr (env_flags env) then ColoredWriteToStderr env sev message w
      else fold (\<lambda>s. MaybeLogToLogfile env s timestamp message) (severities_down_from sev) w)"

definition LogToAllLogfilesLocked :: "log_env \<Rightarrow> LogSeverity \<Rightarrow> int \<Rightarrow> string \<Rightarrow> log_world \<Rightarrow> log_world" where
  "LogToAllLogfilesLocked env sev timestamp message w =
     (if FLAGS_logtostdout (env_flags env) then ColoredWriteToStdout env sev message w
      else if FLAGS_logtostderr (env_flags env) then ColoredWriteToStderr env sev message w
      else fold (\<lambda>s. MaybeLogToLogfileLocked env s timestamp message) (severities_down_from sev) w)"

text \<open>Flushing: the locked variant goes through the loggers, the unsafe one to the files.\<close>

definition severities_from :: "int \<Rightarrow> LogSeverity list" where
  "severities_from min_severity = filter (\<lambda>s. max min_severity 0 \<le> sev_int s) all_severities"

definition FlushLogFiles :: "log_env \<Rightarrow> int \<Rightarrow> log_world \<Rightarrow> log_world" where
  "FlushLogFiles env min_severity w =
     note_event EUnlock (fold (\<lambda>s w. let (d, w1) = log_destination env s w in logger_Flush env s d w1)
       (severities_from min_severity) (note_event ELock w))"

definition FlushLogFilesUnsafe :: "log_env \<Rightarrow> int \<Rightarrow> log_world \<Rightarrow> log_world" where
  "FlushLogFilesUnsafe env min_severity w =
     (if min_severity \<ge> NUM_SEVERITIES then w
      else fold (\<lambda>s w. case destinations w s of
          None \<Rightarrow> w
        | Some d \<Rightarrow> set_fileobject s d (FlushUnlocked (env_flags env) (env_os env) (env_now env)
                      (fileobject d) (files w)) w)
        (severities_from min_severity) w)"

section \<open>Configuration\<close>

definition locked :: "(log_world \<Rightarrow> log_world) \<Rightarrow> log_world \<Rightarrow> log_world" where
  "locked f w = note_event EUnlock (f (note_event ELock w))"

text \<open>The severity of a public entry point is an \<open>int\<close> that may be out of range.\<close>

definition checked :: "int \<Rightarrow> (LogSeverity \<Rightarrow> 'a) \<Rightarrow> check_failure + 'a" where
  "checked sv f = (case CheckSeverityInRange sv of
     Inl e \<Rightarrow> Inl e | Inr _ \<Rightarrow> Inr (f (int_severity sv)))"

definition SetLogDestination :: "log_env \<Rightarrow> int \<Rightarrow> string \<Rightarrow> log_world \<Rightarrow> check_failure + log_world" where
  "SetLogDestination env sv base w =
     checked sv (\<lambda>sev. locked (\<lambda>w.
       let (d, w1) = log_destination env sev w
       in set_fileobject sev d (SetBasename (env_os env) base (fileobject d) (files w1)) w1) w)"

definition SetLogSymlink :: "log_env \<Rightarrow> int \<Rightarrow> string \<Rightarrow> log_world \<Rightarrow> check_failure + log_world" where
  "SetLogSymlink env sv symlink w =
     checked sv (\<lambda>sev. locked (\<lambda>w.
       let (d, w1) = log_destination env sev w
       in set_fileobject sev d (SetSymlinkBasename symlink (fileobject d), files w1) w1) w)"

definition SetLogFilenameExtension :: "log_env \<Rightarrow> string \<Rightarrow> log_world \<Rightarrow> log_world" where
  "SetLogFilenameExtension env ext = locked (fold (\<lambda>sev w.
       let (d, w1) = log_destination env sev w
       in set_fileobject sev d (SetExtension (env_os env) ext (fileobject d) (files w1)) w1)
     all_severities)"

definition SetEmailLogging :: "LogSeverity \<Rightarrow> string \<Rightarrow> log_world \<Rightarrow> log_world" where
  "SetEmailLogging min_severity addrs =
     locked (\<lambda>w. w\<lparr>email_logging_severity := sev_int min_severity, addresses := addrs\<rparr>)"

text \<open>\<open>SetStderrLogging\<close> and \<open>LogToStderr\<close> change a flag, so they return the flags too.\<close>

definition SetStderrLogging :: "LogSeverity \<Rightarrow> log_env \<times> log_world \<Rightarrow> log_env \<times> log_world" where
  "SetStderrLogging min_severity ew =
     ((fst ew)\<lparr>env_flags := (env_flags (fst ew))\<lparr>FLAGS_stderrthreshold := sev_int min_severity\<rparr>\<rparr>,
      locked (\<lambda>w. w) (snd ew))"

definition LogToStderr :: "log_env \<times> log_world \<Rightarrow> log_env \<times> log_world" where
  "LogToStderr ew =
     (let (env, w) = SetStderrLogging NGLOG_INFO ew
      in (env, fold (\<lambda>sev w. case SetLogDestination env (sev_int sev) '''' w of
                        Inl _ \<Rightarrow> w | Inr w' \<Rightarrow> w') all_severities w))"

text \<open>
  An installed logger is owned by the destination and deleted when another one replaces it;
  installing the current one changes nothing. \<open>None\<close> stands for the destination's own file.
\<close>

definition SetLoggerImpl :: "nat option \<Rightarrow> LogSeverity \<Rightarrow> log_destination \<Rightarrow> log_world \<Rightarrow> log_world" where
  "SetLoggerImpl l sev d w =
     (if logger d = l then w
      else let w1 = (case logger d of Some old \<Rightarrow> note_event (EReleaseLogger old) w | None \<Rightarrow> w)
           in w1\<lparr>destinations := (destinations w1)(sev := Some (d\<lparr>logger := l\<rparr>))\<rparr>)"

definition SetLogger :: "log_env \<Rightarrow> int \<Rightarrow> nat option \<Rightarrow> log_world \<Rightarrow> check_failure + log_world" where
  "SetLogger env sv l w =
     checked sv (\<lambda>sev. locked (\<lambda>w.
       let (d, w1) = log_destination env sev w in SetLoggerImpl l sev d w1) w)"

definition GetLogger :: "log_env \<Rightarrow> int \<Rightarrow> log_world \<Rightarrow> check_failure + (nat option \<times> log_world)" where
  "GetLogger env sv w =
     checked sv (\<lambda>sev. let (d, w1) = log_destination env sev (note_event ELock w)
       in (logger d, note_event EUnlock w1))"

definition AddLogSink :: "nat \<Rightarrow> log_world \<Rightarrow> log_world" where
  "AddLogSink sink w = w\<lparr>sinks := sinks w @ [sink]\<rparr>"

definition RemoveLogSink :: "nat \<Rightarrow> log_world \<Rightarrow> log_world" where
  "RemoveLogSink sink w = w\<lparr>sinks := filter (\<lambda>s. s \<noteq> sink) (sinks w)\<rparr>"

text \<open>\<open>DeleteLogDestinations\<close>: destroys each destination with its file and its logger.\<close>

definition delete_destination :: "log_env \<Rightarrow> LogSeverity \<Rightarrow> log_world \<Rightarrow> log_world" where
  "delete_destination env sev w = (case destinations w sev of
     None \<Rightarrow> w
   | Some d \<Rightarrow>
       let w1 = (case logger d of Some l \<Rightarrow> note_event (EReleaseLogger l) w | None \<Rightarrow> w);
           (f, fw) = destroy_LogFileObject (env_os env) (fileobject d) (files w1)
       in w1\<lparr>destinations := (destinations w1)(sev := None), files := fw\<rparr>)"

definition DeleteLogDestinations :: "log_env \<Rightarrow> log_world \<Rightarrow> log_world" where
  "DeleteLogDestinations env w = (fold (delete_destination env) all_severities w)\<lparr>sinks := []\<rparr>"

end
