(* ===== verification/LogMessage.thy ===== *)
theory LogMessage imports LogDestination begin

text \<open>
  \<open>LogMessage\<close> of \<open>src/src/logging.cc\<close> and the stream buffer of
  \<open>src/src/ng-log/log_message.h\<close>: the fixed buffer that a message is composed in, the default
  prefix, \<open>Init\<close>, \<open>Flush\<close> with the send methods, the destructor, and the reprinting of a fatal
  message.

  \<open>message_text\<close> is the whole array of \<open>kMaxLogMessageLen + 1\<close> bytes, so that writing the
  newline and the terminator behind the stream's text is an update of that array. A prefix
  formatter of the user, a stack trace and the text of a wide message are not modelled.
\<close>

section \<open>Message data and its stream\<close>

definition kMaxLogMessageLen :: nat where
  "kMaxLogMessageLen = 30000"

definition kNoLogPrefix :: int where
  "kNoLogPrefix = -1"

datatype send_method =
  SendToSink | SendToSinkAndLog | SendToLog | SaveOrSendToLog | WriteToStringAndLog
  | SendToSyslogAndLog

text \<open>Where the data of a message lives.\<close>

datatype data_place = ThreadLocal | Heap | FatalExclusive | FatalShared

text \<open>
  \<open>struct LogMessageData\<close>. \<open>target\<close> is the union of the three pointers \<open>sink_\<close>, \<open>outvec_\<close> and
  \<open>message_\<close>, of which the send method tells which one is used. \<open>pcount\<close> is the length of the
  text that the stream holds.
\<close>

record message_data =
  place :: data_place
  preserved_errno :: int
  message_text :: string
  pcount :: nat
  msg_severity :: LogSeverity
  line :: int
  sent_by :: send_method
  target :: "nat option"
  num_prefix_chars :: nat
  num_chars_to_log :: nat
  num_chars_to_syslog :: nat
  basename :: string
  fullname :: string
  has_been_flushed :: bool
  first_fatal :: bool
  thread_id :: string
  when_sent :: int
  prefix_severity_len :: nat
  prefix_timestamp_len :: nat
  prefix_threadid_len :: nat
  prefix_fileline_len :: nat
  has_default_prefix :: bool

text \<open>\<open>LogStreamBuf(buf, kMaxLogMessageLen)\<close> leaves two bytes for the newline and the zero.\<close>

definition stream_capacity :: nat where
  "stream_capacity = kMaxLogMessageLen - 2"

text \<open>\<open>LogStreamBuf::append\<close>, and inserting with \<open><<\<close>: what does not fit is dropped.\<close>

definition stream_append :: "string \<Rightarrow> message_data \<Rightarrow> message_data" where
  "stream_append text d =
     (let available = stream_capacity - pcount d;
          n = min (length text) available
      in d\<lparr>message_text := take (pcount d) (message_text d) @ take n text
                           @ drop (pcount d + n) (message_text d),
           pcount := pcount d + n\<rparr>)"

text \<open>The text of the stream, and the text to log.\<close>

definition stream_text :: "message_data \<Rightarrow> string" where
  "stream_text d = take (pcount d) (message_text d)"

definition logged_text :: "message_data \<Rightarrow> string" where
  "logged_text d = take (num_chars_to_log d) (message_text d)"

section \<open>The default prefix\<close>

text \<open>The digits of the magnitude, most significant first, ending before \<open>acc\<close>.\<close>

function prefix_digits :: "32 word \<Rightarrow> string \<Rightarrow> string" where
  "prefix_digits magnitude acc =
     (let acc' = char_of (48 + unat (magnitude mod 10)) # acc
      in if magnitude div 10 \<noteq> 0 then prefix_digits (magnitude div 10) acc' else acc')"
  by pat_completeness auto
termination
proof (relation "measure (\<lambda>(m, acc). unat m)")
  fix m :: "32 word" and acc x :: string
  assume ne: "m div 10 \<noteq> 0"
  have d: "unat (m div 10) = unat m div 10" by (simp add: unat_div_distrib)
  have "unat (m div 10) \<noteq> 0" using ne by (simp add: unsigned_eq_0_iff)
  then show "((m div 10, x), m, acc) \<in> measure (\<lambda>(m, acc). unat m)"
    using d by simp
qed simp

declare prefix_digits.simps [simp del]

text \<open>
  \<open>AppendPrefixNumber\<close> of a 32-bit \<open>int\<close>: the magnitude of a negative number is computed
  without overflow, the padding goes in front of the sign.
\<close>

definition prefix_number :: "32 word \<Rightarrow> nat \<Rightarrow> string" where
  "prefix_number value width =
     (let negative = value <s 0;
          magnitude = (if negative then (- (value + 1)) + 1 else value);
          digits = (if negative then ''-'' else '''') @ prefix_digits magnitude ''''
      in replicate (width - length digits) CHR ''0'' @ digits)"

definition AppendPrefixNumber :: "32 word \<Rightarrow> nat \<Rightarrow> message_data \<Rightarrow> message_data" where
  "AppendPrefixNumber value width d = stream_append (prefix_number value width) d"

record message_time =
  mt_year :: int
  mt_month :: int
  mt_day :: int
  mt_hour :: int
  mt_min :: int
  mt_sec :: int
  mt_usec :: int

abbreviation append_int :: "int \<Rightarrow> nat \<Rightarrow> message_data \<Rightarrow> message_data" where
  "append_int i \<equiv> AppendPrefixNumber (word_of_int i)"

text \<open>\<open>Iyyyymmdd hh:mm:ss.uuuuuu threadid file:line] \<close>\<close>

definition append_timestamp :: "log_flags \<Rightarrow> message_time \<Rightarrow> message_data \<Rightarrow> message_data" where
  "append_timestamp fl t =
     append_int (mt_usec t) 6 \<circ> stream_append ''.'' \<circ> append_int (mt_sec t) 2 \<circ> stream_append '':''
     \<circ> append_int (mt_min t) 2 \<circ> stream_append '':'' \<circ> append_int (mt_hour t) 2 \<circ> stream_append '' ''
     \<circ> append_int (mt_day t) 2 \<circ> append_int (1 + mt_month t) 2
     \<circ> (if FLAGS_log_year_in_prefix fl then append_int (1900 + mt_year t) 4 else id)"

definition AppendDefaultPrefix :: "log_flags \<Rightarrow> LogSeverity \<Rightarrow> message_time \<Rightarrow> message_data \<Rightarrow> message_data" where
  "AppendDefaultPrefix fl sev t d =
     (let d1 = stream_append (take 1 (LogSeverityNames sev)) d;
          d2 = append_timestamp fl t (d1\<lparr>prefix_severity_len := pcount d1\<rparr>);
          d3 = d2\<lparr>prefix_timestamp_len := pcount d2 - prefix_severity_len d2\<rparr>;
          d4 = stream_append (setw 5 CHR '' '' (thread_id d3)) (stream_append '' '' d3);
          d5 = d4\<lparr>prefix_threadid_len :=
                    pcount d4 - prefix_severity_len d4 - prefix_timestamp_len d4 - 1\<rparr>;
          d6 = append_int (line d5) 0 (stream_append '':'' (stream_append (basename d5)
                 (stream_append '' '' d5)));
          d7 = d6\<lparr>prefix_fileline_len :=
                    pcount d6 - prefix_severity_len d6 - prefix_timestamp_len d6 - 1
                    - prefix_threadid_len d6 - 1\<rparr>
      in (stream_append ''] '' d7)\<lparr>has_default_prefix := True\<rparr>)"

section \<open>Construction\<close>

definition const_basename :: "string \<Rightarrow> string" where
  "const_basename path = (case find_last_sep path of Some i \<Rightarrow> drop (i + 1) path | None \<Rightarrow> path)"

text \<open>The storage for the data, and whether this is the first fatal message.\<close>

definition choose_place :: "log_env \<Rightarrow> LogSeverity \<Rightarrow> log_world \<Rightarrow> data_place \<times> bool \<times> log_world" where
  "choose_place env sev w =
     (if sev \<noteq> NGLOG_FATAL \<or> \<not> exit_on_dfatal env then
        if thread_data_available w then (ThreadLocal, False, w\<lparr>thread_data_available := False\<rparr>)
        else (Heap, False, w)
      else if fatal_msg_exclusive w then (FatalExclusive, True, w\<lparr>fatal_msg_exclusive := False\<rparr>)
      else (FatalShared, False, w))"

definition Init ::
  "log_env \<Rightarrow> message_time \<Rightarrow> string \<Rightarrow> string \<Rightarrow> int \<Rightarrow> int \<Rightarrow> send_method \<Rightarrow> nat option \<Rightarrow> log_world
     \<Rightarrow> check_failure + (message_data \<times> log_world)" where
  "Init env t thread file ln sv how to w =
     checked sv (\<lambda>sev.
       let (pl, first, w1) = choose_place env sev w;
           d = \<lparr>place = pl, preserved_errno = cur_errno w,
                message_text = replicate (kMaxLogMessageLen + 1) NUL, pcount = 0,
                msg_severity = sev, line = ln, sent_by = how, target = to, num_prefix_chars = 0,
                num_chars_to_log = 0, num_chars_to_syslog = 0, basename = const_basename file,
                fullname = file, has_been_flushed = False, first_fatal = first,
                thread_id = thread, when_sent = env_now env, prefix_severity_len = 0,
                prefix_timestamp_len = 0, prefix_threadid_len = 0, prefix_fileline_len = 0,
                has_default_prefix = False\<rparr>;
           d1 = (if FLAGS_log_prefix (env_flags env) \<and> ln \<noteq> kNoLogPrefix
                 then AppendDefaultPrefix (env_flags env) sev t d else d)
       in (d1\<lparr>num_prefix_chars := pcount d1\<rparr>, w1))"

section \<open>Sending\<close>

text \<open>The text without its prefix and without the newline at its end.\<close>

definition message_body :: "message_data \<Rightarrow> string" where
  "message_body d =
     take (num_chars_to_log d - num_prefix_chars d - 1) (drop (num_prefix_chars d) (message_text d))"

definition RecordCrashReason :: "message_data \<Rightarrow> crash_reason" where
  "RecordCrashReason d = \<lparr>crash_filename = fullname d, crash_line = line d,
     crash_message = cstr (drop (num_prefix_chars d) (message_text d))\<rparr>"

definition fatal_message_size :: nat where
  "fatal_message_size = 256"

text \<open>The fatal part of \<open>SendToLog\<close>: remember the first message, flush every destination.\<close>

definition send_fatal :: "log_env \<Rightarrow> message_data \<Rightarrow> log_world \<Rightarrow> log_world" where
  "send_fatal env d w =
     (let w1 = (if first_fatal d
                then w\<lparr>crash := Some (RecordCrashReason d),
                       fatal_message := take (fatal_message_size - 1) (logged_text d),
                       fatal_time := when_sent d\<rparr>
                else w)
      in if \<not> FLAGS_logtostderr (env_flags env) \<and> \<not> FLAGS_logtostdout (env_flags env)
         then fold (\<lambda>sev w. case destinations w sev of
                None \<Rightarrow> w | Some dest \<Rightarrow> logger_Write env sev dest True 0 '''' w) all_severities w1
         else w1)"

definition SendToLog_message :: "log_env \<Rightarrow> message_data \<Rightarrow> log_world \<Rightarrow> log_world" where
  "SendToLog_message env d w =
     (let sev = msg_severity d;
          w1 = (if \<not> already_warned_before_init w \<and> \<not> logging_initialized env
                then (note_event EPreInitWarning w)\<lparr>already_warned_before_init := True\<rparr> else w);
          w2 = (if FLAGS_logtostderr (env_flags env) \<or> FLAGS_logtostdout (env_flags env)
                   \<or> \<not> logging_initialized env
                then if FLAGS_logtostdout (env_flags env)
                     then ColoredWriteToStdout env sev (logged_text d) w1
                     else ColoredWriteToStderr env sev (logged_text d) w1
                else MaybeLogToStderr env sev (logged_text d)
                       (LogToAllLogfilesLocked env sev (when_sent d) (logged_text d) w1))
      in if sev = NGLOG_FATAL \<and> exit_on_dfatal env then send_fatal env d w2 else w2)"

definition SendToSink_message :: "message_data \<Rightarrow> log_world \<Rightarrow> log_world" where
  "SendToSink_message d w = (case target d of
     Some sink \<Rightarrow> note_event (ESinkSend sink (message_body d)) w | None \<Rightarrow> w)"

definition SaveOrSendToLog_message :: "log_env \<Rightarrow> message_data \<Rightarrow> log_world \<Rightarrow> log_world" where
  "SaveOrSendToLog_message env d w = (case target d of
     Some v \<Rightarrow> note_event (EOutvec v (message_body d)) w | None \<Rightarrow> SendToLog_message env d w)"

definition WriteToStringAndLog_message :: "log_env \<Rightarrow> message_data \<Rightarrow> log_world \<Rightarrow> log_world" where
  "WriteToStringAndLog_message env d w =
     SendToLog_message env d (case target d of
       Some v \<Rightarrow> note_event (EString v (message_body d)) w | None \<Rightarrow> w)"

definition SendToSyslogAndLog_message :: "log_env \<Rightarrow> message_data \<Rightarrow> log_world \<Rightarrow> log_world" where
  "SendToSyslogAndLog_message env d w =
     SendToLog_message env d (note_event (ESyslog (msg_severity d)
       (take (num_chars_to_syslog d) (drop (num_prefix_chars d) (message_text d)))) w)"

text \<open>
  \<open>LogToSinks\<close>: every registered sink, the last one registered first; \<open>False\<close> when no sink is
  registered. (The protocol that lets a sink be removed meanwhile is the theory \<open>Sinks\<close>.)
\<close>

definition LogToSinks :: "string \<Rightarrow> log_world \<Rightarrow> bool \<times> log_world" where
  "LogToSinks message w =
     (if sinks w = [] then (False, w)
      else (True, fold (\<lambda>sink w. note_event (ESinkWait sink) (note_event (ESinkSend sink message) w))
                    (rev (sinks w)) w))"

definition SendToRegisteredSinks :: "message_data \<Rightarrow> log_world \<Rightarrow> bool \<times> log_world" where
  "SendToRegisteredSinks d w = LogToSinks (message_body d) w"

definition WaitForSinks :: "message_data \<Rightarrow> bool \<Rightarrow> log_world \<Rightarrow> log_world" where
  "WaitForSinks d wait_for_registered_sinks w =
     (let w1 = (if wait_for_registered_sinks
                then fold (\<lambda>sink. note_event (ESinkWait sink)) (rev (sinks w)) w else w)
      in if sent_by d \<in> {SendToSink, SendToSinkAndLog}
         then (case target d of Some sink \<Rightarrow> note_event (ESinkWait sink) w1 | None \<Rightarrow> w1)
         else w1)"

definition send_to_registered_sinks :: "message_data \<Rightarrow> bool" where
  "send_to_registered_sinks d \<longleftrightarrow>
     sent_by d \<in> {SendToLog, SendToSyslogAndLog, SendToSinkAndLog, WriteToStringAndLog}
     \<or> (sent_by d = SaveOrSendToLog \<and> target d = None)"

definition send_locked :: "log_env \<Rightarrow> message_data \<Rightarrow> log_world \<Rightarrow> log_world" where
  "send_locked env d w = (case sent_by d of
     SendToSink \<Rightarrow> w
   | SendToSinkAndLog \<Rightarrow> SendToLog_message env d w
   | SendToLog \<Rightarrow> SendToLog_message env d w
   | SaveOrSendToLog \<Rightarrow> SaveOrSendToLog_message env d w
   | WriteToStringAndLog \<Rightarrow> WriteToStringAndLog_message env d w
   | SendToSyslogAndLog \<Rightarrow> SendToSyslogAndLog_message env d w)"

definition should_send_email :: "log_env \<Rightarrow> message_data \<Rightarrow> log_world \<Rightarrow> bool" where
  "should_send_email env d w \<longleftrightarrow>
     sent_by d \<noteq> SendToSink \<and> send_to_registered_sinks d
     \<and> \<not> FLAGS_logtostderr (env_flags env) \<and> \<not> FLAGS_logtostdout (env_flags env)
     \<and> logging_initialized env
     \<and> (sev_int (msg_severity d) \<ge> email_logging_severity w
        \<or> sev_int (msg_severity d) \<ge> FLAGS_logemaillevel (env_flags env))"

definition email_recipients :: "log_env \<Rightarrow> log_world \<Rightarrow> string" where
  "email_recipients env w =
     (let to = FLAGS_alsologtoemail (env_flags env)
      in if addresses w \<noteq> '''' then (if to \<noteq> '''' then to @ '','' else to) @ addresses w else to)"

definition log_hostname :: "os \<Rightarrow> string" where
  "log_hostname os = (if os_hostname os = '''' then ''(unknown)'' else os_hostname os)"

section \<open>\<open>Flush\<close> and the destructor\<close>

text \<open>The newline and the terminator, written behind the text of the stream.\<close>

definition terminate_text :: "message_data \<Rightarrow> bool \<times> char \<times> message_data" where
  "terminate_text d =
     (let d1 = d\<lparr>num_chars_to_log := pcount d, num_chars_to_syslog := pcount d - num_prefix_chars d\<rparr>;
          append_newline = (num_chars_to_log d1 = 0
             \<or> message_text d1 ! (num_chars_to_log d1 - 1) \<noteq> newline);
          original = (if append_newline then message_text d1 ! num_chars_to_log d1 else NUL);
          d2 = (if append_newline
                then d1\<lparr>message_text := (message_text d1)[num_chars_to_log d1 := newline],
                        num_chars_to_log := num_chars_to_log d1 + 1\<rparr> else d1);
          d3 = d2\<lparr>message_text := (message_text d2)[num_chars_to_log d2 := NUL]\<rparr>
      in (append_newline, original, d3))"

definition Flush_message :: "log_env \<Rightarrow> message_data \<Rightarrow> log_world \<Rightarrow> message_data \<times> log_world" where
  "Flush_message env d w =
     (if has_been_flushed d \<or> sev_int (msg_severity d) < FLAGS_minloglevel (env_flags env) then (d, w)
      else let (append_newline, original, d1) = terminate_text d;
               w1 = (if sent_by d1 \<in> {SendToSink, SendToSinkAndLog} then SendToSink_message d1 w else w);
               email = should_send_email env d1 w1;
               recipients = email_recipients env w1;
               w2 = (if sent_by d1 \<noteq> SendToSink then locked (send_locked env d1) w1 else w1);
               w3 = (if email then note_event (EEmail (msg_severity d1) recipients
                        (log_hostname (env_os env)) (logged_text d1)) w2 else w2);
               (waited, w4) = (if send_to_registered_sinks d1 then SendToRegisteredSinks d1 w3
                               else (False, w3));
               fatal = (send_to_registered_sinks d1 \<and> msg_severity d1 = NGLOG_FATAL
                        \<and> exit_on_dfatal env);
               w5 = (if fatal then WaitForSinks d1 (\<not> waited) w4 else w4);
               w6 = w5\<lparr>num_messages := (num_messages w5)
                         (msg_severity d1 := num_messages w5 (msg_severity d1) + 1)\<rparr>;
               w7 = (if \<not> fatal then WaitForSinks d1 (\<not> waited) w6 else w6);
               d2 = (if append_newline
                     then d1\<lparr>message_text := (message_text d1)[num_chars_to_log d1 - 1 := original]\<rparr>
                     else d1);
               w8 = (if preserved_errno d2 \<noteq> 0 then w7\<lparr>cur_errno := preserved_errno d2\<rparr> else w7)
           in (d2\<lparr>has_been_flushed := True\<rparr>, w8))"

text \<open>The destructor; \<open>unwinding\<close> says that an exception is being propagated.\<close>

definition destroy_LogMessage :: "log_env \<Rightarrow> bool \<Rightarrow> message_data \<Rightarrow> log_world \<Rightarrow> log_world" where
  "destroy_LogMessage env unwinding d w =
     (let (d1, w1) = Flush_message env d w;
          fail = (msg_severity d1 = NGLOG_FATAL \<and> exit_on_dfatal env);
          w2 = (if place d1 = ThreadLocal then w1\<lparr>thread_data_available := True\<rparr> else w1)
      in if fail then
           (if \<not> unwinding then note_event EFail (note_event EStackTrace w2)
            else note_event EStackTrace w2)
         else w2)"

definition ReprintFatalMessage :: "log_env \<Rightarrow> log_world \<Rightarrow> log_world" where
  "ReprintFatalMessage env w =
     (if fatal_message w \<noteq> '''' then
        let w1 = note_event (EStderr (cstr (fatal_message w))) w
        in if \<not> FLAGS_logtostderr (env_flags env)
           then LogToAllLogfiles env NGLOG_ERROR (fatal_time w) (cstr (fatal_message w)) w1 else w1
      else w)"

end
