(* ===== verification/LogMessageProps.thy ===== *)
theory LogMessageProps imports LogMessage begin

text \<open>
  What sending a message does as a whole. The events of one message are computed from the state
  before it (\<open>dispatch_events\<close>), which the step-by-step definitions of \<open>LogMessage\<close> are shown to
  produce; the prefix, the buffer, the counting and the lock discipline follow.
\<close>

section \<open>The prefix\<close>

lemma prefix_digits_eq: "prefix_digits m acc = show_nat (unat m) @ acc"
proof (induction m acc rule: prefix_digits.induct)
  case (1 m acc)
  have d: "unat (m div 10) = unat m div 10" and r: "unat (m mod 10) = unat m mod 10"
    by (simp_all add: unat_div_distrib unat_mod_distrib)
  show ?case
  proof (cases "m div 10 = 0")
    case True
    then have "unat m div 10 = 0" using d by simp
    then have "unat m < 10" by simp
    then show ?thesis
      using True r by (subst prefix_digits.simps, subst show_nat.simps) (simp add: digit_char_def)
  next
    case False
    then have "\<not> unat m < 10" using d by (auto simp: unsigned_eq_0_iff)
    then show ?thesis
      using 1 [OF refl False] False d r
      by (subst prefix_digits.simps, subst show_nat.simps) (simp add: digit_char_def Let_def)
  qed
qed

lemma unat_magnitude:
  fixes v :: "32 word"
  assumes "v <s 0"
  shows "unat (- (v + 1) + 1) = nat (- sint v)"
proof -
  have "- (v + 1) + 1 = - v" by simp
  moreover have neg: "sint v < 0" using assms by (simp add: word_sless_alt)
  moreover have "uint (- v) = - sint v"
  proof -
    have "- (2 ^ 31) \<le> sint v" using sint_greater_eq [of v] by simp
    then have "take_bit 32 (- sint v) = - sint v" using neg by (simp add: take_bit_int_eq_self_iff)
    moreover have "uint (word_of_int (- sint v) :: 32 word) = take_bit 32 (- sint v)"
      by (simp only: uint_word_of_int_eq) simp
    ultimately show ?thesis by simp
  qed
  ultimately show ?thesis by (metis nat_uint_eq)
qed

text \<open>
  The numbers of the prefix: for every 32-bit value, the smallest included, and every width,
  the digits extracted by hand are the decimal number that an ostream prints with \<open>setw\<close> and
  \<open>setfill('0')\<close>.
\<close>

theorem prefix_number_setw:
  "prefix_number v width = setw width CHR ''0'' (show_int (sint v))"
proof (cases "v <s 0")
  case True
  then have "sint v < 0" by (simp add: word_sless_alt)
  then show ?thesis
    using True unat_magnitude [OF True]
    by (simp add: prefix_number_def setw_def show_int_def prefix_digits_eq Let_def)
next
  case False
  then have "0 \<le> sint v" by (simp add: word_sless_alt)
  moreover from this have "unat v = nat (sint v)"
    using uint_sint [of v] sint_less [of v]
    by (simp add: take_bit_int_eq_self unat_eq_nat_uint del: nat_uint_eq)
  ultimately show ?thesis
    using False by (simp add: prefix_number_def setw_def show_int_def prefix_digits_eq Let_def)
qed

section \<open>The buffer\<close>

definition message_ok :: "message_data \<Rightarrow> bool" where
  "message_ok d \<longleftrightarrow> length (message_text d) = kMaxLogMessageLen + 1
     \<and> pcount d \<le> stream_capacity \<and> num_prefix_chars d \<le> pcount d"

lemma stream_append_text:
  assumes "message_ok d"
  shows "stream_text (stream_append t d) = take stream_capacity (stream_text d @ t)"
    and "message_ok (stream_append t d)"
proof -
  have len: "length (take (pcount d) (message_text d)) = pcount d"
    using assms by (simp add: message_ok_def stream_capacity_def kMaxLogMessageLen_def)
  show "message_ok (stream_append t d)"
    using assms by (auto simp: message_ok_def stream_append_def Let_def stream_capacity_def
        kMaxLogMessageLen_def)
  show "stream_text (stream_append t d) = take stream_capacity (stream_text d @ t)"
    using assms len by (cases "pcount d = stream_capacity") (auto simp: stream_text_def stream_append_def Let_def message_ok_def min_def)
qed

lemma take_list_update_outside: "n \<le> i \<Longrightarrow> take n (xs[i := x]) = take n xs"
  by (rule take_update_cancel)

text \<open>The text to log is the stream's text, with a newline unless it ends with one.\<close>

definition with_newline :: "string \<Rightarrow> string" where
  "with_newline t = (if t = '''' \<or> last t \<noteq> newline then t @ [newline] else t)"

lemma terminate_text_facts:
  assumes "message_ok d" and "terminate_text d = (nl, c, d1)"
  shows "logged_text d1 = with_newline (stream_text d)"
    and "num_chars_to_log d1 = length (with_newline (stream_text d))"
    and "num_chars_to_log d1 + 1 \<le> length (message_text d1)"
    and "message_text d1 ! num_chars_to_log d1 = NUL"
    and "stream_text (if nl then d1\<lparr>message_text := (message_text d1)[num_chars_to_log d1 - 1 := c]\<rparr>
           else d1) = stream_text d"
    and "length (message_text d1) = length (message_text d)"
proof -
  let ?t = "stream_text d"
  have len: "length (message_text d) = kMaxLogMessageLen + 1" "pcount d \<le> stream_capacity"
    "stream_capacity + 2 = kMaxLogMessageLen"
    using assms(1) by (simp_all add: message_ok_def stream_capacity_def kMaxLogMessageLen_def)
  then have p: "pcount d + 2 < length (message_text d)" by simp
  have lt: "length ?t = pcount d" using p by (simp add: stream_text_def)
  have nl: "nl \<longleftrightarrow> (?t = '''' \<or> last ?t \<noteq> newline)"
  proof (cases "pcount d")
    case 0
    then show ?thesis using assms(2) by (auto simp: terminate_text_def Let_def stream_text_def)
  next
    case (Suc n)
    then have "last ?t = message_text d ! n" "?t \<noteq> ''''"
      using p lt by (auto simp: stream_text_def take_Suc_conv_app_nth)
    then show ?thesis using assms(2) Suc by (auto simp: terminate_text_def Let_def)
  qed
  have d1: "message_text d1 = (if nl then (message_text d)[pcount d := newline, Suc (pcount d) := NUL]
      else (message_text d)[pcount d := NUL])"
    "num_chars_to_log d1 = (if nl then Suc (pcount d) else pcount d)" "pcount d1 = pcount d"
    using assms(2) by (auto simp: terminate_text_def Let_def)
  show "logged_text d1 = with_newline ?t"
    using p unfolding logged_text_def with_newline_def d1 nl [symmetric]
    by (auto simp: stream_text_def take_list_update_outside take_Suc_conv_app_nth)
  show "num_chars_to_log d1 = length (with_newline ?t)"
    unfolding with_newline_def nl [symmetric] by (simp add: d1 lt)
  show "num_chars_to_log d1 + 1 \<le> length (message_text d1)"
    "length (message_text d1) = length (message_text d)"
    using p by (auto simp: d1)
  show "message_text d1 ! num_chars_to_log d1 = NUL"
    using p by (auto simp: d1)
  have c: "nl \<Longrightarrow> c = message_text d ! pcount d"
    using assms(2) by (auto simp: terminate_text_def Let_def)
  show "stream_text (if nl then d1\<lparr>message_text := (message_text d1)[num_chars_to_log d1 - 1 := c]\<rparr>
           else d1) = ?t"
    by (auto simp: stream_text_def d1 take_list_update_outside)
qed

lemma terminate_text_frame:
  assumes "terminate_text d = (nl, c, d1)"
  shows "msg_severity d1 = msg_severity d" "sent_by d1 = sent_by d" "target d1 = target d"
    "num_prefix_chars d1 = num_prefix_chars d" "pcount d1 = pcount d" "place d1 = place d"
    "first_fatal d1 = first_fatal d" "when_sent d1 = when_sent d"
    "preserved_errno d1 = preserved_errno d"
  using assms by (auto simp: terminate_text_def Let_def)

section \<open>Events of dispatching\<close>

text \<open>The logger installed for a severity, if any.\<close>

definition logger_of :: "log_world \<Rightarrow> LogSeverity \<Rightarrow> nat option" where
  "logger_of w sev = (case destinations w sev of Some d \<Rightarrow> logger d | None \<Rightarrow> None)"

text \<open>The event of a write to a destination.\<close>

definition write_event_of :: "log_world \<Rightarrow> bool \<Rightarrow> int \<Rightarrow> string \<Rightarrow> LogSeverity \<Rightarrow> devent" where
  "write_event_of w force_flush timestamp message sev = (case logger_of w sev of
     Some l \<Rightarrow> ELogger l sev force_flush timestamp message
   | None \<Rightarrow> ELogfile sev force_flush timestamp message)"

lemma write_event_of_cong:
  "logger_of w' = logger_of w \<Longrightarrow> write_event_of w' = write_event_of w"
  by (simp add: write_event_of_def fun_eq_iff)

text \<open>What writing to a destination leaves alone.\<close>

definition same_globals :: "log_world \<Rightarrow> log_world \<Rightarrow> bool" where
  "same_globals w w' \<longleftrightarrow> logger_of w' = logger_of w \<and> sinks w' = sinks w
     \<and> email_logging_severity w' = email_logging_severity w \<and> addresses w' = addresses w
     \<and> num_messages w' = num_messages w \<and> crash w' = crash w
     \<and> fatal_message w' = fatal_message w \<and> cur_errno w' = cur_errno w
     \<and> thread_data_available w' = thread_data_available w
     \<and> (\<forall>s. destinations w s \<noteq> None \<longrightarrow> destinations w' s \<noteq> None)"

lemma same_globals_refl [simp, intro]: "same_globals w w"
  by (simp add: same_globals_def)

lemma same_globals_trans: "same_globals w w' \<Longrightarrow> same_globals w' w'' \<Longrightarrow> same_globals w w''"
  by (simp add: same_globals_def)

lemma logger_of_note [simp]: "logger_of (note_event e w) = logger_of w"
  by (simp add: logger_of_def note_event_def fun_eq_iff)

lemma same_globals_note [simp]: "same_globals w (note_event e w') = same_globals w w'"
  by (simp add: same_globals_def) (simp add: note_event_def)

lemma log_destination_facts:
  assumes "log_destination env sev w = (d, w1)"
  shows "events w1 = events w" and "same_globals w w1" and "destinations w1 sev = Some d"
    and "logger d = logger_of w sev"
  using assms by (auto simp: log_destination_def same_globals_def logger_of_def Let_def fun_eq_iff
      split: option.splits if_splits)

lemma logger_Write_facts:
  assumes "destinations w sev = Some d"
  shows "events (logger_Write env sev d force_flush t m w)
      = events w @ [write_event_of w force_flush t m sev]"
    and "same_globals w (logger_Write env sev d force_flush t m w)"
  using assms by (auto simp: logger_Write_def write_event_of_def logger_of_def set_fileobject_def
      same_globals_def note_event_def fun_eq_iff split: option.splits)

lemma MaybeLogToLogfileLocked_facts:
  shows "events (MaybeLogToLogfileLocked env sev t m w)
      = events w @ [write_event_of w (FLAGS_logbuflevel (env_flags env) < sev_int sev) t m sev]"
    and "same_globals w (MaybeLogToLogfileLocked env sev t m w)"
proof -
  obtain d w1 where r: "log_destination env sev w = (d, w1)" by force
  note f = log_destination_facts [OF r]
  note g = logger_Write_facts [OF f(3), where env = env and t = t and m = m
      and force_flush = "FLAGS_logbuflevel (env_flags env) < sev_int sev"]
  have e: "write_event_of w1 = write_event_of w"
    using f(2) by (intro write_event_of_cong) (simp add: same_globals_def)
  show "events (MaybeLogToLogfileLocked env sev t m w)
      = events w @ [write_event_of w (FLAGS_logbuflevel (env_flags env) < sev_int sev) t m sev]"
    using f(1) g(1) e by (simp add: MaybeLogToLogfileLocked_def Let_def r)
  show "same_globals w (MaybeLogToLogfileLocked env sev t m w)"
    using same_globals_trans [OF f(2) g(2)] by (simp add: MaybeLogToLogfileLocked_def Let_def r)
qed

lemma MaybeLogToLogfile_Locked: "MaybeLogToLogfile = MaybeLogToLogfileLocked"
  by (simp add: MaybeLogToLogfile_def MaybeLogToLogfileLocked_def fun_eq_iff)

lemma fold_files_facts:
  "events (fold (\<lambda>s. MaybeLogToLogfileLocked env s t m) ss w)
     = events w @ map (\<lambda>s. write_event_of w (FLAGS_logbuflevel (env_flags env) < sev_int s) t m s) ss
   \<and> same_globals w (fold (\<lambda>s. MaybeLogToLogfileLocked env s t m) ss w)"
proof (induction ss arbitrary: w)
  case (Cons s ss)
  let ?w1 = "MaybeLogToLogfileLocked env s t m w"
  note f = MaybeLogToLogfileLocked_facts [where env = env and sev = s and t = t and m = m and w = w]
  have e: "write_event_of ?w1 = write_event_of w"
    using f(2) by (intro write_event_of_cong) (simp add: same_globals_def)
  show ?case
    using Cons.IH [of ?w1] f same_globals_trans by (simp add: e)
qed simp

lemma MaybeLogToLogfileLocked_creates:
  "destinations (MaybeLogToLogfileLocked env sev t m w) sev \<noteq> None"
proof -
  obtain d w1 where r: "log_destination env sev w = (d, w1)" by force
  note f = log_destination_facts [OF r]
  show ?thesis
    using logger_Write_facts(2) [OF f(3)] f(3)
    by (auto simp: MaybeLogToLogfileLocked_def Let_def r same_globals_def)
qed

lemma fold_files_creates:
  assumes "s \<in> set ss \<or> destinations w s \<noteq> None"
  shows "destinations (fold (\<lambda>s. MaybeLogToLogfileLocked env s t m) ss w) s \<noteq> None"
  using assms
proof (induction ss arbitrary: w)
  case (Cons x ss)
  have "destinations (MaybeLogToLogfileLocked env x t m w) s \<noteq> None" if "x = s \<or> destinations w s \<noteq> None"
    using that MaybeLogToLogfileLocked_creates
      MaybeLogToLogfileLocked_facts(2) [of w env x t m]
    unfolding same_globals_def by metis
  then show ?case
    using Cons by (metis fold_simps(2) set_ConsD)
qed simp

text \<open>The forced empty writes to the destinations of a fatal message.\<close>

lemma fold_fatal_facts:
  "events (fold (\<lambda>sev w. case destinations w sev of
        None \<Rightarrow> w | Some dest \<Rightarrow> logger_Write env sev dest True 0 '''' w) ss w)
     = events w @ map (write_event_of w True 0 '''') (filter (\<lambda>s. destinations w s \<noteq> None) ss)
   \<and> same_globals w (fold (\<lambda>sev w. case destinations w sev of
        None \<Rightarrow> w | Some dest \<Rightarrow> logger_Write env sev dest True 0 '''' w) ss w)"
proof (induction ss arbitrary: w)
  case (Cons s ss)
  show ?case
  proof (cases "destinations w s")
    case None
    then show ?thesis using Cons.IH [of w] by simp
  next
    case (Some d)
    let ?w1 = "logger_Write env s d True 0 '''' w"
    note g = logger_Write_facts [OF Some, where env = env and force_flush = True and t = 0 and m = "''''"]
    have e: "write_event_of ?w1 = write_event_of w"
      using g(2) by (intro write_event_of_cong) (simp add: same_globals_def)
    have "destinations ?w1 x = None \<longleftrightarrow> destinations w x = None" for x
      using Some by (auto simp: logger_Write_def set_fileobject_def note_event_def split: option.splits)
    then show ?thesis
      using Cons.IH [of ?w1] g same_globals_trans Some by (simp add: e)
  qed
qed simp

section \<open>The events of one message\<close>

definition text_of :: "message_data \<Rightarrow> string" where
  "text_of d = with_newline (stream_text d)"

definition body_of :: "message_data \<Rightarrow> string" where
  "body_of d = drop (num_prefix_chars d) (butlast (text_of d))"

definition to_files :: "log_env \<Rightarrow> bool" where
  "to_files env \<longleftrightarrow> \<not> FLAGS_logtostderr (env_flags env) \<and> \<not> FLAGS_logtostdout (env_flags env)
     \<and> logging_initialized env"

definition stdout_events :: "log_env \<Rightarrow> LogSeverity \<Rightarrow> string \<Rightarrow> devent list" where
  "stdout_events env sev t =
     (if FLAGS_stderrthreshold (env_flags env) \<le> sev_int sev then [EStderr t]
      else EStdout t # (if FLAGS_logbuflevel (env_flags env) < sev_int sev then [EFlushStdout] else []))"

definition log_events :: "log_env \<Rightarrow> log_world \<Rightarrow> LogSeverity \<Rightarrow> int \<Rightarrow> string \<Rightarrow> devent list" where
  "log_events env w sev ts t =
     (if \<not> already_warned_before_init w \<and> \<not> logging_initialized env then [EPreInitWarning] else [])
     @ (if to_files env then
          map (\<lambda>s. write_event_of w (FLAGS_logbuflevel (env_flags env) < sev_int s) ts t s)
              (severities_down_from sev)
          @ (if FLAGS_stderrthreshold (env_flags env) \<le> sev_int sev
                \<or> FLAGS_alsologtostderr (env_flags env) then [EStderr t] else [])
        else if FLAGS_logtostdout (env_flags env) then stdout_events env sev t else [EStderr t])
     @ (if sev = NGLOG_FATAL \<and> exit_on_dfatal env \<and> \<not> FLAGS_logtostderr (env_flags env)
           \<and> \<not> FLAGS_logtostdout (env_flags env)
        then map (write_event_of w True 0 '''')
               (filter (\<lambda>s. to_files env \<or> destinations w s \<noteq> None) all_severities) else [])"

lemma all_severities_set [simp]: "s \<in> set all_severities"
  by (cases s) (simp_all add: all_severities_def)

lemma set_severities_down_from [simp]: "set (severities_down_from sev) = {s. s \<le> sev}"
  by (auto simp: severities_down_from_def)

lemma le_FATAL [simp]: "s \<le> NGLOG_FATAL"
  by (cases s) (simp_all add: less_eq_LogSeverity_def)

text \<open>\<open>SendToLog\<close> from a state whose data describes the message.\<close>

lemma SendToLog_facts:
  fixes d env w
  defines "w' \<equiv> SendToLog_message env d w"
  shows "events w' = events w @ log_events env w (msg_severity d) (when_sent d) (logged_text d)"
    and "logger_of w' = logger_of w" and "sinks w' = sinks w"
    and "num_messages w' = num_messages w" and "cur_errno w' = cur_errno w"
proof -
  let ?sev = "msg_severity d" and ?t = "logged_text d"
  define w1 where "w1 = (if \<not> already_warned_before_init w \<and> \<not> logging_initialized env
     then (note_event EPreInitWarning w)\<lparr>already_warned_before_init := True\<rparr> else w)"
  define w2 where "w2 = (if FLAGS_logtostderr (env_flags env) \<or> FLAGS_logtostdout (env_flags env)
                   \<or> \<not> logging_initialized env
                then if FLAGS_logtostdout (env_flags env)
                     then ColoredWriteToStdout env ?sev ?t w1 else ColoredWriteToStderr env ?sev ?t w1
                else MaybeLogToStderr env ?sev ?t
                       (LogToAllLogfilesLocked env ?sev (when_sent d) ?t w1))"
  define w3 where "w3 = (if first_fatal d
                then w2\<lparr>crash := Some (RecordCrashReason d),
                       fatal_message := take (fatal_message_size - 1) ?t,
                       fatal_time := when_sent d\<rparr>
                else w2)"
  have w': "w' = (if ?sev = NGLOG_FATAL \<and> exit_on_dfatal env
      then (if \<not> FLAGS_logtostderr (env_flags env) \<and> \<not> FLAGS_logtostdout (env_flags env)
            then fold (\<lambda>sev w. case destinations w sev of
                None \<Rightarrow> w | Some dest \<Rightarrow> logger_Write env sev dest True 0 '''' w) all_severities w3
            else w3) else w2)"
    by (simp add: w'_def SendToLog_message_def Let_def w1_def w2_def w3_def send_fatal_def)
  have 1: "logger_of w1 = logger_of w" "sinks w1 = sinks w" "num_messages w1 = num_messages w"
    "cur_errno w1 = cur_errno w" "destinations w1 = destinations w"
    by (simp_all add: w1_def note_event_def logger_of_def fun_eq_iff)
  have e1: "write_event_of w1 = write_event_of w" using 1(1) by (rule write_event_of_cong)
  note fl = fold_files_facts [of env "when_sent d" ?t "severities_down_from ?sev" w1]
  have 2: "logger_of w2 = logger_of w" "sinks w2 = sinks w" "num_messages w2 = num_messages w"
    "cur_errno w2 = cur_errno w"
    using 1 conjunct2 [OF fl]
    by (simp_all add: w2_def ColoredWriteToStdout_def ColoredWriteToStderr_def MaybeFlushStdout_def
        MaybeLogToStderr_def LogToAllLogfilesLocked_def same_globals_def)
      (simp_all add: note_event_def)
  have 3: "logger_of w3 = logger_of w" "sinks w3 = sinks w" "num_messages w3 = num_messages w"
    "cur_errno w3 = cur_errno w" "events w3 = events w2" "destinations w3 = destinations w2"
    using 2 by (simp_all add: w3_def logger_of_def fun_eq_iff)
  have e3: "write_event_of w3 = write_event_of w" using 3(1) by (rule write_event_of_cong)
  note ff = fold_fatal_facts [of env all_severities w3]
  show "logger_of w' = logger_of w" "sinks w' = sinks w"
    "num_messages w' = num_messages w" "cur_errno w' = cur_errno w"
    using 2 3 conjunct2 [OF ff] unfolding w' by (auto simp: same_globals_def)
  have dest: "destinations w2 s \<noteq> None \<longleftrightarrow> to_files env \<or> destinations w s \<noteq> None"
    if "?sev = NGLOG_FATAL" for s
  proof (cases "to_files env")
    case True
    then have "w2 = MaybeLogToStderr env ?sev ?t
        (fold (\<lambda>s. MaybeLogToLogfileLocked env s (when_sent d) ?t) (severities_down_from ?sev) w1)"
      by (simp add: w2_def to_files_def LogToAllLogfilesLocked_def)
    moreover have "destinations (MaybeLogToStderr env ?sev ?t v) = destinations v" for v
      by (simp add: MaybeLogToStderr_def ColoredWriteToStderr_def note_event_def)
    ultimately show ?thesis
      using True that fold_files_creates [of s "severities_down_from ?sev" w1 env "when_sent d" ?t]
      by simp
  next
    case False
    then have "destinations w2 = destinations w1"
      by (auto simp: w2_def to_files_def ColoredWriteToStdout_def ColoredWriteToStderr_def
          MaybeFlushStdout_def note_event_def)
    then show ?thesis using False 1 by simp
  qed
  have ev2: "events w2 = events w @ (if \<not> already_warned_before_init w \<and> \<not> logging_initialized env
        then [EPreInitWarning] else [])
     @ (if to_files env then
          map (\<lambda>s. write_event_of w (FLAGS_logbuflevel (env_flags env) < sev_int s) (when_sent d) ?t s)
              (severities_down_from ?sev)
          @ (if FLAGS_stderrthreshold (env_flags env) \<le> sev_int ?sev
                \<or> FLAGS_alsologtostderr (env_flags env) then [EStderr ?t] else [])
        else if FLAGS_logtostdout (env_flags env) then stdout_events env ?sev ?t else [EStderr ?t])"
  proof -
    have ev1: "events w1 = events w @ (if \<not> already_warned_before_init w \<and> \<not> logging_initialized env
        then [EPreInitWarning] else [])"
      by (simp add: w1_def note_event_def)
    show ?thesis
      using conjunct1 [OF fl] ev1 e1
      by (auto simp: w2_def to_files_def stdout_events_def ColoredWriteToStdout_def
          ColoredWriteToStderr_def MaybeFlushStdout_def MaybeLogToStderr_def
          LogToAllLogfilesLocked_def)
  qed
  have "filter (\<lambda>s. destinations w2 s \<noteq> None) all_severities
      = filter (\<lambda>s. to_files env \<or> destinations w s \<noteq> None) all_severities" if "?sev = NGLOG_FATAL"
    using dest [OF that] by (intro filter_cong) auto
  then show "events w' = events w @ log_events env w ?sev (when_sent d) ?t"
    using ev2 conjunct1 [OF ff] 3(5,6) unfolding w' log_events_def by (simp add: e3)
qed

text \<open>What the other send methods do under the lock.\<close>

definition locked_events :: "log_env \<Rightarrow> log_world \<Rightarrow> message_data \<Rightarrow> devent list" where
  "locked_events env w d =
     (let log = log_events env w (msg_severity d) (when_sent d) (text_of d)
      in case sent_by d of
        SendToSink \<Rightarrow> []
      | SendToSinkAndLog \<Rightarrow> log
      | SendToLog \<Rightarrow> log
      | SaveOrSendToLog \<Rightarrow> (case target d of Some v \<Rightarrow> [EOutvec v (body_of d)] | None \<Rightarrow> log)
      | WriteToStringAndLog \<Rightarrow>
          (case target d of Some v \<Rightarrow> [EString v (body_of d)] | None \<Rightarrow> []) @ log
      | SendToSyslogAndLog \<Rightarrow> ESyslog (msg_severity d) (drop (num_prefix_chars d) (stream_text d)) # log)"

definition own_sink :: "message_data \<Rightarrow> (nat \<Rightarrow> devent) \<Rightarrow> devent list" where
  "own_sink d f = (if sent_by d \<in> {SendToSink, SendToSinkAndLog}
     then (case target d of Some s \<Rightarrow> [f s] | None \<Rightarrow> []) else [])"

text \<open>All that \<open>Flush\<close> lets out for a message that is not suppressed, in order.\<close>

definition dispatch_events :: "log_env \<Rightarrow> log_world \<Rightarrow> message_data \<Rightarrow> devent list" where
  "dispatch_events env w d =
     own_sink d (\<lambda>s. ESinkSend s (body_of d))
     @ (if sent_by d \<noteq> SendToSink then [ELock] @ locked_events env w d @ [EUnlock] else [])
     @ (if should_send_email env d w
        then [EEmail (msg_severity d) (email_recipients env w) (log_hostname (env_os env)) (text_of d)]
        else [])
     @ (if send_to_registered_sinks d
        then concat (map (\<lambda>s. [ESinkSend s (body_of d), ESinkWait s]) (rev (sinks w)))
        else map ESinkWait (rev (sinks w)))
     @ own_sink d ESinkWait"

lemma log_events_cong:
  assumes "logger_of w' = logger_of w" and "already_warned_before_init w' = already_warned_before_init w"
    and "\<And>s. destinations w' s = None \<longleftrightarrow> destinations w s = None"
  shows "log_events env w' = log_events env w"
proof -
  have "write_event_of w' = write_event_of w" using assms(1) by (rule write_event_of_cong)
  then show ?thesis using assms(2,3) by (simp add: log_events_def fun_eq_iff)
qed

lemma log_events_note [simp]: "log_events env (note_event e w) = log_events env w"
  by (rule log_events_cong) (simp_all add: note_event_def logger_of_def fun_eq_iff)

lemma note_fields [simp]:
  "sinks (note_event e w) = sinks w" "num_messages (note_event e w) = num_messages w"
  "cur_errno (note_event e w) = cur_errno w"
  by (simp_all add: note_event_def)

lemma message_body_eq:
  assumes "message_ok d" and "terminate_text d = (nl, c, d1)"
  shows "message_body d1 = body_of d"
proof -
  note t = terminate_text_facts [OF assms]
  have "length (with_newline (stream_text d)) \<le> length (message_text d1)"
    using t(2,3) by simp
  moreover have "take (length (with_newline (stream_text d))) (message_text d1)
      = with_newline (stream_text d)"
    using t(1,2) by (simp add: logged_text_def)
  ultimately have "butlast (with_newline (stream_text d))
      = take (length (with_newline (stream_text d)) - 1) (message_text d1)"
    by (metis butlast_conv_take butlast_take)
  then show ?thesis
    using t(2) terminate_text_frame(4) [OF assms(2)]
    by (simp add: message_body_def body_of_def text_of_def drop_take diff_commute)
qed

lemma send_locked_facts:
  assumes "message_ok d" and "terminate_text d = (nl, c, d1)" and "sent_by d \<noteq> SendToSink"
  shows "events (send_locked env d1 w) = events w @ locked_events env w d"
    and "sinks (send_locked env d1 w) = sinks w"
    and "num_messages (send_locked env d1 w) = num_messages w"
    and "cur_errno (send_locked env d1 w) = cur_errno w"
proof -
  note t = terminate_text_facts(1) [OF assms(1,2)]
  note fr = terminate_text_frame [OF assms(2)]
  note b = message_body_eq [OF assms(1,2)]
  have sy: "take (num_chars_to_syslog d1) (drop (num_prefix_chars d1) (message_text d1))
      = drop (num_prefix_chars d) (stream_text d)"
  proof -
    have "num_chars_to_syslog d1 = pcount d - num_prefix_chars d"
      "take (pcount d) (message_text d1) = take (pcount d) (message_text d)"
      using assms(2) by (auto simp: terminate_text_def Let_def take_list_update_outside)
    moreover have "take (pcount d - num_prefix_chars d) (drop (num_prefix_chars d) (message_text d1))
        = drop (num_prefix_chars d) (take (pcount d) (message_text d1))"
      by (simp add: drop_take)
    ultimately show ?thesis by (simp only: fr stream_text_def)
  qed
  note S = SendToLog_facts [where env = env and d = d1, unfolded fr t text_of_def [symmetric]]
  show "events (send_locked env d1 w) = events w @ locked_events env w d"
    "sinks (send_locked env d1 w) = sinks w"
    "num_messages (send_locked env d1 w) = num_messages w"
    "cur_errno (send_locked env d1 w) = cur_errno w"
    using assms(3) b sy
    by (auto simp: send_locked_def locked_events_def fr S SaveOrSendToLog_message_def
        WriteToStringAndLog_message_def SendToSyslogAndLog_message_def Let_def
        split: send_method.split option.split)
qed

lemma fold_note: "events (fold (\<lambda>s. note_event (f s)) ss w) = events w @ map f ss"
  and fold_note_fields: "sinks (fold (\<lambda>s. note_event (f s)) ss w) = sinks w"
    "num_messages (fold (\<lambda>s. note_event (f s)) ss w) = num_messages w"
    "cur_errno (fold (\<lambda>s. note_event (f s)) ss w) = cur_errno w"
  by (induction ss arbitrary: w) simp_all

lemma fold_note2:
  "events (fold (\<lambda>s w. note_event (g s) (note_event (f s) w)) ss w)
     = events w @ concat (map (\<lambda>s. [f s, g s]) ss)
   \<and> sinks (fold (\<lambda>s w. note_event (g s) (note_event (f s) w)) ss w) = sinks w
   \<and> num_messages (fold (\<lambda>s w. note_event (g s) (note_event (f s) w)) ss w) = num_messages w
   \<and> cur_errno (fold (\<lambda>s w. note_event (g s) (note_event (f s) w)) ss w) = cur_errno w"
  by (induction ss arbitrary: w) simp_all

lemma WaitForSinks_facts:
  "events (WaitForSinks d b w)
     = events w @ (if b then map ESinkWait (rev (sinks w)) else []) @ own_sink d ESinkWait"
  "sinks (WaitForSinks d b w) = sinks w"
  "num_messages (WaitForSinks d b w) = num_messages w"
  "cur_errno (WaitForSinks d b w) = cur_errno w"
  by (auto simp: WaitForSinks_def own_sink_def Let_def fold_note fold_note_fields split: option.split)

lemma SendToSink_facts:
  assumes "message_ok d" and "terminate_text d = (nl, c, d1)"
    and "w1 = (if sent_by d1 \<in> {SendToSink, SendToSinkAndLog} then SendToSink_message d1 w else w)"
  shows "events w1 = events w @ own_sink d (\<lambda>s. ESinkSend s (body_of d))"
    and "sinks w1 = sinks w" and "num_messages w1 = num_messages w" and "cur_errno w1 = cur_errno w"
    and "log_events env w1 = log_events env w"
    and "should_send_email env d1 w1 = should_send_email env d w"
    and "email_recipients env w1 = email_recipients env w"
  unfolding assms(3)
  using terminate_text_frame [OF assms(2)] message_body_eq [OF assms(1,2)]
  by (auto simp: SendToSink_message_def own_sink_def should_send_email_def email_recipients_def
      send_to_registered_sinks_def Let_def split: option.split) (simp_all add: note_event_def)

lemma Flush_message_facts:
  assumes "message_ok d" and "\<not> has_been_flushed d"
    and "\<not> sev_int (msg_severity d) < FLAGS_minloglevel (env_flags env)"
    and "Flush_message env d w = (d', w')"
  shows "events w' = events w @ dispatch_events env w d"
    and "num_messages w' = (num_messages w)(msg_severity d := num_messages w (msg_severity d) + 1)"
    and "cur_errno w' = (if preserved_errno d \<noteq> 0 then preserved_errno d else cur_errno w)"
    and "stream_text d' = stream_text d" and "has_been_flushed d'"
    and "msg_severity d' = msg_severity d" and "place d' = place d"
    and "length (message_text d') = length (message_text d)"
proof -
  obtain nl c d1 where t: "terminate_text d = (nl, c, d1)" by (metis prod_cases3)
  note fr = terminate_text_frame [OF t]
  note tx = terminate_text_facts [OF assms(1) t]
  note b = message_body_eq [OF assms(1) t]
  define w1 where "w1 = (if sent_by d1 \<in> {SendToSink, SendToSinkAndLog} then SendToSink_message d1 w else w)"
  note 1 = SendToSink_facts [OF assms(1) t w1_def]
  define w2 where "w2 = (if sent_by d1 \<noteq> SendToSink then locked (send_locked env d1) w1 else w1)"
  have 2: "events w2 = events w1 @ (if sent_by d \<noteq> SendToSink then [ELock] @ locked_events env w d @ [EUnlock] else [])"
    "sinks w2 = sinks w" "num_messages w2 = num_messages w" "cur_errno w2 = cur_errno w"
    using 1(2-4) send_locked_facts [OF assms(1) t, of env "note_event ELock w1"] 1(5) [of env]
    by (auto simp: w2_def fr locked_def locked_events_def split: send_method.split)
  define w3 where "w3 = (if should_send_email env d1 w1 then note_event (EEmail (msg_severity d1)
      (email_recipients env w1) (log_hostname (env_os env)) (logged_text d1)) w2 else w2)"
  have 3: "events w3 = events w2 @ (if should_send_email env d w then [EEmail (msg_severity d)
      (email_recipients env w) (log_hostname (env_os env)) (text_of d)] else [])"
    "sinks w3 = sinks w" "num_messages w3 = num_messages w" "cur_errno w3 = cur_errno w"
    using 1(6,7) [of env] 2 tx(1) by (simp_all add: w3_def fr text_of_def)
  obtain waited w4 where r4: "(if send_to_registered_sinks d1 then SendToRegisteredSinks d1 w3
      else (False, w3)) = (waited, w4)" by force
  have reg: "send_to_registered_sinks d1 = send_to_registered_sinks d"
    by (simp add: send_to_registered_sinks_def fr)
  have 4: "events w4 = events w3 @ (if send_to_registered_sinks d
        then concat (map (\<lambda>s. [ESinkSend s (body_of d), ESinkWait s]) (rev (sinks w))) else [])"
    "sinks w4 = sinks w" "num_messages w4 = num_messages w" "cur_errno w4 = cur_errno w"
    "waited = (send_to_registered_sinks d \<and> sinks w \<noteq> [])"
    using r4 3(2-4) b fold_note2 [of ESinkWait "\<lambda>s. ESinkSend s (body_of d)" "rev (sinks w)" w3]
    by (auto simp: reg SendToRegisteredSinks_def LogToSinks_def split: if_splits)
  let ?fatal = "send_to_registered_sinks d1 \<and> msg_severity d1 = NGLOG_FATAL \<and> exit_on_dfatal env"
  define w5 where "w5 = (if ?fatal then WaitForSinks d1 (\<not> waited) w4 else w4)"
  define w6 where "w6 = w5\<lparr>num_messages := (num_messages w5)
      (msg_severity d1 := num_messages w5 (msg_severity d1) + 1)\<rparr>"
  define w7 where "w7 = (if \<not> ?fatal then WaitForSinks d1 (\<not> waited) w6 else w6)"
  have own: "own_sink d1 ESinkWait = own_sink d ESinkWait" by (simp add: own_sink_def fr)
  have 7: "events w7 = events w4 @ (if \<not> waited then map ESinkWait (rev (sinks w)) else [])
        @ own_sink d ESinkWait"
    "num_messages w7 = (num_messages w)(msg_severity d := num_messages w (msg_severity d) + 1)"
    "cur_errno w7 = cur_errno w"
    by (auto simp: w7_def w6_def w5_def WaitForSinks_facts 4(2-4) own fr)
  define d2 where "d2 = (if nl then d1\<lparr>message_text := (message_text d1)[num_chars_to_log d1 - 1 := c]\<rparr>
      else d1)"
  have flush: "Flush_message env d w = (d2\<lparr>has_been_flushed := True\<rparr>,
      if preserved_errno d2 \<noteq> 0 then w7\<lparr>cur_errno := preserved_errno d2\<rparr> else w7)"
    unfolding Flush_message_def Let_def t prod.case
    unfolding w1_def [symmetric] unfolding w2_def [symmetric] unfolding w3_def [symmetric] r4 prod.case
    unfolding w5_def [symmetric] unfolding w6_def [symmetric] unfolding w7_def [symmetric]
    unfolding d2_def [symmetric]
    using assms(2,3) by simp
  have d2: "preserved_errno d2 = preserved_errno d" "msg_severity d2 = msg_severity d"
    "place d2 = place d" "length (message_text d2) = length (message_text d)"
    using tx(6) by (simp_all add: d2_def fr)
  show "events w' = events w @ dispatch_events env w d"
    using assms(4) 7(1) 4(1,5) 3(1) 2(1) 1(1) unfolding flush dispatch_events_def by auto
  show "num_messages w' = (num_messages w)(msg_severity d := num_messages w (msg_severity d) + 1)"
    "cur_errno w' = (if preserved_errno d \<noteq> 0 then preserved_errno d else cur_errno w)"
    using assms(4) 7(2,3) d2(1) unfolding flush by auto
  show "stream_text d' = stream_text d" "has_been_flushed d'" "msg_severity d' = msg_severity d"
    "place d' = place d" "length (message_text d') = length (message_text d)"
    using assms(4) tx(5) d2 unfolding flush by (auto simp: d2_def stream_text_def)
qed

section \<open>Properties of \<open>Flush\<close>\<close>

definition test_env :: log_env where
  "test_env = \<lparr>env_flags = default_flags, env_os = test_os, env_now = 0, exit_on_dfatal = True,
     logging_initialized = True, logmailer = ''''\<rparr>"

definition test_message :: "LogSeverity \<Rightarrow> send_method \<Rightarrow> nat option \<Rightarrow> message_data" where
  "test_message sev how to = \<lparr>place = ThreadLocal, preserved_errno = 5,
     message_text = ''p] hello'' @ replicate 29993 NUL, pcount = 8,
     msg_severity = sev, line = 1, sent_by = how, target = to, num_prefix_chars = 3,
     num_chars_to_log = 0, num_chars_to_syslog = 0, basename = ''f'', fullname = ''f'',
     has_been_flushed = False, first_fatal = False, thread_id = ''1'', when_sent = 7,
     prefix_severity_len = 0, prefix_timestamp_len = 0, prefix_threadid_len = 0,
     prefix_fileline_len = 0, has_default_prefix = False\<rparr>"

lemma test_message_ok: "message_ok (test_message sev how to)"
  by (simp add: message_ok_def test_message_def kMaxLogMessageLen_def stream_capacity_def)

lemma test_message_text: "stream_text (test_message sev how to) = ''p] hello''"
  by (simp add: stream_text_def test_message_def)



text \<open>
  A message is sent at most once: flushing again (the destructor does, after an explicit
  flush) changes nothing, and a message below \<open>minloglevel\<close> is not sent and not counted.
\<close>

theorem Flush_message_once:
  assumes "Flush_message env d w = (d', w')"
  shows "Flush_message env d' w'' = (d', w'')
    \<and> (sev_int (msg_severity d) < FLAGS_minloglevel (env_flags env) \<longrightarrow> d' = d \<and> w' = w)"
proof (cases "has_been_flushed d \<or> sev_int (msg_severity d) < FLAGS_minloglevel (env_flags env)")
  case True
  then have "d' = d" "w' = w" using assms by (auto simp: Flush_message_def)
  then show ?thesis using True by (simp add: Flush_message_def)
next
  case False
  then have "has_been_flushed d'"
    using assms by (auto simp: Flush_message_def Let_def split: prod.splits)
  then show ?thesis using False by (simp add: Flush_message_def)
qed

lemma Flush_message_once_witness:
  "Flush_message test_env (fst (Flush_message test_env (test_message NGLOG_INFO SendToLog None) initial_world))
     initial_world
   = (fst (Flush_message test_env (test_message NGLOG_INFO SendToLog None) initial_world), initial_world)"
  using Flush_message_once [OF prod.collapse [symmetric]] by blast

section \<open>The logging lock\<close>

text \<open>
  A run over events: terminal output, files, loggers and the containers of the caller only while
  \<open>log_mutex\<close> is held; sinks and email only while it is not, since they may log themselves.
\<close>

fun lock_run :: "bool \<Rightarrow> devent list \<Rightarrow> bool option" where
  "lock_run held [] = Some held"
| "lock_run held (e # es) = (case e of
     ELock \<Rightarrow> if held then None else lock_run True es
   | EUnlock \<Rightarrow> if held then lock_run False es else None
   | ESinkSend s m \<Rightarrow> if held then None else lock_run held es
   | ESinkWait s \<Rightarrow> if held then None else lock_run held es
   | EEmail sev a h m \<Rightarrow> if held then None else lock_run held es
   | _ \<Rightarrow> if held then lock_run held es else None)"

lemma lock_run_append: "lock_run h (es @ es') = (case lock_run h es of None \<Rightarrow> None | Some h' \<Rightarrow> lock_run h' es')"
  by (induction h es rule: lock_run.induct) (auto split: devent.split)

lemma lock_run_write_events:
  "lock_run True (map (\<lambda>s. write_event_of w (f s) t m s) ss) = Some True"
  by (induction ss) (auto simp: write_event_of_def split: option.split)

lemma lock_run_log_events: "lock_run True (log_events env w sev ts t) = Some True"
  by (simp add: log_events_def lock_run_append lock_run_write_events stdout_events_def)

lemma lock_run_locked_events: "lock_run True (locked_events env w d) = Some True"
  by (auto simp: locked_events_def Let_def lock_run_log_events lock_run_append
      split: send_method.split option.split)

lemma lock_run_sinks:
  "lock_run False (concat (map (\<lambda>s. [ESinkSend s b, ESinkWait s]) ss)) = Some False"
  "lock_run False (map ESinkWait ss) = Some False"
  by (induction ss) simp_all



text \<open>
  The message buffer: inserting text keeps the buffer's size and its two spare bytes, and
  what does not fit behind the text already there is cut off.
\<close>

theorem stream_append_truncates:
  assumes "message_ok d"
  shows "message_ok (stream_append t d)
    \<and> stream_text (stream_append t d) = take stream_capacity (stream_text d @ t)"
  using stream_append_text [OF assms] by blast

lemma stream_append_truncates_witness:
  "stream_text (stream_append ''!!'' (test_message NGLOG_INFO SendToLog None)) = ''p] hello!!''"
  using stream_append_truncates [OF test_message_ok, of "''!!''" NGLOG_INFO SendToLog None]
  by (simp add: test_message_text stream_capacity_def kMaxLogMessageLen_def)
end
