(* ===== verification/DemangleState.thy ===== *)
theory DemangleState imports Prelude begin

text \<open>
  \<open>src/src/demangle.cc\<close>, first part: the tables, the parser state, the tokens, the output
  buffer, the guards and the loops.

  A parsing function \<open>bool f(State*)\<close> is a \<open>parser\<close>: from the state at the call to the returned
  boolean and the state after it. \<open>None\<close> stands for a loop that did not end; the theory
  \<open>DemangleFacts\<close> shows that it is never the result. C++ control flow is written with five
  combinators: \<open>all_of\<close> is a chain of \<open>&&\<close>, \<open>any_of\<close> a chain of \<open>||\<close>, \<open>choice\<close> the sequence
  \<open>if (..) return true; *state = copy;\<close> of the alternatives, \<open>does\<close> a call that returns true,
  \<open>run_loop\<close> a \<open>while\<close>.

  \<open>mangled_cur\<close> is the rest of the input from the cursor on, without the terminating zero, so a
  pointer comparison is a comparison of lengths. Pointers into the output are offsets. The output
  pointer is not null (\<open>Demangle\<close> returns before otherwise).
\<close>

section \<open>Tables\<close>

datatype OperatorArity = kUnary | kBinary | kTernary | kOther

definition kOperatorList :: "(string \<times> string \<times> OperatorArity) list" where
  "kOperatorList = [
    (''nw'', ''new'', kUnary), (''na'', ''new[]'', kUnary), (''dl'', ''delete'', kUnary),
    (''da'', ''delete[]'', kUnary), (''ps'', ''+'', kUnary), (''ng'', ''-'', kUnary),
    (''ad'', ''&'', kUnary), (''de'', ''*'', kUnary), (''co'', ''~'', kUnary),
    (''pl'', ''+'', kBinary), (''mi'', ''-'', kBinary), (''ml'', ''*'', kBinary),
    (''dv'', ''/'', kBinary), (''rm'', ''%'', kBinary), (''an'', ''&'', kBinary),
    (''or'', ''|'', kBinary), (''eo'', ''^'', kBinary), (''aS'', ''='', kBinary),
    (''pL'', ''+='', kBinary), (''mI'', ''-='', kBinary), (''mL'', ''*='', kBinary),
    (''dV'', ''/='', kBinary), (''rM'', ''%='', kBinary), (''aN'', ''&='', kBinary),
    (''oR'', ''|='', kBinary), (''eO'', ''^='', kBinary), (''ls'', ''<<'', kBinary),
    (''rs'', ''>>'', kBinary), (''lS'', ''<<='', kBinary), (''rS'', ''>>='', kBinary),
    (''eq'', ''=='', kBinary), (''ne'', ''!='', kBinary), (''lt'', ''<'', kBinary),
    (''gt'', ''>'', kBinary), (''le'', ''<='', kBinary), (''ge'', ''>='', kBinary),
    (''nt'', ''!'', kUnary), (''aa'', ''&&'', kBinary), (''oo'', ''||'', kBinary),
    (''pp'', ''++'', kUnary), (''mm'', ''--'', kUnary), (''cm'', '','', kBinary),
    (''pm'', ''->*'', kBinary), (''pt'', ''->'', kBinary), (''cl'', ''()'', kBinary),
    (''ix'', ''[]'', kBinary), (''qu'', ''?'', kTernary), (''aw'', ''co_await'', kUnary),
    (''ss'', ''<=>'', kBinary), (''st'', ''sizeof'', kUnary), (''sz'', ''sizeof'', kUnary)]"

definition kBuiltinTypeList :: "(string \<times> string) list" where
  "kBuiltinTypeList = [
    (''v'', ''void''), (''w'', ''wchar_t''), (''b'', ''bool''), (''c'', ''char''),
    (''a'', ''signed char''), (''h'', ''unsigned char''), (''s'', ''short''),
    (''t'', ''unsigned short''), (''i'', ''int''), (''j'', ''unsigned int''), (''l'', ''long''),
    (''m'', ''unsigned long''), (''x'', ''long long''), (''y'', ''unsigned long long''),
    (''n'', ''__int128''), (''o'', ''unsigned __int128''), (''f'', ''float''),
    (''d'', ''double''), (''e'', ''long double''), (''g'', ''__float128''),
    (''z'', ''ellipsis''), (''Da'', ''auto''), (''Dc'', ''decltype(auto)''),
    (''Dd'', ''decimal64''), (''De'', ''decimal128''), (''Df'', ''decimal32''),
    (''Dh'', ''float16''), (''Di'', ''char32_t''), (''Ds'', ''char16_t''),
    (''Du'', ''char8_t''), (''Dn'', ''decltype(nullptr)'')]"

definition kSubstitutionList :: "(string \<times> string) list" where
  "kSubstitutionList = [
    (''St'', ''''), (''Sa'', ''allocator''), (''Sb'', ''basic_string''), (''Ss'', ''string''),
    (''Si'', ''istream''), (''So'', ''ostream''), (''Sd'', ''iostream'')]"

section \<open>State and guards\<close>

text \<open>
  \<open>struct State\<close>. \<open>out_buf\<close> is the memory from \<open>out_begin\<close> to \<open>out_end\<close>, which the state only
  points to, and \<open>steps_remaining\<close> the shared counter: backtracking restores neither.
\<close>

record dstate =
  mangled_cur :: string
  out_buf :: string
  out_cur :: nat
  prev_name :: "nat option"
  prev_name_length :: int
  nest_level :: "16 word"
  append_mode :: bool
  overflowed :: bool
  skip_separator :: bool
  local_level :: nat
  expr_level :: nat
  arg_level :: nat
  pending_ref_qualifier :: char
  encoding_level :: nat
  type_level :: nat
  parse_depth :: nat
  steps_remaining :: "32 word"

type_synonym parser = "dstate \<Rightarrow> (bool \<times> dstate) option"

definition kMaxParseDepth :: nat where "kMaxParseDepth = 64"
definition kMaxParseSteps :: "32 word" where "kMaxParseSteps = 0x20000"
definition kMaxEncodingLevel :: nat where "kMaxEncodingLevel = 64"
definition kMaxTypeLevel :: nat where "kMaxTypeLevel = 64"
definition kMaxTemplateArgumentLevel :: nat where "kMaxTemplateArgumentLevel = 64"
definition kMaxExpressionLevel :: nat where "kMaxExpressionLevel = 64"
definition kMaxLocalNameLevel :: nat where "kMaxLocalNameLevel = 64"

text \<open>\<open>*state = copy\<close>.\<close>

definition restore :: "dstate \<Rightarrow> dstate \<Rightarrow> dstate" where
  "restore copy s = copy\<lparr>out_buf := out_buf s, steps_remaining := steps_remaining s\<rparr>"

definition InitState :: "string \<Rightarrow> string \<Rightarrow> dstate" where
  "InitState mangled out = \<lparr>mangled_cur = cstr mangled, out_buf = out, out_cur = 0,
     prev_name = None, prev_name_length = -1, nest_level = -1, append_mode = True,
     overflowed = False, skip_separator = False, local_level = 0, expr_level = 0, arg_level = 0,
     pending_ref_qualifier = NUL, encoding_level = 0, type_level = 0, parse_depth = 0,
     steps_remaining = kMaxParseSteps\<rparr>"

text \<open>
  A guard at the head of a function: the level is raised for the rest of the body and lowered
  on every return.
\<close>

definition ParseLevelGuard ::
  "(dstate \<Rightarrow> nat) \<Rightarrow> ((nat \<Rightarrow> nat) \<Rightarrow> dstate \<Rightarrow> dstate) \<Rightarrow> nat \<Rightarrow> parser \<Rightarrow> parser" where
  "ParseLevelGuard level update max_level body s =
     (if level s < max_level then
        (case body (update (\<lambda>n. n + 1) s) of
           None \<Rightarrow> None
         | Some (b, s') \<Rightarrow> Some (b, update (\<lambda>n. n - 1) s'))
      else Some (False, s))"

definition ParseDepthGuard :: "parser \<Rightarrow> parser" where
  "ParseDepthGuard body =
     ParseLevelGuard parse_depth parse_depth_update kMaxParseDepth
       (\<lambda>s. if steps_remaining s > 0
            then body (s\<lparr>steps_remaining := steps_remaining s - 1\<rparr>)
            else Some (False, s))"

definition ParseEncodingGuard :: "parser \<Rightarrow> parser" where
  "ParseEncodingGuard = ParseLevelGuard encoding_level encoding_level_update kMaxEncodingLevel"

definition ParseTypeGuard :: "parser \<Rightarrow> parser" where
  "ParseTypeGuard = ParseLevelGuard type_level type_level_update kMaxTypeLevel"

definition ParseTemplateArgGuard :: "parser \<Rightarrow> parser" where
  "ParseTemplateArgGuard = ParseLevelGuard arg_level arg_level_update kMaxTemplateArgumentLevel"

definition ParseExpressionGuard :: "parser \<Rightarrow> parser" where
  "ParseExpressionGuard = ParseLevelGuard expr_level expr_level_update kMaxExpressionLevel"

definition ParseLocalNameGuard :: "parser \<Rightarrow> parser" where
  "ParseLocalNameGuard = ParseLevelGuard local_level local_level_update kMaxLocalNameLevel"

section \<open>Control flow\<close>

primrec all_of :: "parser list \<Rightarrow> parser" where
  "all_of [] s = Some (True, s)"
| "all_of (p # ps) s = (case p s of
     None \<Rightarrow> None
   | Some (b, s') \<Rightarrow> if b then all_of ps s' else Some (False, s'))"

primrec any_of :: "parser list \<Rightarrow> parser" where
  "any_of [] s = Some (False, s)"
| "any_of (p # ps) s = (case p s of
     None \<Rightarrow> None
   | Some (b, s') \<Rightarrow> if b then Some (True, s') else any_of ps s')"

primrec choice :: "parser list \<Rightarrow> parser" where
  "choice [] s = Some (False, s)"
| "choice (p # ps) s = (case p s of
     None \<Rightarrow> None
   | Some (b, s') \<Rightarrow> if b then Some (True, s') else choice ps (restore s s'))"

definition does :: "(dstate \<Rightarrow> dstate) \<Rightarrow> parser" where
  "does f s = Some (True, f s)"

definition test :: "(dstate \<Rightarrow> bool) \<Rightarrow> parser" where
  "test P s = Some (P s, s)"

definition Optional :: "parser \<Rightarrow> parser" where
  "Optional p s = (case p s of None \<Rightarrow> None | Some (b, s') \<Rightarrow> Some (True, s'))"

text \<open>
  A \<open>while\<close> loop: the body goes on with a new value of the local variable or stops with the
  value of the loop. A body that goes on consumes input, so one more round than there are
  characters left is enough.
\<close>

datatype 'a step = Next 'a | Stop bool

primrec loop :: "nat \<Rightarrow> ('a \<Rightarrow> dstate \<Rightarrow> ('a step \<times> dstate) option) \<Rightarrow> 'a \<Rightarrow> parser" where
  "loop 0 body x s = None"
| "loop (Suc n) body x s = (case body x s of
     None \<Rightarrow> None
   | Some (Next y, s') \<Rightarrow> loop n body y s'
   | Some (Stop b, s') \<Rightarrow> Some (b, s'))"

definition run_loop :: "('a \<Rightarrow> dstate \<Rightarrow> ('a step \<times> dstate) option) \<Rightarrow> 'a \<Rightarrow> parser" where
  "run_loop body x s = loop (Suc (length (mangled_cur s))) body x s"

definition ZeroOrMore :: "parser \<Rightarrow> parser" where
  "ZeroOrMore parse_func = run_loop (\<lambda>_ s. case parse_func s of
     None \<Rightarrow> None
   | Some (b, s') \<Rightarrow> Some (if b then Next () else Stop True, s')) ()"

definition OneOrMore :: "parser \<Rightarrow> parser" where
  "OneOrMore parse_func = all_of [parse_func, ZeroOrMore parse_func]"

section \<open>Tokens\<close>

definition advance :: "nat \<Rightarrow> dstate \<Rightarrow> dstate" where
  "advance n s = s\<lparr>mangled_cur := drop n (mangled_cur s)\<rparr>"

abbreviation peek :: "dstate \<Rightarrow> nat \<Rightarrow> char" where
  "peek s i \<equiv> at (mangled_cur s) i"

text \<open>\<open>memchr\<close> finds no zero among the first \<open>n\<close> characters.\<close>

definition AtLeastNumCharsRemaining :: "string \<Rightarrow> int \<Rightarrow> bool" where
  "AtLeastNumCharsRemaining str n \<longleftrightarrow> n \<le> 0 \<or> n \<le> int (length str)"

definition StrPrefix :: "string \<Rightarrow> string \<Rightarrow> bool" where
  "StrPrefix str pre \<longleftrightarrow> starts_with pre str"

definition ParseOneCharToken :: "char \<Rightarrow> parser" where
  "ParseOneCharToken c s = (if peek s 0 = c then Some (True, advance 1 s) else Some (False, s))"

definition ParseTwoCharToken :: "string \<Rightarrow> parser" where
  "ParseTwoCharToken tok s =
     (if take 2 (mangled_cur s) = tok then Some (True, advance 2 s) else Some (False, s))"

definition ParseCharClass :: "string \<Rightarrow> parser" where
  "ParseCharClass char_class s =
     (if peek s 0 \<noteq> NUL \<and> peek s 0 \<in> set char_class then Some (True, advance 1 s)
      else Some (False, s))"

definition IsLower :: "char \<Rightarrow> bool" where
  "IsLower c \<longleftrightarrow> 97 \<le> (of_char c :: int) \<and> (of_char c :: int) \<le> 122"

definition IsAlpha :: "char \<Rightarrow> bool" where
  "IsAlpha c \<longleftrightarrow> 97 \<le> (of_char c :: int) \<and> (of_char c :: int) \<le> 122
     \<or> 65 \<le> (of_char c :: int) \<and> (of_char c :: int) \<le> 90"

definition IsDigit :: "char \<Rightarrow> bool" where
  "IsDigit c \<longleftrightarrow> 48 \<le> (of_char c :: int) \<and> (of_char c :: int) \<le> 57"

section \<open>Output\<close>

text \<open>Where appended text comes from: a string outside the output, or the output itself.\<close>

datatype source = Literal string | OutBuffer nat

fun source_char :: "source \<Rightarrow> string \<Rightarrow> nat \<Rightarrow> char" where
  "source_char (Literal str) buf i = at str i"
| "source_char (OutBuffer p) buf i = at buf (p + i)"

primrec append_loop :: "nat \<Rightarrow> source \<Rightarrow> nat \<Rightarrow> dstate \<Rightarrow> dstate" where
  "append_loop 0 str i s = s"
| "append_loop (Suc n) str i s =
     (if length (out_buf s) - out_cur s > 1
      then append_loop n str (i + 1)
             (s\<lparr>out_buf := (out_buf s)[out_cur s := source_char str (out_buf s) i],
                out_cur := out_cur s + 1\<rparr>)
      else s\<lparr>overflowed := True\<rparr>)"

definition Append :: "source \<Rightarrow> int \<Rightarrow> dstate \<Rightarrow> dstate" where
  "Append str len s =
     (let s' = append_loop (nat len) str 0 s
      in if \<not> overflowed s' then s'\<lparr>out_buf := (out_buf s')[out_cur s' := NUL]\<rparr> else s')"

definition MaybeAppendWithLength :: "source \<Rightarrow> int \<Rightarrow> dstate \<Rightarrow> dstate" where
  "MaybeAppendWithLength str len s =
     (if append_mode s \<and> len > 0 then
        let s1 = (if source_char str (out_buf s) 0 = CHR ''<'' \<and> 0 < out_cur s
                     \<and> at (out_buf s) (out_cur s - 1) = CHR ''<''
                  then Append (Literal '' '') 1 s else s);
            s2 = Append str len s1;
            first = source_char str (out_buf s2) 0
        in if \<not> overflowed s2 \<and> (IsAlpha first \<or> first = CHR ''_'')
           then s2\<lparr>prev_name := Some (out_cur s1), prev_name_length := len\<rparr> else s2
      else s)"

definition MaybeAppend :: "string \<Rightarrow> dstate \<Rightarrow> dstate" where
  "MaybeAppend str s =
     (if append_mode s then MaybeAppendWithLength (Literal str) (int (length str)) s else s)"

definition EnterNestedName :: "dstate \<Rightarrow> dstate" where
  "EnterNestedName s = s\<lparr>nest_level := 0\<rparr>"

definition LeaveNestedName :: "16 word \<Rightarrow> dstate \<Rightarrow> dstate" where
  "LeaveNestedName prev_value s = s\<lparr>nest_level := prev_value\<rparr>"

definition DisableAppend :: "dstate \<Rightarrow> dstate" where
  "DisableAppend s = s\<lparr>append_mode := False\<rparr>"

definition RestoreAppend :: "bool \<Rightarrow> dstate \<Rightarrow> dstate" where
  "RestoreAppend prev_value s = s\<lparr>append_mode := prev_value\<rparr>"

definition MaybeIncreaseNestLevel :: "dstate \<Rightarrow> dstate" where
  "MaybeIncreaseNestLevel s =
     (if sint (nest_level s) > -1 then s\<lparr>nest_level := nest_level s + 1\<rparr> else s)"

definition MaybeAppendSeparator :: "dstate \<Rightarrow> dstate" where
  "MaybeAppendSeparator s =
     (if skip_separator s then s\<lparr>skip_separator := False\<rparr>
      else if sint (nest_level s) \<ge> 1 then MaybeAppend ''::'' s else s)"

definition MaybeCancelLastSeparator :: "dstate \<Rightarrow> dstate" where
  "MaybeCancelLastSeparator s =
     (if sint (nest_level s) \<ge> 1 \<and> append_mode s \<and> out_cur s \<ge> 2
      then s\<lparr>out_cur := out_cur s - 2, out_buf := (out_buf s)[out_cur s - 2 := NUL]\<rparr>
      else s)"

definition IdentifierIsAnonymousNamespace :: "int \<Rightarrow> dstate \<Rightarrow> bool" where
  "IdentifierIsAnonymousNamespace len s \<longleftrightarrow>
     len > 11 \<and> StrPrefix (mangled_cur s) ''_GLOBAL__N_''"

end
