(* ===== verification/DemangleParser.thy ===== *)
theory DemangleParser imports DemangleState begin

text \<open>
  \<open>src/src/demangle.cc\<close>, second part: the parsing functions, one definition each, in the order
  of the file, and \<open>Demangle\<close> itself.

  Nine functions start with a \<open>ParseDepthGuard\<close> and every cycle of calls passes through one of
  them. They are the constructors of \<open>nonterm\<close>; a function that calls one of them takes the
  parser \<open>P\<close> of the calls as an argument. \<open>parse\<close> ties the knot by recursion on the depth that
  is left: at \<open>parse_depth = kMaxParseDepth\<close> the guard refuses, so the recursion needs no other
  bound (\<open>parse_full_depth\<close> in \<open>DemangleFacts\<close>).
\<close>

datatype nonterm =
    Encoding | Name | NestedName | Prefix | Type | TemplateArg | BracedExpression | Expression
  | LocalName

type_synonym calls = "nonterm \<Rightarrow> parser"

section \<open>Numbers and names\<close>

text \<open>\<open>ParseNumber(state, nullptr)\<close>: the value is not wanted.\<close>

definition ParseNumber_null :: parser where
  "ParseNumber_null s =
     (let s1 = (if peek s 0 = CHR ''n'' then advance 1 s else s)
      in if peek s1 0 = CHR ''0'' \<and> IsDigit (peek s1 1) then Some (False, restore s s1)
      else let p = dropWhile IsDigit (mangled_cur s1)
      in if length p \<noteq> length (mangled_cur s1) then Some (True, s1\<lparr>mangled_cur := p\<rparr>)
      else Some (False, restore s s1))"

definition kMaxPositive :: "64 word" where "kMaxPositive = 0x7FFFFFFFFFFFFFFF"
definition kMaxNegative :: "64 word" where "kMaxNegative = kMaxPositive + 1"

text \<open>The digits; \<open>None\<close> when the number exceeds the limit.\<close>

fun number_loop :: "64 word \<Rightarrow> 64 word \<Rightarrow> string \<Rightarrow> (64 word \<times> string) option" where
  "number_loop limit number [] = Some (number, [])"
| "number_loop limit number (c # p) =
     (if IsDigit c then
        let digit = word_of_int (of_char c - 48)
        in if number > limit div 10 \<or> (number = limit div 10 \<and> digit > limit mod 10) then None
           else number_loop limit (number * 10 + digit) p
      else Some (number, c # p))"

text \<open>\<open>ParseNumber(state, &number)\<close>: the boolean, the number (0 when not set), the state.\<close>

definition ParseNumber :: "dstate \<Rightarrow> bool \<times> int \<times> dstate" where
  "ParseNumber s =
     (let negative = (peek s 0 = CHR ''n'');
          s1 = (if negative then advance 1 s else s)
      in if peek s1 0 = CHR ''0'' \<and> IsDigit (peek s1 1) then (False, 0, restore s s1)
      else (case number_loop (if negative then kMaxNegative else kMaxPositive) 0 (mangled_cur s1) of
          None \<Rightarrow> (False, 0, restore s s1)
        | Some (number, p) \<Rightarrow>
            if length p \<noteq> length (mangled_cur s1)
            then (True,
                  if negative then (if number = kMaxNegative then - (2 ^ 63) else - sint number)
                  else sint number,
                  s1\<lparr>mangled_cur := p\<rparr>)
            else (False, 0, s1)))"

definition ParseNonNegativeNumber_null :: parser where
  "ParseNonNegativeNumber_null s =
     (if peek s 0 = CHR ''n'' then Some (False, s) else ParseNumber_null s)"

definition ParseNonNegativeNumber :: "dstate \<Rightarrow> bool \<times> int \<times> dstate" where
  "ParseNonNegativeNumber s =
     (let (ok, number, s1) = ParseNumber s
      in if ok \<and> number \<ge> 0 then (True, number, s1) else (False, 0, restore s s1))"

definition ParsePositiveNumber_null :: parser where
  "ParsePositiveNumber_null s =
     (if peek s 0 = CHR ''0'' \<or> peek s 0 = CHR ''n'' then Some (False, s) else ParseNumber_null s)"

definition ParsePositiveNumber :: "dstate \<Rightarrow> bool \<times> int \<times> dstate" where
  "ParsePositiveNumber s =
     (let (ok, number, s1) = ParseNonNegativeNumber s
      in if ok \<and> number > 0 then (True, number, s1) else (False, 0, restore s s1))"

definition IsLowerHex :: "char \<Rightarrow> bool" where
  "IsLowerHex c \<longleftrightarrow> IsDigit c \<or> 97 \<le> (of_char c :: int) \<and> (of_char c :: int) \<le> 102"

definition ParseFloatNumber :: parser where
  "ParseFloatNumber s =
     (let p = dropWhile IsLowerHex (mangled_cur s)
      in if length p \<noteq> length (mangled_cur s) then Some (True, s\<lparr>mangled_cur := p\<rparr>)
         else Some (False, s))"

definition IsBase36 :: "char \<Rightarrow> bool" where
  "IsBase36 c \<longleftrightarrow> IsDigit c \<or> 65 \<le> (of_char c :: int) \<and> (of_char c :: int) \<le> 90"

definition ParseSeqId :: parser where
  "ParseSeqId s =
     (let p = dropWhile IsBase36 (mangled_cur s)
      in if length p \<noteq> length (mangled_cur s)
            \<and> \<not> (length (mangled_cur s) - length p > 1 \<and> peek s 0 = CHR ''0'')
         then Some (True, s\<lparr>mangled_cur := p\<rparr>) else Some (False, s))"

definition ParseIdentifier :: "int \<Rightarrow> parser" where
  "ParseIdentifier len s =
     (if len < 0 \<or> \<not> AtLeastNumCharsRemaining (mangled_cur s) len then Some (False, s)
      else let s1 = (if IdentifierIsAnonymousNamespace len s
                     then MaybeAppend ''(anonymous namespace)'' s
                     else MaybeAppendWithLength (Literal (mangled_cur s)) len s)
           in Some (True, advance (nat len) s1))"

definition ssize_max :: int where "ssize_max = 0x7FFFFFFFFFFFFFFF"

definition ParseSourceName :: parser where
  "ParseSourceName = choice [\<lambda>s.
     (let (ok, len, s1) = ParsePositiveNumber s
      in if ok \<and> len \<le> ssize_max then ParseIdentifier len s1 else Some (False, s1))]"

definition ParseAbiTag :: parser where
  "ParseAbiTag = all_of [ParseOneCharToken CHR ''B'', ParseSourceName]"

definition ParseAbiTags :: parser where
  "ParseAbiTags s = choice [
     all_of [does DisableAppend, OneOrMore ParseAbiTag, does (RestoreAppend (append_mode s))]] s"

definition ParseDiscriminator :: parser where
  "ParseDiscriminator = choice [
     all_of [ParseTwoCharToken ''__'',
       \<lambda>s. (let (ok, number, s1) = ParseNonNegativeNumber s in Some (ok \<and> number \<ge> 10, s1)),
       ParseOneCharToken CHR ''_''],
     all_of [ParseOneCharToken CHR ''_'',
       \<lambda>s. (let (ok, number, s1) = ParseNonNegativeNumber s in Some (ok \<and> number < 10, s1))]]"

definition ParseLocalSourceName :: parser where
  "ParseLocalSourceName = choice [
     all_of [ParseOneCharToken CHR ''L'', ParseSourceName, Optional ParseDiscriminator]]"

text \<open>The names after the first one of a structured binding.\<close>

definition binding_names :: parser where
  "binding_names = run_loop (\<lambda>_ s.
     if peek s 0 \<noteq> CHR ''E'' then
       (case ParseSourceName (MaybeAppend '', '' s) of
          None \<Rightarrow> None
        | Some (True, s') \<Rightarrow> Some (Next (), s')
        | Some (False, s') \<Rightarrow> Some (Stop True, restore s s'))
     else Some (Stop True, s)) ()"

definition ParseStructuredBindingName :: parser where
  "ParseStructuredBindingName = choice [
     all_of [ParseTwoCharToken ''DC'', does (MaybeAppend ''[''), ParseSourceName, binding_names,
       ParseOneCharToken CHR ''E'', does (MaybeAppend '']'')]]"

definition ParseNVOffset :: parser where
  "ParseNVOffset = ParseNumber_null"

definition ParseVOffset :: parser where
  "ParseVOffset = choice [
     all_of [ParseNumber_null, ParseOneCharToken CHR ''_'', ParseNumber_null]]"

definition ParseCallOffset :: parser where
  "ParseCallOffset = choice [
     all_of [ParseOneCharToken CHR ''h'', ParseNVOffset, ParseOneCharToken CHR ''_''],
     all_of [ParseOneCharToken CHR ''v'', ParseVOffset, ParseOneCharToken CHR ''_'']]"

definition ParseCVQualifiers :: parser where
  "ParseCVQualifiers s =
     (let skip = (\<lambda>c s. if peek s 0 = c then advance 1 s else s);
          s1 = skip CHR ''r'' s; s2 = skip CHR ''V'' s1; s3 = skip CHR ''K'' s2
      in Some (peek s 0 = CHR ''r'' \<or> peek s1 0 = CHR ''V'' \<or> peek s2 0 = CHR ''K'', s3))"

definition ParseTemplateParam :: parser where
  "ParseTemplateParam = any_of [
     all_of [ParseTwoCharToken ''T_'', does (MaybeAppend ''?'')],
     choice [
       all_of [ParseOneCharToken CHR ''T'', ParseNonNegativeNumber_null,
         ParseOneCharToken CHR ''_'', does (MaybeAppend ''?'')]]]"

text \<open>The entry of an abbreviation list for the character after \<open>S\<close>.\<close>

definition substitution_abbreviation :: parser where
  "substitution_abbreviation s =
     (case filter (\<lambda>(abbrev, real_name). peek s 0 = at abbrev 1) kSubstitutionList of
        [] \<Rightarrow> Some (False, s)
      | (abbrev, real_name) # _ \<Rightarrow>
          all_of [does (MaybeAppend ''std''),
            does (\<lambda>s. if real_name \<noteq> '''' then MaybeAppend real_name (MaybeAppend ''::'' s) else s),
            does (advance 1), Optional ParseAbiTags] s)"

definition ParseSubstitution :: parser where
  "ParseSubstitution = any_of [
     all_of [ParseTwoCharToken ''S_'', Optional ParseAbiTags, does (MaybeAppend ''?'')],
     choice [
       all_of [ParseOneCharToken CHR ''S'', ParseSeqId, ParseOneCharToken CHR ''_'',
         Optional ParseAbiTags, does (MaybeAppend ''?'')],
       all_of [ParseOneCharToken CHR ''S'', substitution_abbreviation]]]"

definition ParseTemplateTemplateParam :: parser where
  "ParseTemplateTemplateParam = any_of [ParseTemplateParam, ParseSubstitution]"

definition ParseFunctionParam :: parser where
  "ParseFunctionParam = choice [
     all_of [ParseTwoCharToken ''fp'', Optional ParseCVQualifiers,
       any_of [ParseOneCharToken CHR ''T'',
         all_of [Optional ParseNonNegativeNumber_null, ParseOneCharToken CHR ''_'']]],
     all_of [ParseTwoCharToken ''fL'', ParseNonNegativeNumber_null, ParseOneCharToken CHR ''p'',
       Optional ParseCVQualifiers, Optional ParseNonNegativeNumber_null,
       ParseOneCharToken CHR ''_'']]"

section \<open>Names with types and expressions\<close>

definition ParseRequiresClause :: "calls \<Rightarrow> parser" where
  "ParseRequiresClause P s = choice [
     all_of [does DisableAppend, ParseOneCharToken CHR ''Q'', P Expression,
       does (RestoreAppend (append_mode s))]] s"

definition ParseTemplateArgs :: "calls \<Rightarrow> parser" where
  "ParseTemplateArgs P s = choice [
     all_of [does DisableAppend, ParseOneCharToken CHR ''I'', OneOrMore (P TemplateArg),
       Optional (ParseRequiresClause P), ParseOneCharToken CHR ''E'',
       does (RestoreAppend (append_mode s)),
       does (\<lambda>s'. s'\<lparr>skip_separator := skip_separator s\<rparr>),
       does (MaybeAppend ''<>'')]] s"

definition ParseBareFunctionType :: "calls \<Rightarrow> parser" where
  "ParseBareFunctionType P s = choice [
     all_of [does DisableAppend, OneOrMore (P Type), does (RestoreAppend (append_mode s)),
       does (MaybeAppend ''()'')]] s"

definition ParseExceptionSpec :: "calls \<Rightarrow> parser" where
  "ParseExceptionSpec P s = choice [
     all_of [does DisableAppend, ParseTwoCharToken ''Do'', does (RestoreAppend (append_mode s))],
     all_of [does DisableAppend, ParseTwoCharToken ''DO'', P Expression,
       ParseOneCharToken CHR ''E'', does (RestoreAppend (append_mode s))],
     all_of [does DisableAppend, ParseTwoCharToken ''Dw'', OneOrMore (P Type),
       ParseOneCharToken CHR ''E'', does (RestoreAppend (append_mode s))]] s"

definition ParseFunctionType :: "calls \<Rightarrow> parser" where
  "ParseFunctionType P = choice [
     all_of [Optional ParseCVQualifiers, Optional (ParseExceptionSpec P),
       Optional (ParseTwoCharToken ''Dx''), ParseOneCharToken CHR ''F'',
       Optional (ParseOneCharToken CHR ''Y''), ParseBareFunctionType P,
       Optional (ParseCharClass ''RO''), ParseOneCharToken CHR ''E'']]"

definition ParseArrayType :: "calls \<Rightarrow> parser" where
  "ParseArrayType P = choice [
     all_of [ParseOneCharToken CHR ''A'', ParsePositiveNumber_null, ParseOneCharToken CHR ''_'',
       P Type],
     all_of [ParseOneCharToken CHR ''A'', Optional (P Expression), ParseOneCharToken CHR ''_'',
       P Type]]"

definition ParsePointerToMemberType :: "calls \<Rightarrow> parser" where
  "ParsePointerToMemberType P = choice [all_of [ParseOneCharToken CHR ''M'', P Type, P Type]]"

definition ParseClassEnumType :: "calls \<Rightarrow> parser" where
  "ParseClassEnumType P = P Name"

definition builtin_abbreviation :: parser where
  "builtin_abbreviation s =
     (case filter (\<lambda>(abbrev, real_name). StrPrefix (mangled_cur s) abbrev) kBuiltinTypeList of
        [] \<Rightarrow> Some (False, s)
      | (abbrev, real_name) # _ \<Rightarrow> Some (True, advance (length abbrev) (MaybeAppend real_name s)))"

definition ParseBuiltinType :: "calls \<Rightarrow> parser" where
  "ParseBuiltinType P = choice [
     all_of [ParseTwoCharToken ''DF'', ParseNonNegativeNumber_null,
       any_of [ParseOneCharToken CHR ''_'', ParseOneCharToken CHR ''x'',
         ParseOneCharToken CHR ''b'']],
     all_of [Optional (ParseTwoCharToken ''DS''),
       any_of [ParseTwoCharToken ''DA'', ParseTwoCharToken ''DR''], ParseCharClass ''stijlm''],
     all_of [any_of [ParseTwoCharToken ''DB'', ParseTwoCharToken ''DU''],
       choice [
         all_of [ParseNonNegativeNumber_null, ParseOneCharToken CHR ''_''],
         all_of [P Expression, ParseOneCharToken CHR ''_'']]],
     builtin_abbreviation,
     all_of [ParseOneCharToken CHR ''u'', ParseSourceName, Optional (ParseTemplateArgs P)]]"

definition ParseUnnamedTypeName :: "calls \<Rightarrow> parser" where
  "ParseUnnamedTypeName P s = choice [
     all_of [ParseTwoCharToken ''Ut'', Optional ParseNonNegativeNumber_null,
       ParseOneCharToken CHR ''_''],
     all_of [ParseTwoCharToken ''Ul'', does DisableAppend, P Type, ZeroOrMore (P Type),
       ParseOneCharToken CHR ''E'', Optional ParseNonNegativeNumber_null,
       ParseOneCharToken CHR ''_'', does (RestoreAppend (append_mode s)),
       does (\<lambda>s'. s'\<lparr>skip_separator := True\<rparr>)]] s"

definition operator_abbreviation :: parser where
  "operator_abbreviation s =
     (if \<not> (IsLower (peek s 0) \<and> IsAlpha (peek s 1)) then Some (False, s)
      else (case filter (\<lambda>(abbrev, real_name, arity). peek s 0 = at abbrev 0 \<and> peek s 1 = at abbrev 1)
                   kOperatorList of
          [] \<Rightarrow> Some (False, s)
        | (abbrev, real_name, arity) # _ \<Rightarrow>
            all_of [does (MaybeAppend ''operator''),
              does (\<lambda>s. if IsLower (at real_name 0) then MaybeAppend '' '' s else s),
              does (MaybeAppend real_name), does (advance 2)] s))"

definition ParseOperatorName :: "calls \<Rightarrow> parser" where
  "ParseOperatorName P s =
     (if \<not> AtLeastNumCharsRemaining (mangled_cur s) 2 then Some (False, s)
      else choice [
        all_of [ParseTwoCharToken ''cv'', does (MaybeAppend ''operator ''), does EnterNestedName,
          P Type, does (LeaveNestedName (nest_level s))],
        all_of [ParseTwoCharToken ''li'',
          does (MaybeAppend (''operator'' @ [CHR 0x22, CHR 0x22] @ '' '')), ParseSourceName],
        all_of [ParseOneCharToken CHR ''v'', ParseCharClass ''0123456789'', ParseSourceName],
        operator_abbreviation] s)"

definition OperatorHasArity :: "string \<Rightarrow> OperatorArity \<Rightarrow> bool" where
  "OperatorHasArity op arity =
     (if StrPrefix op ''cv'' \<or> StrPrefix op ''li''
         \<or> (at op 0 = CHR ''v'' \<and> AtLeastNumCharsRemaining op 2 \<and> IsDigit (at op 1))
      then arity = kUnary
      else (case filter (\<lambda>(abbrev, real_name, a). at op 0 = at abbrev 0 \<and> at op 1 = at abbrev 1)
                   kOperatorList of
          [] \<Rightarrow> False
        | (abbrev, real_name, a) # _ \<Rightarrow> a = arity))"

definition ParseOperatorNameWithArity :: "OperatorArity \<Rightarrow> calls \<Rightarrow> parser" where
  "ParseOperatorNameWithArity arity P s =
     (if \<not> OperatorHasArity (mangled_cur s) arity then Some (False, s) else ParseOperatorName P s)"

text \<open>Append the name remembered for constructors and destructors.\<close>

definition append_prev_name :: "string \<Rightarrow> dstate \<Rightarrow> dstate" where
  "append_prev_name lead s =
     (case prev_name s of
        None \<Rightarrow> s
      | Some p \<Rightarrow> MaybeAppendWithLength (OutBuffer p) (prev_name_length s)
                   (if lead = '''' then s else MaybeAppend lead s))"

definition ParseCtorDtorName :: "calls \<Rightarrow> parser" where
  "ParseCtorDtorName P = choice [
     all_of [ParseTwoCharToken ''CI'', ParseCharClass ''12'', test (\<lambda>s. prev_name s \<noteq> None), P Type],
     all_of [ParseOneCharToken CHR ''C'', ParseCharClass ''12345'', test (\<lambda>s. prev_name s \<noteq> None),
       does (append_prev_name '''')],
     all_of [ParseOneCharToken CHR ''D'', ParseCharClass ''01245'', test (\<lambda>s. prev_name s \<noteq> None),
       does (append_prev_name ''~'')]]"

definition ParseUnqualifiedName :: "calls \<Rightarrow> parser" where
  "ParseUnqualifiedName P = choice [
     all_of [ParseOperatorName P, Optional ParseAbiTags],
     ParseCtorDtorName P,
     any_of [
       all_of [test (\<lambda>s. peek s 0 = CHR ''U'' \<and> (peek s 1 = CHR ''l'' \<or> peek s 1 = CHR ''t'')),
         ParseUnnamedTypeName P],
       all_of [test (\<lambda>s. peek s 0 = CHR ''D'' \<and> peek s 1 = CHR ''C''), ParseStructuredBindingName],
       all_of [ParseSourceName, Optional ParseAbiTags],
       all_of [ParseLocalSourceName, Optional ParseAbiTags]]]"

definition ParseUnscopedName :: "calls \<Rightarrow> parser" where
  "ParseUnscopedName P = any_of [
     ParseUnqualifiedName P,
     choice [
       all_of [ParseTwoCharToken ''St'', does (MaybeAppend ''std::''), ParseUnqualifiedName P]]]"

definition ParseUnscopedTemplateName :: "calls \<Rightarrow> parser" where
  "ParseUnscopedTemplateName P = any_of [ParseUnscopedName P, ParseSubstitution]"

definition ParseMangledName :: "calls \<Rightarrow> parser" where
  "ParseMangledName P = all_of [ParseTwoCharToken ''_Z'', P Encoding]"

definition ParseSpecialName :: "calls \<Rightarrow> parser" where
  "ParseSpecialName P s = choice [
     all_of [ParseTwoCharToken ''GV'', P Name],
     all_of [ParseTwoCharToken ''GR'', P Name, Optional ParseSeqId, ParseOneCharToken CHR ''_''],
     all_of [ParseTwoCharToken ''GT'', ParseOneCharToken CHR ''t'',
       does (MaybeAppend ''transaction clone for ''), P Encoding],
     all_of [ParseTwoCharToken ''TW'', does (MaybeAppend ''TLS wrapper function for ''), P Name],
     all_of [ParseTwoCharToken ''TH'', does (MaybeAppend ''TLS init function for ''), P Name],
     all_of [ParseOneCharToken CHR ''T'', ParseCharClass ''VTIS'', P Type],
     all_of [ParseTwoCharToken ''Tc'', ParseCallOffset, ParseCallOffset, P Encoding],
     all_of [ParseOneCharToken CHR ''T'', ParseCallOffset, P Encoding],
     all_of [ParseTwoCharToken ''TC'', P Type, ParseNonNegativeNumber_null,
       ParseOneCharToken CHR ''_'', does DisableAppend, P Type,
       does (RestoreAppend (append_mode s))],
     all_of [ParseOneCharToken CHR ''T'', ParseCharClass ''FJ'', P Type],
     all_of [ParseTwoCharToken ''GA'', P Encoding],
     all_of [ParseOneCharToken CHR ''T'', ParseCharClass ''hv'', ParseCallOffset, P Encoding]] s"

section \<open>Expressions\<close>

definition ParseSimpleId :: "calls \<Rightarrow> parser" where
  "ParseSimpleId P = choice [all_of [ParseSourceName, Optional (ParseTemplateArgs P)]]"

definition ParseUnresolvedType :: "calls \<Rightarrow> parser" where
  "ParseUnresolvedType P = choice [
     all_of [ParseTemplateParam, Optional (ParseTemplateArgs P)],
     all_of [ParseTwoCharToken ''St'', does (MaybeAppend ''std::''), ParseSimpleId P],
     ParseSubstitution,
     all_of [any_of [ParseTwoCharToken ''Dt'', ParseTwoCharToken ''DT''], P Expression,
       ParseOneCharToken CHR ''E'']]"

definition ParseBaseUnresolvedName :: "calls \<Rightarrow> parser" where
  "ParseBaseUnresolvedName P = choice [
     ParseSimpleId P,
     all_of [ParseTwoCharToken ''on'', ParseOperatorName P, Optional (ParseTemplateArgs P)],
     all_of [ParseTwoCharToken ''dn'', any_of [ParseUnresolvedType P, ParseSimpleId P]]]"

definition ParseUnresolvedName :: "calls \<Rightarrow> parser" where
  "ParseUnresolvedName P = choice [
     ParseBaseUnresolvedName P,
     all_of [Optional (ParseTwoCharToken ''gs''), ParseBaseUnresolvedName P],
     all_of [Optional (ParseTwoCharToken ''gs''), ParseTwoCharToken ''sr'',
       OneOrMore (ParseSimpleId P), ParseOneCharToken CHR ''E'', ParseBaseUnresolvedName P],
     all_of [ParseTwoCharToken ''sr'', OneOrMore (ParseSimpleId P), ParseOneCharToken CHR ''E'',
       ParseBaseUnresolvedName P],
     all_of [ParseTwoCharToken ''sr'', ParseUnresolvedType P, ParseBaseUnresolvedName P],
     all_of [ParseTwoCharToken ''sr'', ParseOneCharToken CHR ''N'', ParseUnresolvedType P,
       OneOrMore (ParseSimpleId P), ParseOneCharToken CHR ''E'', ParseBaseUnresolvedName P]]"

definition ParseExpressionSequence :: "calls \<Rightarrow> char \<Rightarrow> bool \<Rightarrow> parser" where
  "ParseExpressionSequence P terminator require_one = run_loop (\<lambda>parsed s.
     if peek s 0 \<noteq> terminator then
       (case P Expression s of
          None \<Rightarrow> None
        | Some (b, s') \<Rightarrow> Some (if b then Next True else Stop False, s'))
     else Some (Stop (parsed \<or> \<not> require_one), s)) False"

definition ParseBracedExpressionSequence :: "calls \<Rightarrow> parser" where
  "ParseBracedExpressionSequence P = run_loop (\<lambda>_ s.
     if peek s 0 \<noteq> CHR ''E'' then
       (case P BracedExpression s of
          None \<Rightarrow> None
        | Some (b, s') \<Rightarrow> Some (if b then Next () else Stop False, s'))
     else Some (Stop True, s)) ()"

definition requires_parameters :: "calls \<Rightarrow> parser" where
  "requires_parameters P = run_loop (\<lambda>_ s.
     if peek s 0 \<noteq> CHR ''_'' \<and> peek s 0 \<noteq> NUL then
       (case P Type s of
          None \<Rightarrow> None
        | Some (b, s') \<Rightarrow> Some (if b then Next () else Stop False, s'))
     else Some (Stop True, s)) ()"

definition requirement :: "calls \<Rightarrow> parser" where
  "requirement P = all_of [ParseOneCharToken CHR ''X'', P Expression,
     Optional (ParseOneCharToken CHR ''N''),
     \<lambda>s. if peek s 0 = CHR ''R'' then all_of [ParseOneCharToken CHR ''R'', P Name] s
         else Some (True, s)]"

definition requirements :: "calls \<Rightarrow> parser" where
  "requirements P = run_loop (\<lambda>parsed_requirement s.
     if peek s 0 \<noteq> CHR ''E'' \<and> peek s 0 \<noteq> NUL then
       (case requirement P s of
          None \<Rightarrow> None
        | Some (b, s') \<Rightarrow> Some (if b then Next True else Stop False, s'))
     else Some (Stop parsed_requirement, s)) False"

definition ParseRequiresExpression :: "calls \<Rightarrow> parser" where
  "ParseRequiresExpression P = choice [
     all_of [
       \<lambda>s. if take 2 (mangled_cur s) = ''rQ''
           then all_of [ParseTwoCharToken ''rQ'', requires_parameters P,
                  ParseOneCharToken CHR ''_''] s
           else ParseTwoCharToken ''rq'' s,
       requirements P, ParseOneCharToken CHR ''E'']]"

definition ParseInitializer :: "calls \<Rightarrow> parser" where
  "ParseInitializer P = all_of [ParseTwoCharToken ''pi'',
     ParseExpressionSequence P CHR ''E'' False, ParseOneCharToken CHR ''E'']"

definition ParseExprPrimary :: "calls \<Rightarrow> parser" where
  "ParseExprPrimary P s = choice [
     all_of [ParseOneCharToken CHR ''L'', P Type, ParseNumber_null, ParseOneCharToken CHR ''E''],
     all_of [ParseOneCharToken CHR ''L'', P Type, ParseFloatNumber,
       any_of [ParseOneCharToken CHR ''E'',
         all_of [ParseOneCharToken CHR ''_'', ParseFloatNumber, ParseOneCharToken CHR ''E'']]],
     all_of [ParseOneCharToken CHR ''L'', ParseTwoCharToken ''Dn'', ParseOneCharToken CHR ''E''],
     all_of [ParseOneCharToken CHR ''L'', ParseMangledName P, ParseOneCharToken CHR ''E''],
     all_of [ParseTwoCharToken ''LZ'', P Encoding, ParseOneCharToken CHR ''E''],
     all_of [ParseOneCharToken CHR ''L'', does DisableAppend, ParseArrayType P,
       ParseOneCharToken CHR ''E'', does (RestoreAppend (append_mode s))]] s"

text \<open>\<open>cv\<close>: a cast of one expression, or of a list of them, parsed anew.\<close>

definition cast_expression :: "calls \<Rightarrow> parser" where
  "cast_expression P s =
     (case all_of [ParseTwoCharToken ''cv'', P Type] s of
        None \<Rightarrow> None
      | Some (False, s1) \<Rightarrow> Some (False, s1)
      | Some (True, s1) \<Rightarrow>
          (case P Expression s1 of
             None \<Rightarrow> None
           | Some (True, s2) \<Rightarrow> Some (True, s2)
           | Some (False, s2) \<Rightarrow>
               all_of [ParseTwoCharToken ''cv'', P Type, ParseOneCharToken CHR ''_'',
                 ParseExpressionSequence P CHR ''E'' False, ParseOneCharToken CHR ''E'']
                 (restore s s2)))"

definition placement_arguments :: "calls \<Rightarrow> parser" where
  "placement_arguments P = run_loop (\<lambda>_ s.
     if peek s 0 \<noteq> CHR ''_'' \<and> peek s 0 \<noteq> NUL then
       (case P Expression s of
          None \<Rightarrow> None
        | Some (b, s') \<Rightarrow> Some (if b then Next () else Stop True, s'))
     else Some (Stop True, s)) ()"

definition ParseExpression_first :: "calls \<Rightarrow> parser list" where
  "ParseExpression_first P = [
     all_of [any_of [ParseTwoCharToken ''pp'', ParseTwoCharToken ''mm''],
       ParseOneCharToken CHR ''_'', P Expression],
     cast_expression P,
     all_of [ParseTwoCharToken ''ti'', P Type],
     all_of [ParseTwoCharToken ''te'', P Expression],
     all_of [ParseTwoCharToken ''at'', P Type],
     all_of [ParseTwoCharToken ''az'', P Expression],
     all_of [ParseTwoCharToken ''nx'', P Expression],
     all_of [ParseTwoCharToken ''tw'', P Expression],
     ParseTwoCharToken ''tr'',
     all_of [Optional (ParseOneCharToken CHR ''g''),
       any_of [ParseTwoCharToken ''nw'', ParseTwoCharToken ''na''],
       placement_arguments P, ParseOneCharToken CHR ''_'', P Type,
       any_of [ParseOneCharToken CHR ''E'', ParseInitializer P]],
     all_of [Optional (ParseOneCharToken CHR ''g''),
       any_of [ParseTwoCharToken ''dl'', ParseTwoCharToken ''da''], P Expression],
     all_of [any_of [ParseTwoCharToken ''fl'', ParseTwoCharToken ''fr''], ParseOperatorName P,
       P Expression],
     all_of [any_of [ParseTwoCharToken ''fL'', ParseTwoCharToken ''fR''], ParseOperatorName P,
       P Expression, P Expression],
     all_of [ParseOneCharToken CHR ''u'', ParseSourceName, ZeroOrMore (P TemplateArg),
       ParseOneCharToken CHR ''E'']]"

definition ParseExpression_second :: "calls \<Rightarrow> parser list" where
  "ParseExpression_second P = [
     all_of [ParseTwoCharToken ''cl'', ParseExpressionSequence P CHR ''E'' True,
       ParseOneCharToken CHR ''E''],
     all_of [ParseTwoCharToken ''cp'', ParseUnresolvedName P,
       ParseExpressionSequence P CHR ''E'' False, ParseOneCharToken CHR ''E''],
     all_of [any_of [ParseTwoCharToken ''dc'', ParseTwoCharToken ''sc'', ParseTwoCharToken ''cc'',
         ParseTwoCharToken ''rc''], P Type, P Expression],
     all_of [ParseTwoCharToken ''tl'', P Type, ParseBracedExpressionSequence P,
       ParseOneCharToken CHR ''E''],
     all_of [ParseTwoCharToken ''il'', ParseBracedExpressionSequence P, ParseOneCharToken CHR ''E''],
     all_of [ParseTwoCharToken ''ds'', P Expression, P Expression],
     all_of [ParseTwoCharToken ''sZ'', any_of [ParseTemplateParam, ParseFunctionParam]],
     all_of [ParseTwoCharToken ''sP'', ZeroOrMore (P TemplateArg), ParseOneCharToken CHR ''E''],
     all_of [ParseTwoCharToken ''dt'', P Expression, ParseUnresolvedName P],
     all_of [ParseTwoCharToken ''pt'', P Expression, ParseUnresolvedName P]]"

definition ParseExpression_third :: "calls \<Rightarrow> parser list" where
  "ParseExpression_third P = [
     ParseUnresolvedName P,
     all_of [ParseOperatorNameWithArity kTernary P, P Expression, P Expression, P Expression],
     all_of [ParseOperatorNameWithArity kBinary P, P Expression, P Expression],
     all_of [ParseOperatorNameWithArity kUnary P, P Expression],
     all_of [ParseTwoCharToken ''st'', P Type],
     all_of [ParseTwoCharToken ''sr'', ParseSourceName, ParseOneCharToken CHR ''E'',
       ParseUnqualifiedName P, ParseTemplateArgs P],
     all_of [ParseTwoCharToken ''sr'', P Type, ParseUnqualifiedName P, ParseTemplateArgs P],
     all_of [ParseTwoCharToken ''sr'', P Type, ParseUnqualifiedName P],
     all_of [ParseTwoCharToken ''sp'', P Expression]]"

section \<open>The guarded functions\<close>

text \<open>The pending ref-qualifier of a member function, printed after its parameters.\<close>

definition append_ref_qualifier :: "dstate \<Rightarrow> dstate" where
  "append_ref_qualifier s =
     (if pending_ref_qualifier s = CHR ''R'' then MaybeAppend '' &'' s
      else if pending_ref_qualifier s = CHR ''O'' then MaybeAppend '' &&'' s
      else s)\<lparr>pending_ref_qualifier := NUL\<rparr>"

definition ParseEncoding :: "calls \<Rightarrow> parser" where
  "ParseEncoding P = ParseDepthGuard (ParseEncodingGuard (choice [
     all_of [P Name, Optional (ParseRequiresClause P), ParseBareFunctionType P,
       does append_ref_qualifier, Optional (ParseRequiresClause P)],
     any_of [P Name, ParseSpecialName P]]))"

definition ParseName :: "calls \<Rightarrow> parser" where
  "ParseName P = ParseDepthGuard (any_of [
     P NestedName, P LocalName,
     choice [all_of [ParseUnscopedTemplateName P, ParseTemplateArgs P]],
     ParseUnscopedName P])"

text \<open>The prefix of a nested name, with the ref-qualifier before it.\<close>

definition qualified_prefix :: "calls \<Rightarrow> parser" where
  "qualified_prefix P s =
     (let q = (if peek s 0 = CHR ''R'' \<or> peek s 0 = CHR ''O'' then peek s 0 else NUL);
          s1 = (if peek s 0 = CHR ''R'' \<or> peek s 0 = CHR ''O'' then advance 1 s else s)
      in all_of [P Prefix, does (\<lambda>s'. s'\<lparr>pending_ref_qualifier := q\<rparr>)] s1)"

definition ParseNestedName :: "calls \<Rightarrow> parser" where
  "ParseNestedName P = ParseDepthGuard (\<lambda>s. choice [
     all_of [ParseOneCharToken CHR ''N'', does EnterNestedName, Optional ParseCVQualifiers,
       qualified_prefix P, does (LeaveNestedName (nest_level s)), ParseOneCharToken CHR ''E'']] s)"

text \<open>One round of the loop over the components of a prefix.\<close>

definition prefix_round :: "calls \<Rightarrow> bool \<Rightarrow> dstate \<Rightarrow> (bool step \<times> dstate) option" where
  "prefix_round P has_something s =
     (case any_of [ParseTemplateParam, ParseSubstitution, ParseUnscopedName P]
             (MaybeAppendSeparator s) of
        None \<Rightarrow> None
      | Some (True, s1) \<Rightarrow> Some (Next True, MaybeIncreaseNestLevel s1)
      | Some (False, s1) \<Rightarrow>
          (case (if has_something then ParseTemplateArgs P (MaybeCancelLastSeparator s1)
                 else Some (False, MaybeCancelLastSeparator s1)) of
             None \<Rightarrow> None
           | Some (True, s2) \<Rightarrow> Some (Next True, s2)
           | Some (False, s2) \<Rightarrow>
               (case choice [
                   ParseOneCharToken CHR ''M'',
                   all_of [ParseOneCharToken CHR ''D'',
                     any_of [ParseOneCharToken CHR ''t'', ParseOneCharToken CHR ''T''],
                     P Expression, ParseOneCharToken CHR ''E'']] s2 of
                  None \<Rightarrow> None
                | Some (b, s3) \<Rightarrow> Some (if b then Next True else Stop True, s3))))"

definition ParsePrefix :: "calls \<Rightarrow> parser" where
  "ParsePrefix P = ParseDepthGuard (run_loop (prefix_round P) False)"

definition ParseType :: "calls \<Rightarrow> parser" where
  "ParseType P = ParseDepthGuard (ParseTypeGuard (choice [
     all_of [ParseCVQualifiers, P Type],
     all_of [ParseCharClass ''OPRCG'', P Type],
     all_of [ParseTwoCharToken ''Dp'', P Type],
     all_of [any_of [ParseTwoCharToken ''Ts'', ParseTwoCharToken ''Tu'', ParseTwoCharToken ''Te''],
       P Name],
     all_of [ParseOneCharToken CHR ''D'', ParseCharClass ''tT'', P Expression,
       ParseOneCharToken CHR ''E''],
     all_of [ParseOneCharToken CHR ''U'', ParseSourceName, Optional (ParseTemplateArgs P), P Type],
     any_of [ParseBuiltinType P, ParseFunctionType P, ParseClassEnumType P, ParseArrayType P,
       ParsePointerToMemberType P, ParseSubstitution,
       all_of [ParseTemplateTemplateParam, ParseTemplateArgs P]],
     ParseTemplateParam]))"

definition ParseTemplateArg :: "calls \<Rightarrow> parser" where
  "ParseTemplateArg P = ParseDepthGuard (ParseTemplateArgGuard (choice [
     all_of [any_of [ParseOneCharToken CHR ''I'', ParseOneCharToken CHR ''J''],
       ZeroOrMore (P TemplateArg), ParseOneCharToken CHR ''E''],
     any_of [P Type, ParseExprPrimary P],
     all_of [ParseOneCharToken CHR ''X'', P Expression, ParseOneCharToken CHR ''E'']]))"

definition ParseBracedExpression :: "calls \<Rightarrow> parser" where
  "ParseBracedExpression P = ParseDepthGuard (choice [
     P Expression,
     all_of [ParseTwoCharToken ''di'', ParseSourceName, P BracedExpression],
     all_of [ParseTwoCharToken ''dx'', P Expression, P BracedExpression],
     all_of [ParseTwoCharToken ''dX'', P Expression, P Expression, P BracedExpression]])"

definition ParseExpression :: "calls \<Rightarrow> parser" where
  "ParseExpression P = ParseDepthGuard (any_of [
     ParseTemplateParam, ParseFunctionParam, ParseExprPrimary P, ParseRequiresExpression P,
     ParseExpressionGuard (choice
       (ParseExpression_first P @ ParseExpression_second P @ ParseExpression_third P))])"

definition ParseLocalName :: "calls \<Rightarrow> parser" where
  "ParseLocalName P = ParseDepthGuard (ParseLocalNameGuard (choice [
     all_of [ParseOneCharToken CHR ''Z'', P Encoding, ParseOneCharToken CHR ''E'',
       does (MaybeAppend ''::''), P Name, Optional ParseDiscriminator],
     all_of [ParseOneCharToken CHR ''Z'', P Encoding, ParseTwoCharToken ''Es'',
       Optional ParseDiscriminator],
     all_of [ParseOneCharToken CHR ''Z'', P Encoding, ParseTwoCharToken ''Ed'',
       Optional ParseNonNegativeNumber_null, ParseOneCharToken CHR ''_'',
       does (MaybeAppend ''::''), P Name, Optional ParseDiscriminator]]))"

definition parse_body :: "calls \<Rightarrow> nonterm \<Rightarrow> parser" where
  "parse_body P nt = (case nt of
     Encoding \<Rightarrow> ParseEncoding P
   | Name \<Rightarrow> ParseName P
   | NestedName \<Rightarrow> ParseNestedName P
   | Prefix \<Rightarrow> ParsePrefix P
   | Type \<Rightarrow> ParseType P
   | TemplateArg \<Rightarrow> ParseTemplateArg P
   | BracedExpression \<Rightarrow> ParseBracedExpression P
   | Expression \<Rightarrow> ParseExpression P
   | LocalName \<Rightarrow> ParseLocalName P)"

primrec parse :: "nat \<Rightarrow> nonterm \<Rightarrow> parser" where
  "parse 0 nt s = Some (False, s)"
| "parse (Suc k) nt s = parse_body (parse k) nt s"

section \<open>\<open>Demangle\<close>\<close>

definition ParseTopLevelMangledName :: parser where
  "ParseTopLevelMangledName s =
     (case ParseMangledName (parse kMaxParseDepth) s of
        None \<Rightarrow> None
      | Some (False, s') \<Rightarrow> Some (False, s')
      | Some (True, s') \<Rightarrow>
          if peek s' 0 \<noteq> NUL then
            if peek s' 0 = CHR ''@'' then Some (True, MaybeAppend (mangled_cur s') s')
            else if peek s' 0 = CHR ''.'' \<and> peek s' 1 \<noteq> NUL then Some (True, s')
            else Some (False, s')
          else Some (True, s'))"

definition ValidDemangleArguments :: "string option \<Rightarrow> string option \<Rightarrow> bool" where
  "ValidDemangleArguments mangled out =
     (case (mangled, out) of (Some m, Some buf) \<Rightarrow> buf \<noteq> [] | _ \<Rightarrow> False)"

text \<open>
  \<open>Demangle(mangled, out, out_size)\<close> on the memory \<open>out\<close> of \<open>out_size\<close> characters; a null
  pointer is \<open>None\<close>.
\<close>

definition Demangle :: "string option \<Rightarrow> string option \<Rightarrow> (bool \<times> string option) option" where
  "Demangle mangled out =
     (let out1 = (case out of Some buf \<Rightarrow> Some (buf[0 := NUL]) | None \<Rightarrow> None)
      in case (mangled, out1) of
        (Some m, Some buf) \<Rightarrow>
          if \<not> ValidDemangleArguments mangled out1 then Some (False, out1)
          else (case ParseTopLevelMangledName (InitState m buf) of
              None \<Rightarrow> None
            | Some (ok, s) \<Rightarrow>
                if ok \<and> \<not> overflowed s then Some (True, Some (out_buf s))
                else Some (False, Some ((out_buf s)[0 := NUL])))
      | _ \<Rightarrow> Some (False, out1))"

end
