(* ===== verification/DemangleFacts.thy ===== *)
theory DemangleFacts imports DemangleParser "HOL-Library.Sublist" begin

text \<open>
  What every parsing function of \<open>DemangleParser\<close> keeps. \<open>sound p\<close>: from a well-formed state
  the function returns (its loops end), the state stays well-formed, the cursor only moves
  forward in the input, the levels are balanced, the output buffer keeps its size and its last
  character is kept or becomes the terminator. \<open>consuming p\<close>: it moreover consumes input when it
  returns true. \<open>clean p\<close>: when it returns false the state is the one before the call, except
  for the memory of the output and the steps used up.

  The rules go through the combinators, so that the lemma on each function is one application of
  the rule sets; the calls to the guarded functions are the locale \<open>parser_calls\<close>.
\<close>

named_theorems parser_sound \<open>rules for sound\<close>
named_theorems parser_consuming \<open>rules for consuming\<close>
named_theorems parser_clean \<open>rules for clean\<close>

section \<open>The predicates\<close>

definition wf_state :: "dstate \<Rightarrow> bool" where
  "wf_state s \<longleftrightarrow> out_cur s < length (out_buf s)
     \<and> (case prev_name s of None \<Rightarrow> True
        | Some p \<Rightarrow> 0 \<le> prev_name_length s \<and> p + nat (prev_name_length s) < length (out_buf s))"

definition evolves :: "dstate \<Rightarrow> dstate \<Rightarrow> bool" where
  "evolves s s' \<longleftrightarrow>
     suffix (mangled_cur s') (mangled_cur s)
     \<and> steps_remaining s' \<le> steps_remaining s
     \<and> length (out_buf s') = length (out_buf s)
     \<and> (out_buf s' ! (length (out_buf s) - 1) = out_buf s ! (length (out_buf s) - 1)
        \<or> out_buf s' ! (length (out_buf s) - 1) = NUL)
     \<and> local_level s' = local_level s \<and> expr_level s' = expr_level s
     \<and> arg_level s' = arg_level s \<and> encoding_level s' = encoding_level s
     \<and> type_level s' = type_level s \<and> parse_depth s' = parse_depth s"

definition ok_result :: "dstate \<Rightarrow> (bool \<times> dstate) option \<Rightarrow> bool" where
  "ok_result s r \<longleftrightarrow> (case r of None \<Rightarrow> False | Some (b, s') \<Rightarrow> wf_state s' \<and> evolves s s')"

definition sound :: "parser \<Rightarrow> bool" where
  "sound p \<longleftrightarrow> (\<forall>s. wf_state s \<longrightarrow> ok_result s (p s))"

definition consuming :: "parser \<Rightarrow> bool" where
  "consuming p \<longleftrightarrow> sound p \<and> (\<forall>s s'. wf_state s \<longrightarrow> p s = Some (True, s')
     \<longrightarrow> length (mangled_cur s') < length (mangled_cur s))"

definition clean :: "parser \<Rightarrow> bool" where
  "clean p \<longleftrightarrow> (\<forall>s s'. p s = Some (False, s') \<longrightarrow> s' = restore s s')"

lemma evolves_refl [simp, intro]: "evolves s s"
  by (simp add: evolves_def)

lemma evolves_trans [trans]: "evolves s s' \<Longrightarrow> evolves s' s'' \<Longrightarrow> evolves s s''"
  by (auto simp: evolves_def dest: suffix_order.order_trans)

lemma evolves_length: "evolves s s' \<Longrightarrow> length (mangled_cur s') \<le> length (mangled_cur s)"
  by (simp add: evolves_def suffix_length_le)

lemma soundD: "sound p \<Longrightarrow> wf_state s \<Longrightarrow> ok_result s (p s)"
  by (simp add: sound_def)

lemma soundE:
  assumes "sound p" and "wf_state s"
  obtains b s' where "p s = Some (b, s')" and "wf_state s'" and "evolves s s'"
  using assms unfolding sound_def ok_result_def
  by (metis (no_types, lifting) case_optionE case_prodE)

lemma consuming_sound: "consuming p \<Longrightarrow> sound p"
  by (simp add: consuming_def)

lemma consumingD:
  "consuming p \<Longrightarrow> wf_state s \<Longrightarrow> p s = Some (True, s')
     \<Longrightarrow> length (mangled_cur s') < length (mangled_cur s)"
  by (simp add: consuming_def)

lemma soundI:
  assumes "\<And>s. wf_state s \<Longrightarrow> ok_result s (p s)"
  shows "sound p"
  using assms by (simp add: sound_def)

lemma consumingI:
  assumes "sound p"
    and "\<And>s s'. wf_state s \<Longrightarrow> p s = Some (True, s')
           \<Longrightarrow> length (mangled_cur s') < length (mangled_cur s)"
  shows "consuming p"
  using assms by (simp add: consuming_def)

lemma ok_result_Some [simp]: "ok_result s (Some (b, s')) \<longleftrightarrow> wf_state s' \<and> evolves s s'"
  by (simp add: ok_result_def)

lemma ok_result_trans: "evolves s s1 \<Longrightarrow> ok_result s1 r \<Longrightarrow> ok_result s r"
  by (auto simp: ok_result_def intro: evolves_trans split: option.splits)

section \<open>Backtracking\<close>

lemma restore_simps [simp]:
  "mangled_cur (restore c s) = mangled_cur c"
  "out_buf (restore c s) = out_buf s"
  "steps_remaining (restore c s) = steps_remaining s"
  "restore c (restore c s) = restore c s"
  "restore (restore c s) t = restore c t"
  "restore s s = s"
  by (simp_all add: restore_def)

lemma wf_restore:
  "wf_state c \<Longrightarrow> evolves c s \<Longrightarrow> wf_state (restore c s)"
  by (auto simp: wf_state_def evolves_def restore_def split: option.splits)

lemma evolves_restore: "evolves c s \<Longrightarrow> evolves c (restore c s)"
  by (simp add: evolves_def restore_def)

section \<open>Rules for the combinators\<close>

lemma sound_all_of_Nil [parser_sound]: "sound (all_of [])"
  by (simp add: sound_def)

lemma sound_all_of_Cons [parser_sound]:
  assumes "sound p" and "sound (all_of ps)"
  shows "sound (all_of (p # ps))"
proof (rule soundI)
  fix s :: dstate
  assume "wf_state s"
  with assms(1) obtain b s1 where 1: "p s = Some (b, s1)" "wf_state s1" "evolves s s1"
    by (rule soundE)
  then show "ok_result s (all_of (p # ps) s)"
    using soundD [OF assms(2)] ok_result_trans by auto
qed

lemma sound_any_of_Nil [parser_sound]: "sound (any_of [])"
  by (simp add: sound_def)

lemma sound_any_of_Cons [parser_sound]:
  assumes "sound p" and "sound (any_of ps)"
  shows "sound (any_of (p # ps))"
proof (rule soundI)
  fix s :: dstate
  assume "wf_state s"
  with assms(1) obtain b s1 where 1: "p s = Some (b, s1)" "wf_state s1" "evolves s s1"
    by (rule soundE)
  then show "ok_result s (any_of (p # ps) s)"
    using soundD [OF assms(2)] ok_result_trans by auto
qed

lemma sound_choice_Nil [parser_sound]: "sound (choice [])"
  by (simp add: sound_def)

lemma sound_choice_Cons [parser_sound]:
  assumes "sound p" and "sound (choice ps)"
  shows "sound (choice (p # ps))"
proof (rule soundI)
  fix s :: dstate
  assume s: "wf_state s"
  with assms(1) obtain b s1 where 1: "p s = Some (b, s1)" "wf_state s1" "evolves s s1"
    by (rule soundE)
  have "ok_result s (choice ps (restore s s1))"
    using ok_result_trans [OF evolves_restore [OF 1(3)] soundD [OF assms(2) wf_restore [OF s 1(3)]]] .
  then show "ok_result s (choice (p # ps) s)"
    using 1 by simp
qed

lemma sound_test [parser_sound]: "sound (test P)"
  by (simp add: sound_def test_def)

lemma sound_Optional [parser_sound]: "sound p \<Longrightarrow> sound (Optional p)"
  by (auto simp: sound_def Optional_def ok_result_def split: option.splits)

lemma choice_at: "sound (choice ps) \<Longrightarrow> wf_state s \<Longrightarrow> ok_result s (choice ps s)"
  by (rule soundD)

lemma all_of_at: "sound (all_of ps) \<Longrightarrow> wf_state s \<Longrightarrow> ok_result s (all_of ps s)"
  by (rule soundD)

text \<open>Consumption: the first parser of a chain that consumes.\<close>

lemma consuming_all_of_Cons:
  assumes "consuming p" and "sound (all_of ps)"
  shows "consuming (all_of (p # ps))"
proof (rule consumingI)
  show "sound (all_of (p # ps))"
    using assms by (simp add: sound_all_of_Cons consuming_sound)
  fix s s'
  assume s: "wf_state s" and r: "all_of (p # ps) s = Some (True, s')"
  obtain b s1 where 1: "p s = Some (b, s1)" "wf_state s1" "evolves s s1"
    using soundE [OF consuming_sound [OF assms(1)] s] .
  have b: "b" and r1: "all_of ps s1 = Some (True, s')"
    using r 1 by (auto split: if_splits)
  have "length (mangled_cur s') \<le> length (mangled_cur s1)"
    using soundD [OF assms(2) 1(2)] r1 evolves_length by simp
  moreover have "length (mangled_cur s1) < length (mangled_cur s)"
    using consumingD [OF assms(1) s] 1 b by simp
  ultimately show "length (mangled_cur s') < length (mangled_cur s)" by simp
qed

lemma consuming_skip:
  assumes "sound p" and "consuming (all_of ps)"
  shows "consuming (all_of (p # ps))"
proof (rule consumingI)
  show "sound (all_of (p # ps))"
    using assms by (simp add: sound_all_of_Cons consuming_sound)
  fix s s'
  assume s: "wf_state s" and r: "all_of (p # ps) s = Some (True, s')"
  obtain b s1 where 1: "p s = Some (b, s1)" "wf_state s1" "evolves s s1"
    using soundE [OF assms(1) s] .
  then have "all_of ps s1 = Some (True, s')"
    using r by (auto split: if_splits)
  then show "length (mangled_cur s') < length (mangled_cur s)"
    using consumingD [OF assms(2) 1(2)] evolves_length [OF 1(3)] by simp
qed

lemmas consuming_skip_does = consuming_skip [of "does f" for f]
lemmas consuming_skip_test = consuming_skip [of "test P" for P]
lemmas consuming_skip_Optional = consuming_skip [of "Optional p" for p]

lemma consuming_any_of_Nil: "consuming (any_of [])"
  by (simp add: consuming_def sound_def)

lemma consuming_any_of_Cons:
  assumes "consuming p" and "consuming (any_of ps)"
  shows "consuming (any_of (p # ps))"
proof (rule consumingI)
  show "sound (any_of (p # ps))"
    using assms by (simp add: sound_any_of_Cons consuming_sound)
  fix s s'
  assume s: "wf_state s" and r: "any_of (p # ps) s = Some (True, s')"
  obtain b s1 where 1: "p s = Some (b, s1)" "wf_state s1" "evolves s s1"
    using soundE [OF consuming_sound [OF assms(1)] s] .
  then show "length (mangled_cur s') < length (mangled_cur s)"
    using r consumingD [OF assms(1) s] consumingD [OF assms(2) 1(2), of s'] evolves_length [OF 1(3)]
    by (cases b) auto
qed

lemma consuming_choice_Nil: "consuming (choice [])"
  by (simp add: consuming_def sound_def)

lemma consuming_choice_Cons:
  assumes "consuming p" and "consuming (choice ps)"
  shows "consuming (choice (p # ps))"
proof (rule consumingI)
  show "sound (choice (p # ps))"
    using assms by (simp add: sound_choice_Cons consuming_sound)
  fix s s'
  assume s: "wf_state s" and r: "choice (p # ps) s = Some (True, s')"
  obtain b s1 where 1: "p s = Some (b, s1)" "wf_state s1" "evolves s s1"
    using soundE [OF consuming_sound [OF assms(1)] s] .
  then show "length (mangled_cur s') < length (mangled_cur s)"
    using r consumingD [OF assms(1) s] consumingD [OF assms(2) wf_restore [OF s 1(3)], of s']
    by (cases b) auto
qed

lemmas consuming_structure =
  consuming_skip_does consuming_skip_test consuming_skip_Optional consuming_all_of_Cons
  consuming_any_of_Nil consuming_any_of_Cons consuming_choice_Nil consuming_choice_Cons

lemma consuming_choice_at:
  "consuming (choice ps) \<Longrightarrow> wf_state s \<Longrightarrow> choice ps s = Some (True, s')
     \<Longrightarrow> length (mangled_cur s') < length (mangled_cur s)"
  by (rule consumingD)

text \<open>A function whose alternatives depend on the state at its call.\<close>

lemma consuming_pointwise:
  assumes "\<And>s. p s = f s s" and "\<And>x. consuming (f x)"
  shows "consuming p"
  using assms unfolding consuming_def sound_def by metis

lemma sound_pointwise:
  assumes "\<And>s. p s = f s s" and "\<And>x. sound (f x)"
  shows "sound p"
  using assms unfolding sound_def by metis

lemma clean_pointwise:
  assumes "\<And>s. p s = f s s" and "\<And>x. clean (f x)"
  shows "clean p"
  using assms unfolding clean_def by metis

text \<open>Cleanness: a \<open>choice\<close> is clean whatever its alternatives are.\<close>

lemma clean_choice [parser_clean]: "clean (choice ps)"
proof -
  have "choice ps s = Some (False, s') \<Longrightarrow> s' = restore s s'" for s s'
  proof (induction ps arbitrary: s)
    case (Cons p ps)
    then show ?case
      by (auto split: option.splits if_splits) (metis restore_simps(5))
  qed simp
  then show ?thesis by (simp add: clean_def)
qed

lemma clean_any_of_Nil [parser_clean]: "clean (any_of [])"
  by (simp add: clean_def)

lemma clean_any_of_Cons [parser_clean]:
  assumes "clean p" and "clean (any_of ps)"
  shows "clean (any_of (p # ps))"
  unfolding clean_def
proof (intro allI impI)
  fix s s'
  assume r: "any_of (p # ps) s = Some (False, s')"
  then obtain s1 where 1: "p s = Some (False, s1)" "any_of ps s1 = Some (False, s')"
    by (auto split: option.splits if_splits)
  then have "s1 = restore s s1" "s' = restore s1 s'"
    using assms by (auto simp: clean_def)
  then show "s' = restore s s'" by (metis restore_simps(5))
qed

lemma clean_all_of_does: "clean p \<Longrightarrow> clean (all_of [p, does f])"
  by (auto simp: clean_def does_def split: option.splits if_splits)

section \<open>Loops\<close>

text \<open>
  A body that returns, keeps the state well-formed and consumes input whenever it goes on: then
  the loop ends within the rounds that \<open>run_loop\<close> allows.
\<close>

definition sound_step :: "('a \<Rightarrow> dstate \<Rightarrow> ('a step \<times> dstate) option) \<Rightarrow> bool" where
  "sound_step body \<longleftrightarrow> (\<forall>x s. wf_state s \<longrightarrow> (case body x s of
     None \<Rightarrow> False
   | Some (r, s') \<Rightarrow> wf_state s' \<and> evolves s s'
       \<and> (case r of Next y \<Rightarrow> length (mangled_cur s') < length (mangled_cur s) | Stop b \<Rightarrow> True)))"

lemma loop_sound:
  assumes "sound_step body" and "wf_state s" and "length (mangled_cur s) < n"
  shows "ok_result s (loop n body x s)"
  using assms(2,3)
proof (induction n arbitrary: x s)
  case (Suc n)
  obtain r s1 where r: "body x s = Some (r, s1)" "wf_state s1" "evolves s s1"
    "case r of Next y \<Rightarrow> length (mangled_cur s1) < length (mangled_cur s) | Stop b \<Rightarrow> True"
    using assms(1) Suc.prems(1) unfolding sound_step_def by (force split: option.splits)
  show ?case
  proof (cases r)
    case (Next y)
    then have "ok_result s1 (loop n body y s1)" using Suc r by simp
    then show ?thesis using r Next ok_result_trans by auto
  qed (use r in auto)
qed simp

lemma sound_run_loop: "sound_step body \<Longrightarrow> sound (run_loop body x)"
  by (rule soundI) (simp add: run_loop_def loop_sound del: loop.simps)

text \<open>The body of a loop over one parser.\<close>

lemma sound_step_call:
  assumes "consuming p" and "wf_state s"
  shows "case (case p s of None \<Rightarrow> None
       | Some (b, s') \<Rightarrow> Some (if b then Next y else Stop c, s')) of
     None \<Rightarrow> False
   | Some (r, s') \<Rightarrow> wf_state s' \<and> evolves s s'
       \<and> (case r of Next y \<Rightarrow> length (mangled_cur s') < length (mangled_cur s) | Stop b \<Rightarrow> True)"
proof -
  obtain b s' where "p s = Some (b, s')" "wf_state s'" "evolves s s'"
    using soundE [OF consuming_sound [OF assms(1)] assms(2)] .
  then show ?thesis using consumingD [OF assms, of s'] by (cases b) simp_all
qed

lemma sound_loop_call:
  assumes "consuming p"
  shows "sound (run_loop (\<lambda>x s. if c s then (case p s of None \<Rightarrow> None
       | Some (b, s') \<Rightarrow> Some (if b then Next y else Stop d, s')) else Some (Stop (e x), s)) x0)"
  by (rule sound_run_loop) (simp add: sound_step_def sound_step_call [OF assms])

lemma sound_ZeroOrMore [parser_sound]: "consuming p \<Longrightarrow> sound (ZeroOrMore p)"
  unfolding ZeroOrMore_def by (rule sound_run_loop) (simp add: sound_step_def sound_step_call)

lemma consuming_OneOrMore [parser_consuming]: "consuming p \<Longrightarrow> consuming (OneOrMore p)"
  unfolding OneOrMore_def
  by (intro consuming_all_of_Cons sound_all_of_Cons sound_all_of_Nil sound_ZeroOrMore)

section \<open>Tokens\<close>

lemma wf_advance [simp]: "wf_state (advance n s) = wf_state s"
  by (simp add: wf_state_def advance_def cong: option.case_cong)

lemma evolves_advance [simp]: "evolves s (advance n s)"
  by (simp add: evolves_def advance_def suffix_drop)

lemma length_advance: "length (mangled_cur (advance n s)) = length (mangled_cur s) - n"
  by (simp add: advance_def)

lemma wf_set_cur [simp]: "wf_state (s\<lparr>mangled_cur := p\<rparr>) = wf_state s"
  by (simp add: wf_state_def cong: option.case_cong)

lemma evolves_set_cur: "suffix p (mangled_cur s) \<Longrightarrow> evolves s (s\<lparr>mangled_cur := p\<rparr>)"
  by (simp add: evolves_def)

lemma peek_nonempty: "peek s 0 \<noteq> NUL \<Longrightarrow> mangled_cur s \<noteq> []"
  by auto

lemma consuming_ParseOneCharToken [parser_consuming]:
  assumes "c \<noteq> NUL"
  shows "consuming (ParseOneCharToken c)"
proof (rule consumingI)
  show "sound (ParseOneCharToken c)"
    by (simp add: sound_def ParseOneCharToken_def)
  show "length (mangled_cur s') < length (mangled_cur s)"
    if "ParseOneCharToken c s = Some (True, s')" for s s'
    using that assms peek_nonempty [of s]
    by (auto simp: ParseOneCharToken_def length_advance split: if_splits)
qed

lemma consuming_ParseTwoCharToken [parser_consuming]:
  assumes "length tok = 2"
  shows "consuming (ParseTwoCharToken tok)"
proof (rule consumingI)
  show "sound (ParseTwoCharToken tok)"
    by (simp add: sound_def ParseTwoCharToken_def)
  show "length (mangled_cur s') < length (mangled_cur s)"
    if "ParseTwoCharToken tok s = Some (True, s')" for s s'
  proof -
    have "take 2 (mangled_cur s) = tok" and s': "s' = advance 2 s"
      using that by (auto simp: ParseTwoCharToken_def split: if_splits)
    then have "2 \<le> length (mangled_cur s)" using assms by (metis length_take min.absorb_iff2 min.commute)
    then show ?thesis by (simp add: s' length_advance)
  qed
qed

lemma consuming_ParseCharClass [parser_consuming]: "consuming (ParseCharClass cs)"
proof (rule consumingI)
  show "sound (ParseCharClass cs)"
    by (simp add: sound_def ParseCharClass_def)
  show "length (mangled_cur s') < length (mangled_cur s)"
    if "ParseCharClass cs s = Some (True, s')" for s s'
    using that peek_nonempty [of s]
    by (auto simp: ParseCharClass_def length_advance split: if_splits)
qed

lemma clean_tokens [parser_clean]:
  "clean (ParseOneCharToken c)" "clean (ParseTwoCharToken tok)" "clean (ParseCharClass cs)"
  by (auto simp: clean_def ParseOneCharToken_def ParseTwoCharToken_def ParseCharClass_def
      split: if_splits)

section \<open>Output\<close>

text \<open>A function on the state that \<open>does\<close> may apply.\<close>

definition tame :: "(dstate \<Rightarrow> dstate) \<Rightarrow> bool" where
  "tame f \<longleftrightarrow> (\<forall>s. wf_state s \<longrightarrow> wf_state (f s) \<and> evolves s (f s))"

lemma tameD: "tame f \<Longrightarrow> wf_state s \<Longrightarrow> wf_state (f s)" "tame f \<Longrightarrow> wf_state s \<Longrightarrow> evolves s (f s)"
  by (simp_all add: tame_def)

lemma sound_does [parser_sound]: "tame f \<Longrightarrow> sound (does f)"
  by (simp add: sound_def does_def tame_def)

lemma tame_comp: "tame f \<Longrightarrow> tame g \<Longrightarrow> tame (\<lambda>s. f (g s))"
  unfolding tame_def using evolves_trans by blast

text \<open>Everything but the output and the remembered name.\<close>

definition same_input :: "dstate \<Rightarrow> dstate \<Rightarrow> bool" where
  "same_input s s' \<longleftrightarrow>
     mangled_cur s' = mangled_cur s \<and> steps_remaining s' = steps_remaining s
     \<and> append_mode s' = append_mode s \<and> nest_level s' = nest_level s
     \<and> skip_separator s' = skip_separator s
     \<and> local_level s' = local_level s \<and> expr_level s' = expr_level s
     \<and> arg_level s' = arg_level s \<and> encoding_level s' = encoding_level s
     \<and> type_level s' = type_level s \<and> parse_depth s' = parse_depth s"

text \<open>
  What writing to the output keeps: the terminator position stays inside the buffer, and only
  the terminator can be written to the last character.
\<close>

definition output_ok :: "dstate \<Rightarrow> dstate \<Rightarrow> bool" where
  "output_ok s s' \<longleftrightarrow>
     length (out_buf s') = length (out_buf s) \<and> out_cur s' < length (out_buf s)
     \<and> (out_buf s' ! (length (out_buf s) - 1) = out_buf s ! (length (out_buf s) - 1)
        \<or> out_buf s' ! (length (out_buf s) - 1) = NUL)"

lemma output_ok_trans: "output_ok s s' \<Longrightarrow> output_ok s' s'' \<Longrightarrow> output_ok s s''"
  by (auto simp: output_ok_def)

lemma same_input_trans: "same_input s s' \<Longrightarrow> same_input s' s'' \<Longrightarrow> same_input s s''"
  by (simp add: same_input_def)

lemma append_loop_all:
  "out_cur s < length (out_buf s) \<Longrightarrow>
     output_ok s (append_loop n str i s) \<and> same_input s (append_loop n str i s)
     \<and> prev_name (append_loop n str i s) = prev_name s
     \<and> prev_name_length (append_loop n str i s) = prev_name_length s
     \<and> (\<not> overflowed (append_loop n str i s) \<longrightarrow> out_cur (append_loop n str i s) = out_cur s + n)"
proof (induction n arbitrary: i s)
  case (Suc n)
  let ?s = "s\<lparr>out_buf := (out_buf s)[out_cur s := source_char str (out_buf s) i],
                out_cur := out_cur s + 1\<rparr>"
  show ?case
  proof (cases "1 < length (out_buf s) - out_cur s")
    case True
    then have eq: "append_loop (Suc n) str i s = append_loop n str (i + 1) ?s" by simp
    have step: "output_ok s ?s" "same_input s ?s"
      using True by (auto simp: output_ok_def same_input_def nth_list_update)
    have IH: "output_ok ?s (append_loop n str (i + 1) ?s) \<and> same_input ?s (append_loop n str (i + 1) ?s)
       \<and> prev_name (append_loop n str (i + 1) ?s) = prev_name ?s
       \<and> prev_name_length (append_loop n str (i + 1) ?s) = prev_name_length ?s
       \<and> (\<not> overflowed (append_loop n str (i + 1) ?s)
            \<longrightarrow> out_cur (append_loop n str (i + 1) ?s) = out_cur ?s + n)"
      using True by (intro Suc.IH) simp
    show ?thesis
      unfolding eq using IH output_ok_trans [OF step(1)] same_input_trans [OF step(2)] by simp
  next
    case False
    then have "append_loop (Suc n) str i s = s\<lparr>overflowed := True\<rparr>" by simp
    then show ?thesis using Suc.prems by (simp add: output_ok_def same_input_def)
  qed
qed (simp add: output_ok_def same_input_def)

lemma append_loop_facts:
  assumes "out_cur s < length (out_buf s)"
  shows "output_ok s (append_loop n str i s)"
    and "same_input s (append_loop n str i s)"
    and "prev_name (append_loop n str i s) = prev_name s"
    and "prev_name_length (append_loop n str i s) = prev_name_length s"
    and "\<not> overflowed (append_loop n str i s) \<Longrightarrow> out_cur (append_loop n str i s) = out_cur s + n"
  using append_loop_all [OF assms, of n str i] by auto

lemma Append_facts:
  assumes "out_cur s < length (out_buf s)"
  shows "output_ok s (Append str len s)" and "same_input s (Append str len s)"
    and "prev_name (Append str len s) = prev_name s"
    and "prev_name_length (Append str len s) = prev_name_length s"
    and "\<not> overflowed (Append str len s) \<Longrightarrow> out_cur (Append str len s) = out_cur s + nat len"
proof -
  note l = append_loop_facts [OF assms, of "nat len" str 0]
  have len: "length (out_buf (append_loop (nat len) str 0 s)) = length (out_buf s)"
    using l(1) by (simp add: output_ok_def)
  show "output_ok s (Append str len s)"
    using l(1) len by (auto simp: Append_def Let_def output_ok_def nth_list_update)
  show "same_input s (Append str len s)"
    using l(2) by (simp add: Append_def Let_def same_input_def)
  show "prev_name (Append str len s) = prev_name s"
    "prev_name_length (Append str len s) = prev_name_length s"
    using l(3,4) by (simp_all add: Append_def Let_def)
  show "out_cur (Append str len s) = out_cur s + nat len" if "\<not> overflowed (Append str len s)"
    using that l(5) by (simp add: Append_def Let_def split: if_splits)
qed

lemma evolves_output:
  "output_ok s s' \<Longrightarrow> same_input s s' \<Longrightarrow> evolves s s'"
  by (simp add: output_ok_def same_input_def evolves_def)

lemma MaybeAppendWithLength_facts:
  assumes "wf_state s"
  shows "wf_state (MaybeAppendWithLength str len s)"
    and "output_ok s (MaybeAppendWithLength str len s)"
    and "same_input s (MaybeAppendWithLength str len s)"
proof -
  define s1 where "s1 = (if source_char str (out_buf s) 0 = CHR ''<'' \<and> 0 < out_cur s
                     \<and> at (out_buf s) (out_cur s - 1) = CHR ''<''
                  then Append (Literal '' '') 1 s else s)"
  define s2 where "s2 = Append str len s1"
  have s: "out_cur s < length (out_buf s)" using assms by (simp add: wf_state_def)
  note a = Append_facts [OF s, of "Literal '' ''" 1]
  have 1: "output_ok s s1" "same_input s s1" "prev_name s1 = prev_name s"
    "prev_name_length s1 = prev_name_length s"
    using a s by (auto simp: s1_def output_ok_def same_input_def)
  then have c1: "out_cur s1 < length (out_buf s1)" by (simp add: output_ok_def)
  note 2 = Append_facts [OF c1, of str len, folded s2_def]
  let ?name = "s2\<lparr>prev_name := Some (out_cur s1), prev_name_length := len\<rparr>"
  have r: "MaybeAppendWithLength str len s
      = (if append_mode s \<and> len > 0
         then (if \<not> overflowed s2 \<and> (IsAlpha (source_char str (out_buf s2) 0)
                    \<or> source_char str (out_buf s2) 0 = CHR ''_'')
               then ?name else s2) else s)"
    by (simp add: MaybeAppendWithLength_def Let_def s1_def s2_def)
  have o: "output_ok s s2" and i: "same_input s s2"
    using output_ok_trans [OF 1(1) 2(1)] same_input_trans [OF 1(2) 2(2)] by simp_all
  have "wf_state s2"
    using assms 1 2(1,3,4) o by (auto simp: wf_state_def output_ok_def split: option.splits)
  moreover have "wf_state ?name" if "\<not> overflowed s2" "0 < len"
    using 2(5) o that 1(1) by (auto simp: wf_state_def output_ok_def)
  ultimately show "wf_state (MaybeAppendWithLength str len s)"
    using assms r by simp
  show "output_ok s (MaybeAppendWithLength str len s)"
    "same_input s (MaybeAppendWithLength str len s)"
    using o i s unfolding r by (auto simp: output_ok_def same_input_def)
qed

named_theorems tame_rules \<open>functions that \<open>does\<close> applies\<close>

lemma tame_MaybeAppendWithLength [tame_rules]: "tame (MaybeAppendWithLength str len)"
  using MaybeAppendWithLength_facts evolves_output by (simp add: tame_def)

lemma tame_id: "tame (\<lambda>s. s)"
  by (simp add: tame_def)

lemma tame_if: "tame f \<Longrightarrow> tame g \<Longrightarrow> tame (\<lambda>s. if b s then f s else g s)"
  by (simp add: tame_def)

lemma tame_MaybeAppend [tame_rules]: "tame (MaybeAppend str)"
  using tameD [OF tame_MaybeAppendWithLength] by (simp add: tame_def MaybeAppend_def)

lemma tame_updates [tame_rules]:
  "tame EnterNestedName" "tame (LeaveNestedName n)" "tame DisableAppend" "tame (RestoreAppend b)"
  "tame (\<lambda>s. s\<lparr>skip_separator := b\<rparr>)" "tame (\<lambda>s. s\<lparr>pending_ref_qualifier := c\<rparr>)"
  "tame (advance k)" "tame MaybeIncreaseNestLevel"
  by (auto simp: tame_def EnterNestedName_def LeaveNestedName_def DisableAppend_def
      RestoreAppend_def MaybeIncreaseNestLevel_def wf_state_def evolves_def advance_def suffix_drop
      cong: option.case_cong)

lemma tame_MaybeAppendSeparator [tame_rules]: "tame MaybeAppendSeparator"
  using tame_MaybeAppend [of "''::''"] tame_updates(5) [of False]
  by (simp add: tame_def MaybeAppendSeparator_def)

lemma tame_MaybeCancelLastSeparator [tame_rules]: "tame MaybeCancelLastSeparator"
  by (auto simp: tame_def MaybeCancelLastSeparator_def wf_state_def evolves_def nth_list_update
      cong: option.case_cong)

lemma tame_append_ref_qualifier [tame_rules]: "tame append_ref_qualifier"
proof -
  have "tame (\<lambda>s. if pending_ref_qualifier s = CHR ''R'' then MaybeAppend '' &'' s
      else if pending_ref_qualifier s = CHR ''O'' then MaybeAppend '' &&'' s else s)"
    by (intro tame_if tame_MaybeAppend tame_id)
  from tame_comp [OF tame_updates(6) this] show ?thesis
    unfolding append_ref_qualifier_def [abs_def] .
qed

lemma tame_append_prev_name [tame_rules]: "tame (append_prev_name lead)"
  unfolding tame_def
proof (intro allI impI)
  fix s :: dstate
  let ?s1 = "if lead = '''' then s else MaybeAppend lead s"
  assume "wf_state s"
  then have 1: "wf_state ?s1" "evolves s ?s1"
    using tameD [OF tame_MaybeAppend [of lead]] by simp_all
  have "wf_state (MaybeAppendWithLength str len ?s1) \<and> evolves s (MaybeAppendWithLength str len ?s1)"
    for str len
    using tameD [OF tame_MaybeAppendWithLength 1(1)] evolves_trans [OF 1(2)] by blast
  then show "wf_state (append_prev_name lead s) \<and> evolves s (append_prev_name lead s)"
    using \<open>wf_state s\<close> by (cases "prev_name s") (simp_all only: append_prev_name_def option.case evolves_refl)
qed

lemma tame_substitution [tame_rules]:
  "tame (\<lambda>s. if b then MaybeAppend str (MaybeAppend str' s) else s)"
  by (rule tame_if [OF tame_comp [OF tame_MaybeAppend tame_MaybeAppend] tame_id])

lemma tame_operator [tame_rules]: "tame (\<lambda>s. if b then MaybeAppend str s else s)"
  by (rule tame_if [OF tame_MaybeAppend tame_id])

section \<open>Numbers and names\<close>

lemma consuming_set_cur:
  assumes "\<And>s s' b. p s = Some (b, s') \<Longrightarrow>
      (b \<longrightarrow> length (mangled_cur s') < length (mangled_cur s)) \<and>
      (\<exists>cur. s' = s\<lparr>mangled_cur := cur\<rparr> \<and> suffix cur (mangled_cur s))"
    and "\<And>s. p s \<noteq> None"
  shows "consuming p"
proof (intro consumingI soundI)
  show "ok_result s (p s)" if "wf_state s" for s
  proof -
    obtain b s' where r: "p s = Some (b, s')" using assms(2) by fastforce
    then obtain cur where "s' = s\<lparr>mangled_cur := cur\<rparr>" "suffix cur (mangled_cur s)"
      using assms(1) by blast
    then show ?thesis using that r evolves_set_cur by simp
  qed
  show "length (mangled_cur s') < length (mangled_cur s)" if "p s = Some (True, s')" for s s'
    using assms(1) [OF that] by simp
qed

lemma restore_advance [simp]: "restore s (advance n s) = s"
  by (simp add: restore_def advance_def)

lemma advance_eq: "advance n s = s\<lparr>mangled_cur := drop n (mangled_cur s)\<rparr>"
  by (simp add: advance_def)

lemma suffix_drop_dropWhile: "suffix (dropWhile P (drop n xs)) xs"
  using suffix_dropWhile suffix_drop suffix_order.order_trans by blast

lemma self_update: "s = s\<lparr>mangled_cur := mangled_cur s\<rparr>"
  by simp

lemma ParseNumber_null_cases:
  assumes "ParseNumber_null s = Some (b, s')"
  shows "if b then length (mangled_cur s') < length (mangled_cur s)
             \<and> (\<exists>cur. s' = s\<lparr>mangled_cur := cur\<rparr> \<and> suffix cur (mangled_cur s))
         else s' = s"
proof -
  define n where "n = (if peek s 0 = CHR ''n'' then 1 else (0::nat))"
  have s1: "(if peek s 0 = CHR ''n'' then advance 1 s else s) = advance n s"
    by (simp add: n_def advance_def)
  let ?p = "dropWhile IsDigit (drop n (mangled_cur s))"
  have "s' = (advance n s)\<lparr>mangled_cur := ?p\<rparr> \<and> b \<and> length ?p \<noteq> length (drop n (mangled_cur s))
      \<or> \<not> b \<and> s' = s"
    using assms unfolding ParseNumber_null_def s1
    by (auto simp: Let_def advance_eq restore_def split: if_splits)
  moreover have "length ?p \<le> length (drop n (mangled_cur s))"
    by (rule suffix_length_le) (rule suffix_dropWhile)
  ultimately show ?thesis
    by (cases b) (auto simp: advance_eq suffix_drop_dropWhile)
qed

lemma ParseNumber_null_total: "ParseNumber_null s \<noteq> None"
  by (simp add: ParseNumber_null_def Let_def del: not_None_eq)

lemma consuming_ParseNumber_null [parser_consuming]: "consuming ParseNumber_null"
proof (rule consuming_set_cur)
  fix s s' b
  assume r: "ParseNumber_null s = Some (b, s')"
  have "\<exists>cur. s = s\<lparr>mangled_cur := cur\<rparr> \<and> suffix cur (mangled_cur s)"
    by (rule exI [of _ "mangled_cur s"]) simp
  then show "(b \<longrightarrow> length (mangled_cur s') < length (mangled_cur s)) \<and>
      (\<exists>cur. s' = s\<lparr>mangled_cur := cur\<rparr> \<and> suffix cur (mangled_cur s))"
    using ParseNumber_null_cases [OF r] by (cases b) simp_all
qed (rule ParseNumber_null_total)

lemma clean_ParseNumber_null [parser_clean]: "clean ParseNumber_null"
  using ParseNumber_null_cases by (fastforce simp: clean_def)

lemma consuming_guarded:
  assumes "consuming p"
  shows "consuming (\<lambda>s. if c s then Some (False, s) else p s)"
proof (intro consumingI soundI)
  show "ok_result s (if c s then Some (False, s) else p s)" if "wf_state s" for s
    using soundD [OF consuming_sound [OF assms] that] that by simp
  show "length (mangled_cur s') < length (mangled_cur s)"
    if "wf_state s" "(if c s then Some (False, s) else p s) = Some (True, s')" for s s'
    using that consumingD [OF assms] by (auto split: if_splits)
qed

lemma clean_guarded: "clean p \<Longrightarrow> clean (\<lambda>s. if c s then Some (False, s) else p s)"
  by (simp add: clean_def)

lemma consuming_ParseNonNegativeNumber_null [parser_consuming]:
  "consuming ParseNonNegativeNumber_null"
  unfolding ParseNonNegativeNumber_null_def [abs_def]
  by (rule consuming_guarded [OF consuming_ParseNumber_null])

lemma consuming_ParsePositiveNumber_null [parser_consuming]: "consuming ParsePositiveNumber_null"
  unfolding ParsePositiveNumber_null_def [abs_def]
  by (rule consuming_guarded [OF consuming_ParseNumber_null])

lemma clean_numbers_null [parser_clean]:
  "clean ParseNonNegativeNumber_null" "clean ParsePositiveNumber_null"
  unfolding ParseNonNegativeNumber_null_def [abs_def] ParsePositiveNumber_null_def [abs_def]
  by (rule clean_guarded [OF clean_ParseNumber_null])+

lemma number_loop_suffix: "number_loop limit n p = Some (m, p') \<Longrightarrow> suffix p' p"
  by (induction limit n p rule: number_loop.induct)
    (auto simp: Let_def suffix_Cons split: if_splits)

lemma ParseNumber_cases:
  assumes "ParseNumber s = (b, n, s')"
  shows "(b \<longrightarrow> length (mangled_cur s') < length (mangled_cur s))
     \<and> (\<exists>cur. s' = s\<lparr>mangled_cur := cur\<rparr> \<and> suffix cur (mangled_cur s))"
proof -
  define k where "k = (if peek s 0 = CHR ''n'' then 1 else (0::nat))"
  have s1: "(if peek s 0 = CHR ''n'' then advance 1 s else s) = advance k s"
    by (simp add: k_def advance_def)
  let ?limit = "if peek s 0 = CHR ''n'' then kMaxNegative else kMaxPositive"
  have "s' = s \<and> \<not> b \<or> s' = advance k s \<and> \<not> b
      \<or> b \<and> (\<exists>m p. number_loop ?limit 0 (drop k (mangled_cur s)) = Some (m, p)
             \<and> length p \<noteq> length (drop k (mangled_cur s)) \<and> s' = s\<lparr>mangled_cur := p\<rparr>)"
    using assms unfolding ParseNumber_def s1 Let_def
    by (auto simp: advance_eq restore_def simp del: length_drop split: if_splits option.splits prod.splits)
  then show ?thesis
  proof (elim disjE conjE exE)
    fix m p
    assume n: "number_loop ?limit 0 (drop k (mangled_cur s)) = Some (m, p)"
      and len: "length p \<noteq> length (drop k (mangled_cur s))" and s': "s' = s\<lparr>mangled_cur := p\<rparr>"
    have suf: "suffix p (drop k (mangled_cur s))" by (rule number_loop_suffix [OF n])
    then have "length p < length (drop k (mangled_cur s))"
      using suffix_length_le [OF suf] len by linarith
    then show ?thesis
      using s' suffix_order.order_trans [OF suf suffix_drop] by auto
  qed (auto simp: advance_eq suffix_drop intro: self_update)
qed

lemma restore_cur: "restore s (s\<lparr>mangled_cur := cur\<rparr>) = s"
  by (simp add: restore_def)

lemma ParseNonNegativeNumber_cases:
  assumes "ParseNonNegativeNumber s = (b, n, s')"
  shows "if b then 0 \<le> n \<and> length (mangled_cur s') < length (mangled_cur s)
             \<and> (\<exists>cur. s' = s\<lparr>mangled_cur := cur\<rparr> \<and> suffix cur (mangled_cur s)) else s' = s"
proof -
  obtain b1 n1 s1 where r: "ParseNumber s = (b1, n1, s1)" by (metis prod_cases3)
  show ?thesis
    using assms ParseNumber_cases [OF r] r restore_cur
    by (auto simp: ParseNonNegativeNumber_def split: if_splits)
qed

lemma ParsePositiveNumber_cases:
  assumes "ParsePositiveNumber s = (b, n, s')"
  shows "if b then 0 < n \<and> length (mangled_cur s') < length (mangled_cur s)
             \<and> (\<exists>cur. s' = s\<lparr>mangled_cur := cur\<rparr> \<and> suffix cur (mangled_cur s)) else s' = s"
proof -
  obtain b1 n1 s1 where r: "ParseNonNegativeNumber s = (b1, n1, s1)" by (metis prod_cases3)
  show ?thesis
    using assms ParseNonNegativeNumber_cases [OF r] r restore_cur
    by (auto simp: ParsePositiveNumber_def split: if_splits)
qed

lemma sound_ParseIdentifier [parser_sound]: "sound (ParseIdentifier len)"
proof (rule soundI)
  fix s :: dstate
  assume s: "wf_state s"
  show "ok_result s (ParseIdentifier len s)"
    using s tameD [OF tame_MaybeAppend s] tameD [OF tame_MaybeAppendWithLength s]
      evolves_trans [OF _ evolves_advance]
    by (simp add: ParseIdentifier_def Let_def)
qed

lemma consuming_source_name:
  "consuming (\<lambda>s. let (ok, len, s1) = ParsePositiveNumber s
      in if ok \<and> len \<le> ssize_max then ParseIdentifier len s1 else Some (False, s1))"
    (is "consuming ?p")
proof -
  have step: "ok_result s (?p s) \<and> (\<forall>s'. ?p s = Some (True, s')
        \<longrightarrow> length (mangled_cur s') < length (mangled_cur s))" if s: "wf_state s" for s
  proof -
    obtain ok len s1 where r: "ParsePositiveNumber s = (ok, len, s1)" by (metis prod_cases3)
    show ?thesis
    proof (cases "ok \<and> len \<le> ssize_max")
      case False
      then show ?thesis
        using r s ParsePositiveNumber_cases [OF r] evolves_set_cur by (cases ok) auto
    next
      case True
      then obtain cur where s1: "s1 = s\<lparr>mangled_cur := cur\<rparr>" "suffix cur (mangled_cur s)"
        and shorter: "length (mangled_cur s1) < length (mangled_cur s)"
        using ParsePositiveNumber_cases [OF r] by auto
      have wf: "wf_state s1" and ev: "evolves s s1" using s s1 evolves_set_cur by simp_all
      obtain b s' where i: "ParseIdentifier len s1 = Some (b, s')" "wf_state s'" "evolves s1 s'"
        using soundE [OF sound_ParseIdentifier wf] .
      then show ?thesis
        using True r shorter evolves_length [OF i(3)] evolves_trans [OF ev i(3)] by auto
    qed
  qed
  show ?thesis
    by (intro consumingI soundI) (use step in blast)+
qed

lemma consuming_ParseSourceName [parser_consuming]: "consuming ParseSourceName"
  unfolding ParseSourceName_def by (rule consuming_source_name consuming_structure)+

lemma clean_ParseSourceName [parser_clean]: "clean ParseSourceName"
  unfolding ParseSourceName_def by (rule clean_choice)

text \<open>
  From here on a lemma on a function is its definition and the rule sets: consumption comes from
  the first parser of a chain that is not optional.
\<close>

lemma consuming_ParseAbiTag [parser_consuming]: "consuming ParseAbiTag"
  unfolding ParseAbiTag_def
  by (rule parser_consuming consuming_structure parser_sound tame_rules consuming_sound | simp; fail)+

lemma consuming_ParseAbiTags [parser_consuming]: "consuming ParseAbiTags"
proof (rule consuming_pointwise)
  show "consuming (choice [all_of [does DisableAppend, OneOrMore ParseAbiTag,
      does (RestoreAppend (append_mode x))]])" for x
    by (rule parser_consuming consuming_structure parser_sound tame_rules consuming_sound | simp; fail)+
qed (rule ParseAbiTags_def)

lemma clean_ParseAbiTags [parser_clean]: "clean ParseAbiTags"
  by (rule clean_pointwise [OF ParseAbiTags_def clean_choice])

lemma sound_discriminator [parser_sound]:
  "sound (\<lambda>s. let (ok, number, s1) = ParseNonNegativeNumber s in Some (ok \<and> c number, s1))"
proof (rule soundI)
  fix s :: dstate
  assume s: "wf_state s"
  obtain ok n s1 where r: "ParseNonNegativeNumber s = (ok, n, s1)" by (metis prod_cases3)
  show "ok_result s (let (ok, number, s1) = ParseNonNegativeNumber s in Some (ok \<and> c number, s1))"
    using ParseNonNegativeNumber_cases [OF r] r s evolves_set_cur by (cases ok) auto
qed

lemma consuming_ParseDiscriminator [parser_consuming]: "consuming ParseDiscriminator"
  unfolding ParseDiscriminator_def
  by (rule parser_consuming consuming_structure parser_sound consuming_sound | simp; fail)+

lemma consuming_ParseLocalSourceName [parser_consuming]: "consuming ParseLocalSourceName"
  unfolding ParseLocalSourceName_def
  by (rule parser_consuming consuming_structure parser_sound consuming_sound | simp; fail)+

lemma sound_binding_names [parser_sound]: "sound binding_names"
  unfolding binding_names_def
proof (rule sound_run_loop, unfold sound_step_def, intro allI impI)
  fix x :: unit and s :: dstate
  assume s: "wf_state s"
  let ?s1 = "MaybeAppend '', '' s"
  have s1: "wf_state ?s1" "evolves s ?s1"
    using tameD [OF tame_MaybeAppend s] by simp_all
  obtain b s2 where r: "ParseSourceName ?s1 = Some (b, s2)" "wf_state s2" "evolves ?s1 s2"
    using soundE [OF consuming_sound [OF consuming_ParseSourceName] s1(1)] .
  have ev: "evolves s s2" by (rule evolves_trans [OF s1(2) r(3)])
  show "case (if peek s 0 \<noteq> CHR ''E'' then
       (case ParseSourceName (MaybeAppend '', '' s) of
          None \<Rightarrow> None
        | Some (True, s') \<Rightarrow> Some (Next (), s')
        | Some (False, s') \<Rightarrow> Some (Stop True, restore s s'))
     else Some (Stop True, s)) of
     None \<Rightarrow> False
   | Some (r, s') \<Rightarrow> wf_state s' \<and> evolves s s'
       \<and> (case r of Next y \<Rightarrow> length (mangled_cur s') < length (mangled_cur s) | Stop b \<Rightarrow> True)"
    using s r ev evolves_length [OF s1(2)] consumingD [OF consuming_ParseSourceName s1(1), of s2]
      wf_restore [OF s ev] evolves_restore [OF ev]
    by (cases b) auto
qed

lemma consuming_ParseStructuredBindingName [parser_consuming]: "consuming ParseStructuredBindingName"
  unfolding ParseStructuredBindingName_def
  by (rule parser_consuming consuming_structure parser_sound tame_rules consuming_sound | simp; fail)+

lemma consuming_offsets [parser_consuming]:
  "consuming ParseNVOffset" "consuming ParseVOffset" "consuming ParseCallOffset"
proof -
  show nv: "consuming ParseNVOffset"
    unfolding ParseNVOffset_def by (rule consuming_ParseNumber_null)
  show v: "consuming ParseVOffset"
    unfolding ParseVOffset_def
    by (rule parser_consuming consuming_structure parser_sound consuming_sound | simp; fail)+
  show "consuming ParseCallOffset"
    unfolding ParseCallOffset_def
    by (rule nv v parser_consuming consuming_structure parser_sound consuming_sound | simp; fail)+
qed

lemma consuming_ParseCVQualifiers [parser_consuming]: "consuming ParseCVQualifiers"
proof (rule consuming_set_cur)
  fix s s' b
  assume r: "ParseCVQualifiers s = Some (b, s')"
  obtain i j k :: nat where s': "s' = advance k (advance j (advance i s))"
    and b: "b \<longrightarrow> (0 < i \<and> mangled_cur s \<noteq> [] \<or> 0 < j \<and> mangled_cur (advance i s) \<noteq> []
          \<or> 0 < k \<and> mangled_cur (advance j (advance i s)) \<noteq> [])"
  proof -
    define i where "i = (if peek s 0 = CHR ''r'' then 1 else 0 :: nat)"
    define j where "j = (if peek (advance i s) 0 = CHR ''V'' then 1 else 0 :: nat)"
    define k where "k = (if peek (advance j (advance i s)) 0 = CHR ''K'' then 1 else 0 :: nat)"
    have zero: "advance 0 t = t" for t by (simp add: advance_def)
    have "s' = advance k (advance j (advance i s))"
      "b = (0 < i \<or> 0 < j \<or> 0 < k)"
      using r unfolding ParseCVQualifiers_def Let_def i_def j_def k_def
      by (auto simp: zero split: if_splits)
    moreover have "0 < i \<Longrightarrow> mangled_cur s \<noteq> []" "0 < j \<Longrightarrow> mangled_cur (advance i s) \<noteq> []"
      "0 < k \<Longrightarrow> mangled_cur (advance j (advance i s)) \<noteq> []"
      by (auto simp: i_def j_def k_def split: if_splits)
    ultimately show thesis using that by blast
  qed
  have "s' = s\<lparr>mangled_cur := drop (i + j + k) (mangled_cur s)\<rparr>"
    using s' by (simp add: advance_def add.commute add.left_commute)
  moreover have "length (mangled_cur s') < length (mangled_cur s)" if b
    using b that by (auto simp: s' advance_def)
  ultimately show "(b \<longrightarrow> length (mangled_cur s') < length (mangled_cur s)) \<and>
      (\<exists>cur. s' = s\<lparr>mangled_cur := cur\<rparr> \<and> suffix cur (mangled_cur s))"
    using suffix_drop by blast
qed (simp add: ParseCVQualifiers_def Let_def del: not_None_eq)

lemma consuming_set_suffix:
  assumes "\<And>s. p s = (if c s then Some (True, s\<lparr>mangled_cur := f (mangled_cur s)\<rparr>) else Some (False, s))"
    and "\<And>xs. suffix (f xs) xs"
    and "\<And>s. c s \<Longrightarrow> length (f (mangled_cur s)) \<noteq> length (mangled_cur s)"
  shows "consuming p"
proof (intro consumingI soundI)
  show "ok_result s (p s)" if "wf_state s" for s
    using that assms(1,2) by (simp add: evolves_set_cur)
  show "length (mangled_cur s') < length (mangled_cur s)" if "p s = Some (True, s')" for s s'
    using that assms(1) assms(3) suffix_length_le [OF assms(2)]
    by (auto simp: nat_less_le split: if_splits)
qed

lemma consuming_ParseFloatNumber [parser_consuming]: "consuming ParseFloatNumber"
  by (rule consuming_set_suffix [where f = "dropWhile IsLowerHex"])
    (simp_all add: ParseFloatNumber_def Let_def suffix_dropWhile)

lemma consuming_ParseSeqId [parser_consuming]: "consuming ParseSeqId"
  by (rule consuming_set_suffix [where f = "dropWhile IsBase36"
        and c = "\<lambda>s. length (dropWhile IsBase36 (mangled_cur s)) \<noteq> length (mangled_cur s)
            \<and> \<not> (length (mangled_cur s) - length (dropWhile IsBase36 (mangled_cur s)) > 1
                 \<and> peek s 0 = CHR ''0'')"])
    (simp_all add: ParseSeqId_def Let_def suffix_dropWhile)

lemma consuming_ParseTemplateParam [parser_consuming]: "consuming ParseTemplateParam"
  unfolding ParseTemplateParam_def
  by (rule parser_consuming consuming_structure parser_sound tame_rules consuming_sound | simp; fail)+

lemma sound_substitution_abbreviation [parser_sound]: "sound substitution_abbreviation"
proof (rule soundI)
  fix s :: dstate
  assume s: "wf_state s"
  have "sound (all_of [does (MaybeAppend ''std''),
      does (\<lambda>s. if real_name \<noteq> '''' then MaybeAppend real_name (MaybeAppend ''::'' s) else s),
      does (advance 1), Optional ParseAbiTags])" for real_name
    by (rule parser_sound tame_rules parser_consuming consuming_sound | simp; fail)+
  then show "ok_result s (substitution_abbreviation s)"
    using s unfolding substitution_abbreviation_def
    by (auto intro: soundD simp del: all_of.simps split: list.split)
qed

lemma consuming_ParseSubstitution [parser_consuming]: "consuming ParseSubstitution"
  unfolding ParseSubstitution_def
  by (rule parser_consuming consuming_structure parser_sound tame_rules consuming_sound | simp; fail)+

lemma consuming_ParseTemplateTemplateParam [parser_consuming]: "consuming ParseTemplateTemplateParam"
  unfolding ParseTemplateTemplateParam_def
  by (rule parser_consuming consuming_structure parser_sound tame_rules consuming_sound | simp; fail)+

lemma consuming_ParseFunctionParam [parser_consuming]: "consuming ParseFunctionParam"
  unfolding ParseFunctionParam_def
  by (rule parser_consuming consuming_structure parser_sound tame_rules consuming_sound | simp; fail)+

text \<open>Entries of a table: the output function keeps the input and the entry is not empty.\<close>

lemma advance_tame:
  assumes "tame f" and "wf_state s"
  shows "wf_state (advance n (f s))" and "evolves s (advance n (f s))"
  using tameD [OF assms] evolves_trans [OF _ evolves_advance] by simp_all

lemma advance_tame_shorter:
  assumes "tame f" and "wf_state s" and "0 < n" and "mangled_cur s \<noteq> []"
  shows "length (mangled_cur (advance n (f s))) < length (mangled_cur s)"
proof -
  have "0 < length (mangled_cur s)" using assms(4) by simp
  then show ?thesis
    using evolves_length [OF tameD(2) [OF assms(1,2)]] assms(3) unfolding length_advance by arith
qed

lemma filter_ConsD: "filter P xs = y # ys \<Longrightarrow> y \<in> set xs \<and> P y"
  by (metis Cons_eq_filterD in_set_conv_decomp)

lemma kBuiltinTypeList_nonempty: "(a, r) \<in> set kBuiltinTypeList \<Longrightarrow> a \<noteq> ''''"
  by (auto simp: kBuiltinTypeList_def)

lemma consuming_builtin_abbreviation [parser_consuming]: "consuming builtin_abbreviation"
proof -
  have "ok_result s (builtin_abbreviation s) \<and> (\<forall>s'. builtin_abbreviation s = Some (True, s')
      \<longrightarrow> length (mangled_cur s') < length (mangled_cur s))" if s: "wf_state s" for s
  proof (cases "filter (\<lambda>(abbrev, real_name). StrPrefix (mangled_cur s) abbrev) kBuiltinTypeList")
    case (Cons e es)
    obtain a r where e: "e = (a, r)" by force
    then have a: "a \<noteq> ''''" "StrPrefix (mangled_cur s) a"
      using filter_ConsD [OF Cons] kBuiltinTypeList_nonempty by auto
    then have ne: "mangled_cur s \<noteq> []" by (auto simp: StrPrefix_def starts_with_def)
    show ?thesis
      using Cons e a(1) advance_tame [OF tame_MaybeAppend s]
        advance_tame_shorter [OF tame_MaybeAppend s _ ne]
      by (simp add: builtin_abbreviation_def)
  qed (use s in \<open>simp add: builtin_abbreviation_def\<close>)
  then show ?thesis by (intro consumingI soundI) blast+
qed

lemma consuming_operator_abbreviation [parser_consuming]: "consuming operator_abbreviation"
proof -
  have "ok_result s (operator_abbreviation s) \<and> (\<forall>s'. operator_abbreviation s = Some (True, s')
      \<longrightarrow> length (mangled_cur s') < length (mangled_cur s))" if s: "wf_state s" for s
  proof (cases "IsLower (peek s 0)")
    case True
    then have ne: "mangled_cur s \<noteq> []" by (auto simp: IsLower_def)
    have t: "tame (\<lambda>s. MaybeAppend r (if b then MaybeAppend '' '' (MaybeAppend ''operator'' s)
        else MaybeAppend ''operator'' s))" for r b
      using tame_comp [OF tame_MaybeAppend tame_comp [OF tame_operator tame_MaybeAppend]] by simp
    show ?thesis
      using s advance_tame [OF t s] advance_tame_shorter [OF t s _ ne]
      by (auto simp: operator_abbreviation_def does_def split: list.split)
  qed (use s in \<open>simp add: operator_abbreviation_def\<close>)
  then show ?thesis by (intro consumingI soundI) blast+
qed

section \<open>Guards\<close>

text \<open>A level that a guard raises and lowers, invisible otherwise.\<close>

definition level_ok :: "((nat \<Rightarrow> nat) \<Rightarrow> dstate \<Rightarrow> dstate) \<Rightarrow> bool" where
  "level_ok update \<longleftrightarrow>
     (\<forall>f s. wf_state (update f s) = wf_state s \<and> mangled_cur (update f s) = mangled_cur s)
     \<and> (\<forall>s s'. evolves (update (\<lambda>n. n + 1) s) s' \<longrightarrow> evolves s (update (\<lambda>n. n - 1) s'))
     \<and> (\<forall>s s'. s' = restore (update (\<lambda>n. n + 1) s) s'
          \<longrightarrow> update (\<lambda>n. n - 1) s' = restore s (update (\<lambda>n. n - 1) s'))"

lemma restore_level:
  "s' = restore (encoding_level_update (\<lambda>n. n + 1) s) s'
     \<Longrightarrow> encoding_level_update (\<lambda>n. n - 1) s' = restore s (encoding_level_update (\<lambda>n. n - 1) s')"
  "s' = restore (type_level_update (\<lambda>n. n + 1) s) s'
     \<Longrightarrow> type_level_update (\<lambda>n. n - 1) s' = restore s (type_level_update (\<lambda>n. n - 1) s')"
  "s' = restore (arg_level_update (\<lambda>n. n + 1) s) s'
     \<Longrightarrow> arg_level_update (\<lambda>n. n - 1) s' = restore s (arg_level_update (\<lambda>n. n - 1) s')"
  "s' = restore (expr_level_update (\<lambda>n. n + 1) s) s'
     \<Longrightarrow> expr_level_update (\<lambda>n. n - 1) s' = restore s (expr_level_update (\<lambda>n. n - 1) s')"
  "s' = restore (local_level_update (\<lambda>n. n + 1) s) s'
     \<Longrightarrow> local_level_update (\<lambda>n. n - 1) s' = restore s (local_level_update (\<lambda>n. n - 1) s')"
  "s' = restore (parse_depth_update (\<lambda>n. n + 1) s) s'
     \<Longrightarrow> parse_depth_update (\<lambda>n. n - 1) s' = restore s (parse_depth_update (\<lambda>n. n - 1) s')"
  by (cases s; cases s'; simp add: restore_def)+

lemma level_oks:
  "level_ok encoding_level_update" "level_ok type_level_update" "level_ok arg_level_update"
  "level_ok expr_level_update" "level_ok local_level_update" "level_ok parse_depth_update"
  unfolding level_ok_def
  by (intro conjI allI impI restore_level;
      simp add: wf_state_def evolves_def cong: option.case_cong)+

lemma level_guard_sound:
  assumes "level_ok update" and "sound p"
  shows "sound (ParseLevelGuard level update m p)"
proof (rule soundI)
  fix s :: dstate
  assume s: "wf_state s"
  then have "wf_state (update (\<lambda>n. n + 1) s)" using assms(1) by (simp add: level_ok_def)
  then obtain b s1 where "p (update (\<lambda>n. n + 1) s) = Some (b, s1)" "wf_state s1"
      "evolves (update (\<lambda>n. n + 1) s) s1"
    by (rule soundE [OF assms(2)])
  then show "ok_result s (ParseLevelGuard level update m p s)"
    using s assms(1) by (simp add: ParseLevelGuard_def level_ok_def)
qed

lemma level_guard_consuming:
  assumes "level_ok update" and "consuming p"
  shows "consuming (ParseLevelGuard level update m p)"
proof (rule consumingI)
  show "sound (ParseLevelGuard level update m p)"
    by (rule level_guard_sound [OF assms(1) consuming_sound [OF assms(2)]])
  show "length (mangled_cur s') < length (mangled_cur s)"
    if "wf_state s" "ParseLevelGuard level update m p s = Some (True, s')" for s s'
    using that assms(1) consumingD [OF assms(2), of "update (\<lambda>n. n + 1) s"]
    by (auto simp: ParseLevelGuard_def level_ok_def split: if_splits option.splits prod.splits)
qed

lemma level_guard_clean:
  assumes "level_ok update" and "clean p"
  shows "clean (ParseLevelGuard level update m p)"
  using assms
  by (auto simp: clean_def ParseLevelGuard_def level_ok_def split: if_splits option.splits)

definition count_step :: "parser \<Rightarrow> parser" where
  "count_step p s = (if steps_remaining s > 0 then p (s\<lparr>steps_remaining := steps_remaining s - 1\<rparr>)
     else Some (False, s))"

lemma ParseDepthGuard_eq:
  "ParseDepthGuard p = ParseLevelGuard parse_depth parse_depth_update kMaxParseDepth (count_step p)"
  by (simp add: ParseDepthGuard_def count_step_def [abs_def])

lemma step_evolves:
  assumes "0 < steps_remaining s" and "evolves (s\<lparr>steps_remaining := steps_remaining s - 1\<rparr>) s'"
  shows "evolves s s'"
proof -
  have "steps_remaining s - 1 \<le> steps_remaining s"
    using assms(1) by (simp add: word_le_nat_alt unat_minus_one)
  then show ?thesis using assms(2) by (auto simp: evolves_def)
qed

lemma wf_step [simp]: "wf_state (s\<lparr>steps_remaining := n\<rparr>) = wf_state s"
  by (simp add: wf_state_def cong: option.case_cong)

lemma count_step_sound: "sound p \<Longrightarrow> sound (count_step p)"
proof (rule soundI)
  fix s :: dstate
  assume p: "sound p" and s: "wf_state s"
  obtain b s1 where "p (s\<lparr>steps_remaining := steps_remaining s - 1\<rparr>) = Some (b, s1)" "wf_state s1"
      "evolves (s\<lparr>steps_remaining := steps_remaining s - 1\<rparr>) s1"
    using soundE [OF p, of "s\<lparr>steps_remaining := steps_remaining s - 1\<rparr>"] s by auto
  then show "ok_result s (count_step p s)"
    using s step_evolves by (simp add: count_step_def)
qed

lemma count_step_consuming: "consuming p \<Longrightarrow> consuming (count_step p)"
proof (rule consumingI)
  assume p: "consuming p"
  show "sound (count_step p)"
    by (rule count_step_sound [OF consuming_sound [OF p]])
  show "length (mangled_cur s') < length (mangled_cur s)"
    if "wf_state s" "count_step p s = Some (True, s')" for s s'
    using that consumingD [OF p, of "s\<lparr>steps_remaining := steps_remaining s - 1\<rparr>"]
    by (auto simp: count_step_def split: if_splits)
qed

lemma restore_step: "restore (s\<lparr>steps_remaining := n\<rparr>) t = restore s t"
  by (simp add: restore_def)

lemma count_step_clean:
  assumes "clean p"
  shows "clean (count_step p)"
  unfolding clean_def
proof (intro allI impI)
  fix s s'
  assume "count_step p s = Some (False, s')"
  then have "s' = s \<or> s' = restore (s\<lparr>steps_remaining := steps_remaining s - 1\<rparr>) s'"
    using assms by (auto simp: count_step_def clean_def split: if_splits)
  then show "s' = restore s s'" unfolding restore_step by auto
qed

lemma guard_consuming:
  "consuming p \<Longrightarrow> consuming (ParseDepthGuard p)"
  "consuming p \<Longrightarrow> consuming (ParseEncodingGuard p)"
  "consuming p \<Longrightarrow> consuming (ParseTypeGuard p)"
  "consuming p \<Longrightarrow> consuming (ParseTemplateArgGuard p)"
  "consuming p \<Longrightarrow> consuming (ParseExpressionGuard p)"
  "consuming p \<Longrightarrow> consuming (ParseLocalNameGuard p)"
  unfolding ParseDepthGuard_eq ParseEncodingGuard_def ParseTypeGuard_def
    ParseTemplateArgGuard_def ParseExpressionGuard_def ParseLocalNameGuard_def
  by (rule level_guard_consuming level_oks count_step_consuming | assumption)+

lemma guard_sound: "sound p \<Longrightarrow> sound (ParseDepthGuard p)"
  unfolding ParseDepthGuard_eq by (rule level_guard_sound level_oks count_step_sound | assumption)+

lemma guard_clean:
  "clean p \<Longrightarrow> clean (ParseDepthGuard p)" "clean p \<Longrightarrow> clean (ParseEncodingGuard p)"
  "clean p \<Longrightarrow> clean (ParseTypeGuard p)" "clean p \<Longrightarrow> clean (ParseTemplateArgGuard p)"
  "clean p \<Longrightarrow> clean (ParseExpressionGuard p)" "clean p \<Longrightarrow> clean (ParseLocalNameGuard p)"
  unfolding ParseDepthGuard_eq ParseEncodingGuard_def ParseTypeGuard_def
    ParseTemplateArgGuard_def ParseExpressionGuard_def ParseLocalNameGuard_def
  by (rule level_guard_clean level_oks count_step_clean | assumption)+

lemma list_all_consuming:
  "list_all consuming []"
  "consuming p \<Longrightarrow> list_all consuming ps \<Longrightarrow> list_all consuming (p # ps)"
  by simp_all

lemma consuming_choice_all: "list_all consuming ps \<Longrightarrow> consuming (choice ps)"
  by (induction ps) (auto intro: consuming_choice_Nil consuming_choice_Cons)

end
