(* ===== verification/DemangleCalls.thy ===== *)
theory DemangleCalls imports DemangleFacts begin

text \<open>
  The parsing functions that call a guarded function, under the contract of those calls (the
  locale \<open>parser_calls\<close>), the proof that the functions provide that contract at every depth
  (the interpretation \<open>calls\<close>), and what follows for \<open>Demangle\<close>.
\<close>

section \<open>The contract of the guarded functions\<close>

locale parser_calls =
  fixes P :: "nonterm \<Rightarrow> parser"
  assumes call_sound: "sound (P nt)"
    and call_consuming: "nt \<noteq> Prefix \<Longrightarrow> consuming (P nt)"
    and call_clean: "clean (P nt)"
begin

lemmas calls =
  call_consuming [of Encoding, simplified] call_consuming [of Name, simplified]
  call_consuming [of NestedName, simplified] call_consuming [of Type, simplified]
  call_consuming [of TemplateArg, simplified] call_consuming [of BracedExpression, simplified]
  call_consuming [of Expression, simplified] call_consuming [of LocalName, simplified]

lemmas rules = calls parser_consuming consuming_structure call_sound parser_sound tame_rules
  consuming_sound

lemma requires_clause: "consuming (ParseRequiresClause P)"
proof (rule consuming_pointwise)
  show "consuming (choice [all_of [does DisableAppend, ParseOneCharToken CHR ''Q'', P Expression,
      does (RestoreAppend (append_mode x))]])" for x
    by (rule rules | simp; fail)+
qed (rule ParseRequiresClause_def)

lemma template_args: "consuming (ParseTemplateArgs P)"
proof (rule consuming_pointwise)
  show "consuming (choice [
     all_of [does DisableAppend, ParseOneCharToken CHR ''I'', OneOrMore (P TemplateArg),
       Optional (ParseRequiresClause P), ParseOneCharToken CHR ''E'',
       does (RestoreAppend (append_mode x)),
       does (\<lambda>s'. s'\<lparr>skip_separator := skip_separator x\<rparr>),
       does (MaybeAppend ''<>'')]])" for x
    by (rule requires_clause rules | simp; fail)+
qed (rule ParseTemplateArgs_def)

lemma bare_function_type: "consuming (ParseBareFunctionType P)"
proof (rule consuming_pointwise)
  show "consuming (choice [
     all_of [does DisableAppend, OneOrMore (P Type), does (RestoreAppend (append_mode x)),
       does (MaybeAppend ''()'')]])" for x
    by (rule rules | simp; fail)+
qed (rule ParseBareFunctionType_def)

lemma exception_spec: "consuming (ParseExceptionSpec P)"
proof (rule consuming_pointwise)
  show "consuming (choice [
     all_of [does DisableAppend, ParseTwoCharToken ''Do'', does (RestoreAppend (append_mode x))],
     all_of [does DisableAppend, ParseTwoCharToken ''DO'', P Expression,
       ParseOneCharToken CHR ''E'', does (RestoreAppend (append_mode x))],
     all_of [does DisableAppend, ParseTwoCharToken ''Dw'', OneOrMore (P Type),
       ParseOneCharToken CHR ''E'', does (RestoreAppend (append_mode x))]])" for x
    by (rule rules | simp; fail)+
qed (rule ParseExceptionSpec_def)

lemma function_type: "consuming (ParseFunctionType P)"
  unfolding ParseFunctionType_def
  by (rule exception_spec bare_function_type rules | simp; fail)+

lemma array_type: "consuming (ParseArrayType P)"
  unfolding ParseArrayType_def by (rule rules | simp; fail)+

lemma pointer_to_member_type: "consuming (ParsePointerToMemberType P)"
  unfolding ParsePointerToMemberType_def by (rule rules | simp; fail)+

lemma builtin_type: "consuming (ParseBuiltinType P)"
  unfolding ParseBuiltinType_def by (rule template_args rules | simp; fail)+

lemma unnamed_type_name: "consuming (ParseUnnamedTypeName P)"
proof (rule consuming_pointwise)
  show "consuming (choice [
     all_of [ParseTwoCharToken ''Ut'', Optional ParseNonNegativeNumber_null,
       ParseOneCharToken CHR ''_''],
     all_of [ParseTwoCharToken ''Ul'', does DisableAppend, P Type, ZeroOrMore (P Type),
       ParseOneCharToken CHR ''E'', Optional ParseNonNegativeNumber_null,
       ParseOneCharToken CHR ''_'', does (RestoreAppend (append_mode x)),
       does (\<lambda>s'. s'\<lparr>skip_separator := True\<rparr>)]])" for x
    by (rule rules | simp; fail)+
qed (rule ParseUnnamedTypeName_def)

lemma operator_name: "consuming (ParseOperatorName P)"
proof -
  have "consuming (\<lambda>s. if \<not> AtLeastNumCharsRemaining (mangled_cur s) 2 then Some (False, s)
      else choice [
        all_of [ParseTwoCharToken ''cv'', does (MaybeAppend ''operator ''), does EnterNestedName,
          P Type, does (LeaveNestedName (nest_level s))],
        all_of [ParseTwoCharToken ''li'',
          does (MaybeAppend (''operator'' @ [CHR 0x22, CHR 0x22] @ '' '')), ParseSourceName],
        all_of [ParseOneCharToken CHR ''v'', ParseCharClass ''0123456789'', ParseSourceName],
        operator_abbreviation] s)"
  proof (rule consuming_guarded, rule consuming_pointwise)
    show "consuming (choice [
        all_of [ParseTwoCharToken ''cv'', does (MaybeAppend ''operator ''), does EnterNestedName,
          P Type, does (LeaveNestedName (nest_level x))],
        all_of [ParseTwoCharToken ''li'',
          does (MaybeAppend (''operator'' @ [CHR 0x22, CHR 0x22] @ '' '')), ParseSourceName],
        all_of [ParseOneCharToken CHR ''v'', ParseCharClass ''0123456789'', ParseSourceName],
        operator_abbreviation])" for x
      by (rule rules | simp; fail)+
  qed (rule refl)
  then show ?thesis unfolding ParseOperatorName_def [abs_def] .
qed

lemma operator_name_with_arity: "consuming (ParseOperatorNameWithArity arity P)"
  unfolding ParseOperatorNameWithArity_def [abs_def]
  by (rule consuming_guarded [OF operator_name])

lemma ctor_dtor_name: "consuming (ParseCtorDtorName P)"
  unfolding ParseCtorDtorName_def by (rule rules | simp; fail)+

lemma unqualified_name: "consuming (ParseUnqualifiedName P)"
  unfolding ParseUnqualifiedName_def
  by (rule operator_name ctor_dtor_name unnamed_type_name rules | simp; fail)+

lemma unscoped_name: "consuming (ParseUnscopedName P)"
  unfolding ParseUnscopedName_def by (rule unqualified_name rules | simp; fail)+

lemma unscoped_template_name: "consuming (ParseUnscopedTemplateName P)"
  unfolding ParseUnscopedTemplateName_def by (rule unscoped_name rules | simp; fail)+

lemma mangled_name: "consuming (ParseMangledName P)"
  unfolding ParseMangledName_def by (rule rules | simp; fail)+

lemma special_name: "consuming (ParseSpecialName P)"
proof (rule consuming_pointwise)
  show "consuming (choice [
     all_of [ParseTwoCharToken ''GV'', P Name],
     all_of [ParseTwoCharToken ''GR'', P Name, Optional ParseSeqId, ParseOneCharToken CHR ''_''],
     all_of [ParseTwoCharToken ''GT'', ParseOneCharToken CHR ''t'',
       does (MaybeAppend ''transaction clone for ''), P Encoding],
     all_of [ParseTwoCharToken ''TW'', does (MaybeAppend ''TLS wrapper function for ''), P Name],
     all_of [ParseTwoCharToken ''TH'', does (MaybeAppend ''TLS init function for ''), P Name],
     all_of [ParseOneCharToken CHR ''T'', ParseCharClass ''VTIS'', P Type],
     all_of [ParseTwoCharToken ''Tc'', ParseCallOffset, ParseCallOffset, P Encoding],
     all_of [ParseOneCharToken CHR ''T'', ParseCallOffset, P Encoding],
     all_of [ParseTwoCharToken ''TC'', P Type, ParseNonNegativeNumber_null,
       ParseOneCharToken CHR ''_'', does DisableAppend, P Type,
       does (RestoreAppend (append_mode x))],
     all_of [ParseOneCharToken CHR ''T'', ParseCharClass ''FJ'', P Type],
     all_of [ParseTwoCharToken ''GA'', P Encoding],
     all_of [ParseOneCharToken CHR ''T'', ParseCharClass ''hv'', ParseCallOffset, P Encoding]])" for x
    by (rule rules | simp; fail)+
qed (rule ParseSpecialName_def)

end

section \<open>Expressions\<close>

context parser_calls begin

lemma simple_id: "consuming (ParseSimpleId P)"
  unfolding ParseSimpleId_def by (rule template_args rules | simp; fail)+

lemma unresolved_type: "consuming (ParseUnresolvedType P)"
  unfolding ParseUnresolvedType_def by (rule template_args simple_id rules | simp; fail)+

lemma base_unresolved_name: "consuming (ParseBaseUnresolvedName P)"
  unfolding ParseBaseUnresolvedName_def
  by (rule template_args simple_id unresolved_type operator_name rules | simp; fail)+

lemma unresolved_name: "consuming (ParseUnresolvedName P)"
  unfolding ParseUnresolvedName_def
  by (rule simple_id unresolved_type base_unresolved_name rules | simp; fail)+

lemma sequences:
  "sound (ParseExpressionSequence P c b)" "sound (ParseBracedExpressionSequence P)"
  "sound (requires_parameters P)" "sound (placement_arguments P)"
  unfolding ParseExpressionSequence_def ParseBracedExpressionSequence_def
    requires_parameters_def placement_arguments_def
  by (rule sound_loop_call calls)+

lemma return_type_requirement:
  "sound (\<lambda>s. if peek s 0 = CHR ''R'' then all_of [ParseOneCharToken CHR ''R'', P Name] s
         else Some (True, s))"
proof (rule soundI)
  fix s :: dstate
  assume "wf_state s"
  moreover have "sound (all_of [ParseOneCharToken CHR ''R'', P Name])"
    by (rule rules | simp; fail)+
  ultimately show "ok_result s (if peek s 0 = CHR ''R''
      then all_of [ParseOneCharToken CHR ''R'', P Name] s else Some (True, s))"
    by (simp add: soundD del: all_of.simps)
qed

lemma requirement: "consuming (requirement P)"
  unfolding requirement_def by (rule return_type_requirement rules | simp; fail)+

lemma requirements: "sound (requirements P)"
  unfolding requirements_def by (rule sound_loop_call requirement)+

lemma requires_head:
  "consuming (\<lambda>s. if take 2 (mangled_cur s) = ''rQ''
           then all_of [ParseTwoCharToken ''rQ'', requires_parameters P,
                  ParseOneCharToken CHR ''_''] s
           else ParseTwoCharToken ''rq'' s)"
proof -
  have a: "consuming (all_of [ParseTwoCharToken ''rQ'', requires_parameters P,
      ParseOneCharToken CHR ''_''])"
    by (rule sequences rules | simp; fail)+
  have b: "consuming (ParseTwoCharToken ''rq'')"
    by (rule rules | simp; fail)+
  show ?thesis
  proof (intro consumingI soundI)
    fix s s' :: dstate
    assume s: "wf_state s"
    then show "ok_result s (if take 2 (mangled_cur s) = ''rQ''
           then all_of [ParseTwoCharToken ''rQ'', requires_parameters P,
                  ParseOneCharToken CHR ''_''] s
           else ParseTwoCharToken ''rq'' s)"
      using soundD [OF consuming_sound [OF a] s] soundD [OF consuming_sound [OF b] s]
      by (simp del: all_of.simps)
    assume "(if take 2 (mangled_cur s) = ''rQ''
           then all_of [ParseTwoCharToken ''rQ'', requires_parameters P,
                  ParseOneCharToken CHR ''_''] s
           else ParseTwoCharToken ''rq'' s) = Some (True, s')"
    then show "length (mangled_cur s') < length (mangled_cur s)"
      using consumingD [OF a s] consumingD [OF b s] by (simp del: all_of.simps split: if_splits)
  qed
qed

lemma requires_expression: "consuming (ParseRequiresExpression P)"
  unfolding ParseRequiresExpression_def
  by (rule requires_head requirements rules | simp; fail)+

lemma initializer: "consuming (ParseInitializer P)"
  unfolding ParseInitializer_def by (rule sequences rules | simp; fail)+

lemma expr_primary: "consuming (ParseExprPrimary P)"
proof (rule consuming_pointwise)
  show "consuming (choice [
     all_of [ParseOneCharToken CHR ''L'', P Type, ParseNumber_null, ParseOneCharToken CHR ''E''],
     all_of [ParseOneCharToken CHR ''L'', P Type, ParseFloatNumber,
       any_of [ParseOneCharToken CHR ''E'',
         all_of [ParseOneCharToken CHR ''_'', ParseFloatNumber, ParseOneCharToken CHR ''E'']]],
     all_of [ParseOneCharToken CHR ''L'', ParseTwoCharToken ''Dn'', ParseOneCharToken CHR ''E''],
     all_of [ParseOneCharToken CHR ''L'', ParseMangledName P, ParseOneCharToken CHR ''E''],
     all_of [ParseTwoCharToken ''LZ'', P Encoding, ParseOneCharToken CHR ''E''],
     all_of [ParseOneCharToken CHR ''L'', does DisableAppend, ParseArrayType P,
       ParseOneCharToken CHR ''E'', does (RestoreAppend (append_mode x))]])" for x
    by (rule mangled_name array_type rules | simp; fail)+
qed (rule ParseExprPrimary_def)

lemma cast_expression: "consuming (cast_expression P)"
proof -
  have a: "consuming (all_of [ParseTwoCharToken ''cv'', P Type])"
    by (rule rules | simp; fail)+
  have b: "consuming (all_of [ParseTwoCharToken ''cv'', P Type, ParseOneCharToken CHR ''_'',
                 ParseExpressionSequence P CHR ''E'' False, ParseOneCharToken CHR ''E''])"
    by (rule sequences rules | simp; fail)+
  have "ok_result s (cast_expression P s) \<and> (\<forall>s'. cast_expression P s = Some (True, s')
      \<longrightarrow> length (mangled_cur s') < length (mangled_cur s))" if s: "wf_state s" for s
  proof -
    obtain b1 s1 where 1: "all_of [ParseTwoCharToken ''cv'', P Type] s = Some (b1, s1)"
      "wf_state s1" "evolves s s1"
      using soundE [OF consuming_sound [OF a] s] .
    obtain b2 s2 where 2: "P Expression s1 = Some (b2, s2)" "wf_state s2" "evolves s1 s2"
      using soundE [OF call_sound 1(2)] .
    have ev: "evolves s s2" by (rule evolves_trans [OF 1(3) 2(3)])
    note r = wf_restore [OF s ev] evolves_restore [OF ev]
    obtain b3 s3 where 3: "all_of [ParseTwoCharToken ''cv'', P Type, ParseOneCharToken CHR ''_'',
          ParseExpressionSequence P CHR ''E'' False, ParseOneCharToken CHR ''E''] (restore s s2)
          = Some (b3, s3)" "wf_state s3" "evolves (restore s s2) s3"
      using soundE [OF consuming_sound [OF b] r(1)] .
    have eq: "cast_expression P s
        = (if b1 then (if b2 then Some (True, s2) else Some (b3, s3)) else Some (False, s1))"
      unfolding cast_expression_def 1(1) by (cases b1; cases b2) (simp_all add: 2(1) 3(1) del: all_of.simps)
    have "b1 \<Longrightarrow> b2 \<Longrightarrow> length (mangled_cur s2) < length (mangled_cur s)"
      using consumingD [OF a s] 1(1) evolves_length [OF 2(3)] by fastforce
    moreover have "b3 \<Longrightarrow> length (mangled_cur s3) < length (mangled_cur s)"
      using consumingD [OF b r(1)] 3(1) by simp
    ultimately show ?thesis
      unfolding eq using 1 2 3 ev evolves_trans [OF r(2) 3(3)] by auto
  qed
  then show ?thesis by (intro consumingI soundI) blast+
qed

lemmas expression_rules = template_args operator_name operator_name_with_arity unqualified_name
  unresolved_name sequences initializer expr_primary requires_expression cast_expression rules

lemma expression_alternatives:
  "list_all consuming (ParseExpression_first P)" "list_all consuming (ParseExpression_second P)"
  "list_all consuming (ParseExpression_third P)"
  unfolding ParseExpression_first_def ParseExpression_second_def ParseExpression_third_def
  by (rule list_all_consuming expression_rules | simp; fail)+

section \<open>The guarded functions\<close>

lemma body_Encoding: "consuming (ParseEncoding P)" "clean (ParseEncoding P)"
proof -
  show "consuming (ParseEncoding P)"
    unfolding ParseEncoding_def
    by (rule guard_consuming requires_clause bare_function_type special_name rules | simp; fail)+
  show "clean (ParseEncoding P)"
    unfolding ParseEncoding_def by (rule guard_clean clean_choice)+
qed

lemma clean_unscoped_name: "clean (ParseUnscopedName P)"
  unfolding ParseUnscopedName_def ParseUnqualifiedName_def by (rule parser_clean)+

lemma body_Name: "consuming (ParseName P)" "clean (ParseName P)"
proof -
  show "consuming (ParseName P)"
    unfolding ParseName_def
    by (rule guard_consuming template_args unscoped_name unscoped_template_name rules | simp; fail)+
  show "clean (ParseName P)"
    unfolding ParseName_def by (rule guard_clean clean_unscoped_name call_clean parser_clean)+
qed

lemma qualified_prefix: "sound (qualified_prefix P)"
proof (rule soundI)
  fix s :: dstate
  assume s: "wf_state s"
  have a: "sound (all_of [P Prefix, does (\<lambda>s'. s'\<lparr>pending_ref_qualifier := q\<rparr>)])" for q
    by (rule rules | simp; fail)+
  show "ok_result s (qualified_prefix P s)"
    using soundD [OF a s] soundD [OF a, of "advance 1 s"] s
      ok_result_trans [OF evolves_advance, of 1 s]
    by (simp add: qualified_prefix_def Let_def del: all_of.simps)
qed

lemma body_NestedName: "consuming (ParseNestedName P)" "clean (ParseNestedName P)"
proof -
  show "consuming (ParseNestedName P)"
    unfolding ParseNestedName_def
  proof (rule guard_consuming, rule consuming_pointwise)
    show "consuming (choice [
     all_of [ParseOneCharToken CHR ''N'', does EnterNestedName, Optional ParseCVQualifiers,
       qualified_prefix P, does (LeaveNestedName (nest_level x)), ParseOneCharToken CHR ''E'']])" for x
      by (rule qualified_prefix rules | simp; fail)+
  qed (rule refl)
  show "clean (ParseNestedName P)"
    unfolding ParseNestedName_def by (rule guard_clean, rule clean_pointwise [OF refl clean_choice])
qed

lemma prefix_round: "sound_step (prefix_round P)"
  unfolding sound_step_def
proof (intro allI impI)
  fix has :: bool and s :: dstate
  assume s: "wf_state s"
  let ?names = "any_of [ParseTemplateParam, ParseSubstitution, ParseUnscopedName P]"
  let ?decltype = "choice [ParseOneCharToken CHR ''M'',
                   all_of [ParseOneCharToken CHR ''D'',
                     any_of [ParseOneCharToken CHR ''t'', ParseOneCharToken CHR ''T''],
                     P Expression, ParseOneCharToken CHR ''E'']]"
  have n: "consuming ?names" and d: "consuming ?decltype"
    by (rule unscoped_name rules | simp; fail)+
  have a: "wf_state (MaybeAppendSeparator s)" "evolves s (MaybeAppendSeparator s)"
    using tameD [OF tame_MaybeAppendSeparator s] by simp_all
  obtain b1 s1 where 1: "?names (MaybeAppendSeparator s) = Some (b1, s1)" "wf_state s1"
      "evolves (MaybeAppendSeparator s) s1"
    using soundE [OF consuming_sound [OF n] a(1)] .
  have e1: "evolves s s1" by (rule evolves_trans [OF a(2) 1(3)])
  have c: "wf_state (MaybeCancelLastSeparator s1)" "evolves s (MaybeCancelLastSeparator s1)"
    using tameD [OF tame_MaybeCancelLastSeparator 1(2)] evolves_trans [OF e1] by simp_all
  have i: "wf_state (MaybeIncreaseNestLevel s1)" "evolves s1 (MaybeIncreaseNestLevel s1)"
    using tameD [OF tame_updates(8) 1(2)] by simp_all
  obtain b2 s2 where 2: "(if has then ParseTemplateArgs P (MaybeCancelLastSeparator s1)
                 else Some (False, MaybeCancelLastSeparator s1)) = Some (b2, s2)" "wf_state s2"
      "evolves (MaybeCancelLastSeparator s1) s2"
    using soundE [OF consuming_sound [OF template_args] c(1)] c(1) evolves_refl by metis
  have e2: "evolves s s2" by (rule evolves_trans [OF c(2) 2(3)])
  obtain b3 s3 where 3: "?decltype s2 = Some (b3, s3)" "wf_state s3" "evolves s2 s3"
    using soundE [OF consuming_sound [OF d] 2(2)] .
  have e3: "evolves s s3" by (rule evolves_trans [OF e2 3(3)])
  have e4: "evolves s (MaybeIncreaseNestLevel s1)" by (rule evolves_trans [OF e1 i(2)])
  have round: "prefix_round P has s
      = Some (if b1 then (Next True, MaybeIncreaseNestLevel s1) else if b2 then (Next True, s2)
              else (if b3 then Next True else Stop True, s3))"
    unfolding prefix_round_def 1(1) using 2(1) 3(1)
    by (cases b1; cases b2) (simp_all del: all_of.simps choice.simps)
  have "b1 \<Longrightarrow> length (mangled_cur (MaybeIncreaseNestLevel s1)) < length (mangled_cur s)"
    using consumingD [OF n a(1)] 1(1) evolves_length [OF i(2)] evolves_length [OF a(2)] by fastforce
  moreover have "b2 \<Longrightarrow> length (mangled_cur s2) < length (mangled_cur s)"
    using consumingD [OF template_args c(1)] 2(1) evolves_length [OF c(2)]
    by (fastforce split: if_splits)
  moreover have "b3 \<Longrightarrow> length (mangled_cur s3) < length (mangled_cur s)"
    using consumingD [OF d 2(2)] 3(1) evolves_length [OF e2] by fastforce
  ultimately show "case prefix_round P has s of None \<Rightarrow> False
   | Some (r, s') \<Rightarrow> wf_state s' \<and> evolves s s'
       \<and> (case r of Next y \<Rightarrow> length (mangled_cur s') < length (mangled_cur s) | Stop b \<Rightarrow> True)"
    unfolding round using i(1) 2(2) 3(2) e2 e3 e4 by (cases b1; cases b2; cases b3) auto
qed

lemma loop_prefix_true: "loop n (prefix_round P) x s \<noteq> Some (False, s')"
proof (induction n arbitrary: x s)
  case (Suc n)
  have "prefix_round P x s \<noteq> Some (Stop False, s')"
    by (simp add: prefix_round_def del: any_of.simps choice.simps all_of.simps
        split: option.splits bool.splits if_splits)
  then show ?case
    using Suc by (auto split: option.splits step.splits)
qed simp

lemma body_Prefix: "sound (ParsePrefix P)" "clean (ParsePrefix P)"
proof -
  show "sound (ParsePrefix P)"
    unfolding ParsePrefix_def by (rule guard_sound sound_run_loop prefix_round)+
  show "clean (ParsePrefix P)"
    unfolding ParsePrefix_def
    by (rule guard_clean) (simp add: clean_def run_loop_def loop_prefix_true del: loop.simps)
qed

lemma body_Type: "consuming (ParseType P)" "clean (ParseType P)"
proof -
  show "consuming (ParseType P)"
    unfolding ParseType_def ParseClassEnumType_def
    by (rule guard_consuming template_args builtin_type function_type array_type
        pointer_to_member_type rules | simp; fail)+
  show "clean (ParseType P)"
    unfolding ParseType_def by (rule guard_clean clean_choice)+
qed

lemma body_TemplateArg: "consuming (ParseTemplateArg P)" "clean (ParseTemplateArg P)"
proof -
  show "consuming (ParseTemplateArg P)"
    unfolding ParseTemplateArg_def by (rule guard_consuming expr_primary rules | simp; fail)+
  show "clean (ParseTemplateArg P)"
    unfolding ParseTemplateArg_def by (rule guard_clean clean_choice)+
qed

lemma body_BracedExpression:
  "consuming (ParseBracedExpression P)" "clean (ParseBracedExpression P)"
proof -
  show "consuming (ParseBracedExpression P)"
    unfolding ParseBracedExpression_def by (rule guard_consuming rules | simp; fail)+
  show "clean (ParseBracedExpression P)"
    unfolding ParseBracedExpression_def by (rule guard_clean clean_choice)+
qed

lemma clean_primaries:
  "clean ParseTemplateParam" "clean ParseFunctionParam" "clean (ParseExprPrimary P)"
  "clean (ParseRequiresExpression P)"
proof -
  show "clean ParseTemplateParam"
    unfolding ParseTemplateParam_def by (rule clean_all_of_does parser_clean)+
  show "clean ParseFunctionParam" "clean (ParseRequiresExpression P)"
    unfolding ParseFunctionParam_def ParseRequiresExpression_def by (rule clean_choice)+
  show "clean (ParseExprPrimary P)"
    by (rule clean_pointwise [OF ParseExprPrimary_def clean_choice])
qed

lemma body_Expression: "consuming (ParseExpression P)" "clean (ParseExpression P)"
proof -
  have "list_all consuming
      (ParseExpression_first P @ ParseExpression_second P @ ParseExpression_third P)"
    using expression_alternatives by simp
  note c = consuming_choice_all [OF this]
  show "consuming (ParseExpression P)"
    unfolding ParseExpression_def
    by (rule guard_consuming c requires_expression expr_primary rules | simp; fail)+
  show "clean (ParseExpression P)"
    unfolding ParseExpression_def by (rule guard_clean clean_primaries parser_clean)+
qed

lemma body_LocalName: "consuming (ParseLocalName P)" "clean (ParseLocalName P)"
proof -
  show "consuming (ParseLocalName P)"
    unfolding ParseLocalName_def by (rule guard_consuming rules | simp; fail)+
  show "clean (ParseLocalName P)"
    unfolding ParseLocalName_def by (rule guard_clean clean_choice)+
qed

lemma body: "sound (parse_body P nt)" "nt \<noteq> Prefix \<Longrightarrow> consuming (parse_body P nt)"
  "clean (parse_body P nt)"
  by (cases nt; simp add: parse_body_def consuming_sound body_Encoding body_Name body_NestedName
      body_Prefix body_Type body_TemplateArg body_BracedExpression body_Expression body_LocalName)+

end

section \<open>Every depth provides the contract\<close>

lemma parser_calls_parse: "parser_calls (parse k)"
proof (induction k)
  case 0
  show ?case
    by unfold_locales (simp_all add: sound_def consuming_def clean_def)
next
  case (Suc k)
  have eq: "parse (Suc k) nt = parse_body (parse k) nt" for nt by (rule ext) simp
  show ?case
    by unfold_locales
      (simp_all only: eq parser_calls.body [OF Suc.IH] not_False_eq_True)
qed

interpretation calls: parser_calls "parse k" for k
  by (rule parser_calls_parse)

section \<open>\<open>Demangle\<close>\<close>

lemma takeWhile_not_all: "NUL \<in> set s \<Longrightarrow> length (takeWhile (\<lambda>c. c \<noteq> NUL) s) < length s"
  by (induction s) auto


lemma wf_InitState: "buf \<noteq> [] \<Longrightarrow> wf_state (InitState m buf)"
  by (simp add: wf_state_def InitState_def)

lemma top_level_ok:
  assumes "wf_state s"
  shows "ok_result s (ParseTopLevelMangledName s)"
proof -
  obtain b s1 where 1: "ParseMangledName (parse kMaxParseDepth) s = Some (b, s1)" "wf_state s1"
      "evolves s s1"
    using soundE [OF consuming_sound [OF calls.mangled_name] assms] .
  have "wf_state (MaybeAppend (mangled_cur s1) s1)" "evolves s (MaybeAppend (mangled_cur s1) s1)"
    using tameD [OF tame_MaybeAppend 1(2)] evolves_trans [OF 1(3)] by simp_all
  then show ?thesis
    using 1 by (cases b) (simp_all add: ParseTopLevelMangledName_def)
qed

lemma Demangle_run:
  assumes "buf \<noteq> []"
  obtains ok out where "Demangle (Some m) (Some buf) = Some (ok, Some out)"
    and "length out = length buf" and "ok \<or> cstr out = ''''"
    and "last out = last buf \<or> last out = NUL"
proof -
  let ?buf = "buf[0 := NUL]"
  have ne: "?buf \<noteq> []" using assms by simp
  obtain b s where r: "ParseTopLevelMangledName (InitState m ?buf) = Some (b, s)" "wf_state s"
      "evolves (InitState m ?buf) s"
    using top_level_ok [OF wf_InitState [OF ne], of m] by (auto simp: ok_result_def split: option.splits)
  have len: "length (out_buf s) = length buf"
    and lst: "out_buf s ! (length buf - 1) = ?buf ! (length buf - 1) \<or> out_buf s ! (length buf - 1) = NUL"
    using r(3) by (simp_all add: evolves_def InitState_def)
  have "out_buf s \<noteq> []" using len assms by auto
  then have "last (out_buf s) = last buf \<or> last (out_buf s) = NUL"
    using lst len assms by (auto simp: last_conv_nth nth_list_update split: if_splits)
  moreover have "cstr ((out_buf s)[0 := NUL]) = ''''"
    using \<open>out_buf s \<noteq> []\<close> by (cases "out_buf s") (simp_all add: cstr_def)
  moreover have "last ((out_buf s)[0 := NUL]) = last (out_buf s) \<or> last ((out_buf s)[0 := NUL]) = NUL"
    using \<open>out_buf s \<noteq> []\<close> by (auto simp: last_list_update)
  moreover have "Demangle (Some m) (Some buf) = (if b \<and> \<not> overflowed s then Some (True, Some (out_buf s))
      else Some (False, Some ((out_buf s)[0 := NUL])))"
    using r(1) ne by (simp add: Demangle_def ValidDemangleArguments_def)
  ultimately show thesis
    using that [of True "out_buf s"] that [of False "(out_buf s)[0 := NUL]"] len
    by (cases "b \<and> \<not> overflowed s") auto
qed

text \<open>
  C4. \<open>Demangle\<close> always returns, on every input: it is total although its loops and its
  backtracking are bounded only by the input, the depth and the step budget. It never changes
  the size of the output buffer, a failure leaves the empty string, and the last character of
  the buffer is either untouched or the terminator.
\<close>

theorem Demangle_total:
  assumes "buf \<noteq> []"
  shows "\<exists>ok out. Demangle (Some m) (Some buf) = Some (ok, Some out)
    \<and> length out = length buf \<and> (ok \<or> cstr out = '''')
    \<and> (last out = last buf \<or> last out = NUL)"
  using Demangle_run [OF assms, of m] by metis

lemma Demangle_total_witness:
  "\<exists>ok out. Demangle (Some ''_ZN3FooC1Ev'') (Some (replicate 80 CHR ''x'')) = Some (ok, Some out)
    \<and> length out = 80"
  using Demangle_total [of "replicate 80 CHR ''x''" "''_ZN3FooC1Ev''"] by auto

text \<open>
  The output is a C string inside the buffer whenever the last character of the buffer was
  the terminator before the call, whatever the input and the result.
\<close>

theorem Demangle_terminated:
  assumes "buf \<noteq> []" and "last buf = NUL"
    and "Demangle (Some m) (Some buf) = Some (ok, Some out)"
  shows "length (cstr out) < length buf"
proof -
  obtain ok' out' where r: "Demangle (Some m) (Some buf) = Some (ok', Some out')"
      "length out' = length buf" "last out' = last buf \<or> last out' = NUL"
    by (rule Demangle_run [OF assms(1)])
  then have o: "length out = length buf" "last out = NUL" "out \<noteq> []"
    using assms by auto
  then have "NUL \<in> set out" by (metis last_in_set)
  then show ?thesis
    using o(1) takeWhile_not_all [of out] by (metis cstr_def)
qed

lemma Demangle_terminated_witness:
  "Demangle (Some ''_Z1fv'') (Some (replicate 8 NUL)) = Some (True, Some (''f()'' @ replicate 5 NUL))
   \<and> length (cstr (''f()'' @ replicate 5 NUL)) < length (replicate 8 NUL)"
proof -
  have r: "Demangle (Some ''_Z1fv'') (Some (replicate 8 NUL))
      = Some (True, Some (''f()'' @ replicate 5 NUL))"
    by code_simp
  show ?thesis
    using r Demangle_terminated [OF _ _ r] by simp
qed

text \<open>
  C6. A parsing function that returns false leaves the state as it found it, except for the
  memory behind the output and the steps it used up: the convention that the backtracking relies
  on, for each of the nine guarded functions at every depth.
\<close>

theorem parse_false_restores:
  assumes "parse k nt s = Some (False, s')"
  shows "s' = s\<lparr>out_buf := out_buf s', steps_remaining := steps_remaining s'\<rparr>"
  using calls.call_clean [of k nt] assms unfolding clean_def restore_def by blast

lemma parse_false_restores_witness:
  "\<exists>s'. parse 64 Type (InitState ''E'' ''xx'') = Some (False, s')
    \<and> s' = (InitState ''E'' ''xx'')\<lparr>out_buf := out_buf s', steps_remaining := steps_remaining s'\<rparr>"
proof -
  obtain b s' where r: "parse 64 Type (InitState ''E'' ''xx'') = Some (b, s')"
    using soundE [OF calls.call_sound [of 64 Type] wf_InitState [of "''xx''" "''E''"]] by blast
  have "\<not> fst (the (parse 64 Type (InitState ''E'' ''xx'')))" by code_simp
  then have "parse 64 Type (InitState ''E'' ''xx'') = Some (False, s')" using r by simp
  then show ?thesis using parse_false_restores by blast
qed



text \<open>The guard refuses at the maximal depth: the recursion of \<open>parse\<close> needs no other bound.\<close>

lemma parse_full_depth:
  assumes "parse_depth s = kMaxParseDepth"
  shows "parse_body P nt s = Some (False, s)"
  using assms
  by (cases nt) (simp_all add: parse_body_def ParseEncoding_def ParseName_def ParseNestedName_def
      ParsePrefix_def ParseType_def ParseTemplateArg_def ParseBracedExpression_def
      ParseExpression_def ParseLocalName_def ParseDepthGuard_def ParseLevelGuard_def)

text \<open>
  Without the hypothesis on the last character a successful call may leave no terminator: the
  first alternative of \<open>ParseLocalName\<close> overflows the buffer, backtracking restores
  \<open>overflowed\<close> but not the memory, and the second alternative prints nothing.
\<close>

lemma Demangle_not_terminated:
  "Demangle (Some ''_ZZUt_Es'') (Some ''zz'') = Some (True, Some '':z'')"
  by code_simp

end
