(* ===== verification/Counts.thy ===== *)
theory Counts imports Prelude "HOL-Library.AList" begin

text \<open>
  Counters by key, the way \<open>src/src/logging.cc\<close> keeps them in an \<open>unordered_map\<close>: an entry is made
  by the first increment and erased when its count is back at zero. The interface is the locale
  \<open>counters\<close>; what its clients need is that such a map \<open>tracks\<close> a function.
\<close>

section \<open>The interface\<close>

locale counters =
  fixes none :: 'm
    and count :: "'m \<Rightarrow> 'k \<Rightarrow> nat"
    and add :: "'k \<Rightarrow> nat \<Rightarrow> 'm \<Rightarrow> 'm"
    and sub :: "'k \<Rightarrow> nat \<Rightarrow> 'm \<Rightarrow> 'm"
    and wf :: "'m \<Rightarrow> bool"
  assumes wf_none: "wf none"
    and count_none: "count none k = 0"
    and wf_add: "wf m \<Longrightarrow> 0 < n \<Longrightarrow> wf (add k n m)"
    and count_add: "wf m \<Longrightarrow> count (add k n m) j = (if j = k then count m k + n else count m j)"
    and wf_sub: "wf m \<Longrightarrow> wf (sub k n m)"
    and count_sub: "wf m \<Longrightarrow> count (sub k n m) j = (if j = k then count m k - n else count m j)"
begin

definition tracks :: "'m \<Rightarrow> ('k \<Rightarrow> nat) \<Rightarrow> bool" where
  "tracks m f \<longleftrightarrow> wf m \<and> (\<forall>k. count m k = f k)"

lemma tracksD: "tracks m f \<Longrightarrow> count m k = f k"
  by (simp add: tracks_def)

lemma tracks_wf: "tracks m f \<Longrightarrow> wf m"
  by (simp add: tracks_def)

lemma tracks_none: "tracks none (\<lambda>k. 0)"
  by (simp add: tracks_def wf_none count_none)

lemma tracks_add:
  assumes "tracks m f" and "0 < n" and "g k = f k + n" and "\<And>j. j \<noteq> k \<Longrightarrow> g j = f j"
  shows "tracks (add k n m) g"
  using assms by (simp add: tracks_def wf_add count_add)

lemma tracks_sub:
  assumes "tracks m f" and "g k = f k - n" and "\<And>j. j \<noteq> k \<Longrightarrow> g j = f j"
  shows "tracks (sub k n m) g"
  using assms by (simp add: tracks_def wf_sub count_sub)

lemma tracks_cong: "tracks m f \<Longrightarrow> (\<And>k. g k = f k) \<Longrightarrow> tracks m g"
  by (simp add: tracks_def)

end

section \<open>Association lists\<close>

type_synonym counts = "(nat \<times> nat) list"

definition count_of :: "counts \<Rightarrow> nat \<Rightarrow> nat" where
  "count_of m k = (case map_of m k of None \<Rightarrow> 0 | Some n \<Rightarrow> n)"

definition count_add :: "nat \<Rightarrow> nat \<Rightarrow> counts \<Rightarrow> counts" where
  "count_add k n m = AList.update k (count_of m k + n) m"

definition count_sub :: "nat \<Rightarrow> nat \<Rightarrow> counts \<Rightarrow> counts" where
  "count_sub k n m =
     (let c = count_of m k - n in if c = 0 then AList.delete k m else AList.update k c m)"

definition counts_ok :: "counts \<Rightarrow> bool" where
  "counts_ok m \<longleftrightarrow> distinct (map fst m) \<and> (\<forall>e \<in> set m. 0 < snd e)"

lemma set_update_subset: "set (AList.update k v al) \<subseteq> insert (k, v) (set al)"
  by (induction al) auto

lemma set_delete_subset: "set (AList.delete k al) \<subseteq> set al"
  by (induction al) auto

lemma counts_ok_update: "counts_ok m \<Longrightarrow> 0 < n \<Longrightarrow> counts_ok (AList.update k n m)"
  using set_update_subset [of k n m] by (auto simp: counts_ok_def distinct_update)

lemma counts_ok_delete: "counts_ok m \<Longrightarrow> counts_ok (AList.delete k m)"
  using set_delete_subset [of k m] by (auto simp: counts_ok_def distinct_delete)

interpretation cm: counters "[]" count_of count_add count_sub counts_ok
proof unfold_locales
  fix m :: counts and k j n :: nat
  assume ok: "counts_ok m"
  show "counts_ok (count_add k n m)" if "0 < n"
    using ok that by (simp add: count_add_def counts_ok_update)
  show "counts_ok (count_sub k n m)"
    using ok by (simp add: count_sub_def Let_def counts_ok_update counts_ok_delete)
  show "count_of (count_add k n m) j = (if j = k then count_of m k + n else count_of m j)"
    by (simp add: count_add_def count_of_def update_conv')
  show "count_of (count_sub k n m) j = (if j = k then count_of m k - n else count_of m j)"
    by (simp add: count_sub_def Let_def count_of_def update_conv' delete_conv')
qed (simp_all add: counts_ok_def count_of_def)

lemma count_of_entry: "counts_ok m \<Longrightarrow> (k, n) \<in> set m \<Longrightarrow> count_of m k = n \<and> 0 < n"
  by (auto simp: counts_ok_def count_of_def)

lemma count_of_None: "counts_ok m \<Longrightarrow> count_of m k = 0 \<longleftrightarrow> map_of m k = None"
  by (auto simp: counts_ok_def count_of_def split: option.splits dest!: map_of_SomeD)

end
