(* ===== verification/Sinks.thy ===== *)
theory Sinks imports Counts begin

text \<open>
  The protocol of \<open>src/src/logging.cc\<close> by which log sinks are called, added and removed while
  other threads log. Every thread runs the steps below one at a time, interleaved with the steps
  of all others; a step is what the code does while it holds \<open>sink_mutex_\<close> or
  \<open>sink_call_mutex_\<close>, or one access to \<open>sinks_present_\<close>. A callback of a sink may log, add and
  remove sinks itself, so a thread has a stack of the calls that it is in.
\<close>

section \<open>State\<close>

datatype frame =
    LoadPresent              \<comment> \<open>\<open>GetSinks\<close> before \<open>sinks_present_\<close> is read\<close>
  | ReadSinks                \<comment> \<open>\<open>GetSinks\<close> before \<open>sinks_\<close> is read\<close>
  | SinkLoop "nat list"      \<comment> \<open>the loop of \<open>LogToSinks\<close> or \<open>WaitForSinks\<close>, the sinks to come\<close>
  | SinkCall nat             \<comment> \<open>inside a callback of the sink\<close>
  | AddSink nat              \<comment> \<open>\<open>AddLogSink\<close>\<close>
  | AddStore
  | RemoveSink nat           \<comment> \<open>\<open>RemoveLogSink\<close>\<close>
  | RemoveStore nat bool
  | WaitBegin nat            \<comment> \<open>\<open>WaitForSinkCalls\<close>\<close>
  | WaitQuiet nat
  | WaitCallers nat nat
  | DeleteSinks              \<comment> \<open>\<open>DeleteLogDestinations\<close>\<close>
  | DeleteStore
  | WaitAll                  \<comment> \<open>\<open>WaitForAllSinkCalls\<close>\<close>

text \<open>
  \<open>sink_mutex\<close> is the thread that holds \<open>sink_mutex_\<close> exclusively over more than one step;
  \<open>sink_call_mutex_\<close> and the shared lock are held within a single step.
\<close>

record sink_state =
  registered :: "nat list option"
  sinks_present :: bool
  sink_mutex :: "nat option"
  call_counts :: counts
  waiting_counts :: counts
  thread_counts :: "nat \<Rightarrow> counts"
  stacks :: "nat \<Rightarrow> frame list"

definition initial_sinks :: sink_state where
  "initial_sinks = \<lparr>registered = None, sinks_present = False, sink_mutex = None,
     call_counts = [], waiting_counts = [], thread_counts = (\<lambda>t. []), stacks = (\<lambda>t. [])\<rparr>"

text \<open>A step is not possible now, fails a \<open>CHECK\<close>, or leads to a state.\<close>

datatype outcome = Blocked | Check_failed | Moved sink_state

section \<open>The operations\<close>

definition BeginSinkCall :: "nat \<Rightarrow> nat \<Rightarrow> sink_state \<Rightarrow> bool \<times> sink_state" where
  "BeginSinkCall t sink s = (case registered s of
     None \<Rightarrow> (False, s)
   | Some sinks \<Rightarrow>
       if sink \<notin> set sinks then (False, s)
       else (True, s\<lparr>call_counts := count_add sink 1 (call_counts s),
                     thread_counts := (thread_counts s)(t := count_add sink 1 (thread_counts s t))\<rparr>))"

definition EndSinkCall :: "nat \<Rightarrow> nat \<Rightarrow> sink_state \<Rightarrow> sink_state option" where
  "EndSinkCall t sink s =
     (case (map_of (call_counts s) sink, map_of (thread_counts s t) sink) of
        (Some n, Some m) \<Rightarrow>
          if n > 0 \<and> m > 0
          then Some (s\<lparr>call_counts := count_sub sink 1 (call_counts s),
                       thread_counts := (thread_counts s)(t := count_sub sink 1 (thread_counts s t))\<rparr>)
          else None
      | _ \<Rightarrow> None)"

text \<open>The predicate of \<open>WaitForAllSinkCalls\<close>: only this thread is inside callbacks.\<close>

definition only_own_calls :: "nat \<Rightarrow> sink_state \<Rightarrow> bool" where
  "only_own_calls t s \<longleftrightarrow>
     list_all (\<lambda>(sink, n). n = count_of (thread_counts s t) sink) (call_counts s)
     \<and> list_all (\<lambda>(sink, n). map_of (call_counts s) sink = Some n) (thread_counts s t)"

abbreviation set_stack :: "nat \<Rightarrow> frame list \<Rightarrow> sink_state \<Rightarrow> sink_state" where
  "set_stack t st s \<equiv> s\<lparr>stacks := (stacks s)(t := st)\<rparr>"

text \<open>One step of the innermost call of a thread; \<open>r\<close> is the rest of its stack.\<close>

fun run_frame :: "nat \<Rightarrow> frame \<Rightarrow> frame list \<Rightarrow> sink_state \<Rightarrow> outcome" where
  "run_frame t LoadPresent r s =
     Moved (set_stack t (if sinks_present s then ReadSinks # r else r) s)"
| "run_frame t ReadSinks r s =
     (if sink_mutex s \<noteq> None then Blocked
      else Moved (set_stack t (case registered s of
             None \<Rightarrow> r | Some sinks \<Rightarrow> SinkLoop (rev sinks) # r) s))"
| "run_frame t (SinkLoop []) r s = Moved (set_stack t r s)"
| "run_frame t (SinkLoop (sink # sinks)) r s =
     (let (ok, s') = BeginSinkCall t sink s
      in Moved (set_stack t (if ok then SinkCall sink # SinkLoop sinks # r else SinkLoop sinks # r) s'))"
| "run_frame t (SinkCall sink) r s = (case EndSinkCall t sink s of
     None \<Rightarrow> Check_failed | Some s' \<Rightarrow> Moved (set_stack t r s'))"
| "run_frame t (AddSink sink) r s =
     (if sink_mutex s \<noteq> None then Blocked
      else Moved (set_stack t (AddStore # r)
        (s\<lparr>registered := Some ((case registered s of None \<Rightarrow> [] | Some sinks \<Rightarrow> sinks) @ [sink]),
           sink_mutex := Some t\<rparr>)))"
| "run_frame t AddStore r s = Moved (set_stack t r (s\<lparr>sinks_present := True, sink_mutex := None\<rparr>))"
| "run_frame t (RemoveSink sink) r s =
     (if sink_mutex s \<noteq> None then Blocked
      else Moved (case registered s of
          None \<Rightarrow> set_stack t (WaitBegin sink # r) s
        | Some sinks \<Rightarrow>
            let sinks' = filter (\<lambda>x. x \<noteq> sink) sinks
            in set_stack t (RemoveStore sink (sinks' \<noteq> []) # r)
                 (s\<lparr>registered := Some sinks', sink_mutex := Some t\<rparr>)))"
| "run_frame t (RemoveStore sink present) r s =
     Moved (set_stack t (WaitBegin sink # r) (s\<lparr>sinks_present := present, sink_mutex := None\<rparr>))"
| "run_frame t (WaitBegin sink) r s =
     (let n = count_of (thread_counts s t) sink
      in if n = 0 then Moved (set_stack t (WaitQuiet sink # r) s)
         else Moved (set_stack t (WaitCallers sink n # r)
                (s\<lparr>waiting_counts := count_add sink n (waiting_counts s)\<rparr>)))"
| "run_frame t (WaitQuiet sink) r s =
     (if map_of (call_counts s) sink = None then Moved (set_stack t r s) else Blocked)"
| "run_frame t (WaitCallers sink n) r s =
     (if count_of (call_counts s) sink = count_of (waiting_counts s) sink
      then Moved (set_stack t r (s\<lparr>waiting_counts := count_sub sink n (waiting_counts s)\<rparr>))
      else Blocked)"
| "run_frame t DeleteSinks r s =
     (if sink_mutex s \<noteq> None then Blocked
      else Moved (set_stack t (DeleteStore # r) (s\<lparr>registered := None, sink_mutex := Some t\<rparr>)))"
| "run_frame t DeleteStore r s =
     Moved (set_stack t (WaitAll # r) (s\<lparr>sinks_present := False, sink_mutex := None\<rparr>))"
| "run_frame t WaitAll r s = (if only_own_calls t s then Moved (set_stack t r s) else Blocked)"

text \<open>
  A thread goes on with its innermost call (a callback returns), or, when it is outside the
  library or inside a callback, makes another call.
\<close>

datatype action = Run | Log_message | Add_sink nat | Remove_sink nat | Delete_destinations

fun first_frame :: "action \<Rightarrow> frame option" where
  "first_frame Run = None"
| "first_frame Log_message = Some LoadPresent"
| "first_frame (Add_sink sink) = Some (AddSink sink)"
| "first_frame (Remove_sink sink) = Some (RemoveSink sink)"
| "first_frame Delete_destinations = Some DeleteSinks"

definition may_call :: "frame list \<Rightarrow> bool" where
  "may_call st \<longleftrightarrow> (case st of [] \<Rightarrow> True | SinkCall k # _ \<Rightarrow> True | _ \<Rightarrow> False)"

definition sink_step :: "nat \<Rightarrow> action \<Rightarrow> sink_state \<Rightarrow> outcome" where
  "sink_step t a s = (case first_frame a of
     None \<Rightarrow> (case stacks s t of [] \<Rightarrow> Blocked | f # r \<Rightarrow> run_frame t f r s)
   | Some f \<Rightarrow> if may_call (stacks s t) then Moved (set_stack t (f # stacks s t) s) else Blocked)"

fun sink_run :: "(nat \<times> action) list \<Rightarrow> sink_state \<Rightarrow> outcome" where
  "sink_run [] s = Moved s"
| "sink_run ((t, a) # es) s = (case sink_step t a s of
     Moved s' \<Rightarrow> sink_run es s' | Blocked \<Rightarrow> Blocked | Check_failed \<Rightarrow> Check_failed)"

text \<open>The states that \<open>T\<close> threads can reach together.\<close>

inductive sink_reachable :: "nat \<Rightarrow> sink_state \<Rightarrow> bool" for T where
  start: "sink_reachable T initial_sinks"
| step: "sink_reachable T s \<Longrightarrow> t < T \<Longrightarrow> sink_step t a s = Moved s' \<Longrightarrow> sink_reachable T s'"

inductive_simps sink_reachable_simps: "sink_reachable T s"

section \<open>The invariant\<close>

text \<open>Calls of a sink that a stack is inside of, and those that it waits with.\<close>

definition calls_in :: "frame list \<Rightarrow> nat \<Rightarrow> nat" where
  "calls_in st sink = count_list st (SinkCall sink)"

fun waits_in :: "frame list \<Rightarrow> nat \<Rightarrow> nat" where
  "waits_in (WaitCallers k n # r) sink = (if sink = k then n else 0)"
| "waits_in st sink = 0"

text \<open>
  The shape of a stack: a callback runs inside the loop that makes it, everything else is called
  from outside the library or from a callback.
\<close>

definition in_loop :: "frame list \<Rightarrow> bool" where
  "in_loop st \<longleftrightarrow> (case st of SinkLoop sinks # _ \<Rightarrow> True | _ \<Rightarrow> False)"

fun stack_ok :: "frame list \<Rightarrow> bool" where
  "stack_ok [] \<longleftrightarrow> True"
| "stack_ok (SinkCall k # r) \<longleftrightarrow> in_loop r \<and> stack_ok r"
| "stack_ok (WaitCallers k n # r) \<longleftrightarrow> may_call r \<and> stack_ok r \<and> 0 < n \<and> n = calls_in r k"
| "stack_ok (f # r) \<longleftrightarrow> may_call r \<and> stack_ok r"

lemma waits_in_may_call: "may_call r \<Longrightarrow> waits_in r k = 0"
  by (auto simp: may_call_def split: list.splits frame.splits)

lemma waits_in_loop: "in_loop r \<Longrightarrow> waits_in r k = 0"
  by (auto simp: in_loop_def split: list.splits frame.splits)

definition sum_stacks :: "nat \<Rightarrow> (frame list \<Rightarrow> nat \<Rightarrow> nat) \<Rightarrow> (nat \<Rightarrow> frame list) \<Rightarrow> nat \<Rightarrow> nat" where
  "sum_stacks T g sts sink = (\<Sum>t<T. g (sts t) sink)"

definition sink_inv :: "nat \<Rightarrow> sink_state \<Rightarrow> bool" where
  "sink_inv T s \<longleftrightarrow>
     (\<forall>t. cm.tracks (thread_counts s t) (calls_in (stacks s t)))
     \<and> cm.tracks (call_counts s) (sum_stacks T calls_in (stacks s))
     \<and> cm.tracks (waiting_counts s) (sum_stacks T waits_in (stacks s))
     \<and> (\<forall>t. stack_ok (stacks s t))
     \<and> (\<forall>t\<ge>T. stacks s t = [])"

lemma sink_invI:
  assumes "\<And>t. cm.tracks (thread_counts s t) (calls_in (stacks s t))"
    and "cm.tracks (call_counts s) (sum_stacks T calls_in (stacks s))"
    and "cm.tracks (waiting_counts s) (sum_stacks T waits_in (stacks s))"
    and "\<And>t. stack_ok (stacks s t)"
    and "\<And>t. T \<le> t \<Longrightarrow> stacks s t = []"
  shows "sink_inv T s"
  using assms by (simp add: sink_inv_def)

lemma sink_invD:
  assumes "sink_inv T s"
  shows "cm.tracks (thread_counts s t) (calls_in (stacks s t))"
    and "cm.tracks (call_counts s) (sum_stacks T calls_in (stacks s))"
    and "cm.tracks (waiting_counts s) (sum_stacks T waits_in (stacks s))"
    and "stack_ok (stacks s t)"
    and "T \<le> t \<Longrightarrow> stacks s t = []"
  using assms by (auto simp: sink_inv_def)

lemma calls_in_simps [simp]:
  "calls_in [] k = 0"
  "calls_in (f # r) k = calls_in r k + (if f = SinkCall k then 1 else 0)"
  by (simp_all add: calls_in_def)

lemma calls_in_pos: "0 < calls_in st k \<longleftrightarrow> SinkCall k \<in> set st"
  by (induction st) auto

lemma sum_stacks_upd:
  assumes "t < T"
  shows "sum_stacks T g (sts(t := st)) k + g (sts t) k = sum_stacks T g sts k + g st k"
proof -
  have "(\<Sum>u<T. g ((sts(t := st)) u) k) = g st k + (\<Sum>u\<in>{..<T} - {t}. g (sts u) k)"
    using assms by (subst sum.remove [of _ t]) (auto intro!: sum.cong)
  moreover have "(\<Sum>u<T. g (sts u) k) = g (sts t) k + (\<Sum>u\<in>{..<T} - {t}. g (sts u) k)"
    using assms by (subst sum.remove [of _ t]) auto
  ultimately show ?thesis by (simp add: sum_stacks_def)
qed

lemma sum_stacks_ge: "t < T \<Longrightarrow> g (sts t) k \<le> sum_stacks T g sts k"
  unfolding sum_stacks_def by (rule member_le_sum) auto

lemma sum_stacks_add:
  "t < T \<Longrightarrow> g st k = g (sts t) k + n \<Longrightarrow> sum_stacks T g (sts(t := st)) k = sum_stacks T g sts k + n"
  using sum_stacks_upd [of t T g sts st k] by simp

lemma sum_stacks_sub:
  "t < T \<Longrightarrow> g (sts t) k = g st k + n \<Longrightarrow> sum_stacks T g (sts(t := st)) k = sum_stacks T g sts k - n"
  using sum_stacks_upd [of t T g sts st k] by simp

lemmas sum_stacks_same = sum_stacks_add [where n = 0, simplified]

text \<open>
  A step of thread \<open>t\<close> that leaves its stack as \<open>st\<close>: what each counter has to do.
\<close>

lemma sink_inv_update:
  assumes inv: "sink_inv T s" and t: "t < T" and st: "stacks s' = (stacks s)(t := st)"
    and others: "\<And>u. u \<noteq> t \<Longrightarrow> thread_counts s' u = thread_counts s u"
    and ok: "stack_ok st"
    and own: "cm.tracks (thread_counts s' t) (calls_in st)"
    and call: "cm.tracks (call_counts s') (sum_stacks T calls_in ((stacks s)(t := st)))"
    and wait: "cm.tracks (waiting_counts s') (sum_stacks T waits_in ((stacks s)(t := st)))"
  shows "sink_inv T s'"
proof (rule sink_invI)
  fix u
  show "cm.tracks (thread_counts s' u) (calls_in (stacks s' u))"
    using own sink_invD(1) [OF inv, of u] by (cases "u = t") (simp_all add: st others)
  show "stack_ok (stacks s' u)"
    using ok sink_invD(4) [OF inv, of u] by (simp add: st)
  show "stacks s' u = []" if "T \<le> u"
    using that t sink_invD(5) [OF inv, of u] by (simp add: st)
qed (use call wait in \<open>simp_all add: st\<close>)

text \<open>A step that neither begins or ends a callback nor a wait keeps the invariant.\<close>

lemma sink_inv_quiet:
  assumes inv: "sink_inv T s" and t: "t < T"
    and calls: "\<And>k. calls_in st k = calls_in (stacks s t) k"
    and waits: "\<And>k. waits_in st k = waits_in (stacks s t) k" and ok: "stack_ok st"
    and same: "call_counts s' = call_counts s" "waiting_counts s' = waiting_counts s"
      "thread_counts s' = thread_counts s" "stacks s' = (stacks s)(t := st)"
  shows "sink_inv T s'"
proof (rule sink_inv_update [OF inv t])
  show "cm.tracks (thread_counts s' t) (calls_in st)"
    using sink_invD(1) [OF inv, of t] by (simp add: same calls cm.tracks_cong)
  show "cm.tracks (call_counts s') (sum_stacks T calls_in ((stacks s)(t := st)))"
    using sink_invD(2) [OF inv] by (simp add: same cm.tracks_cong sum_stacks_same t calls)
  show "cm.tracks (waiting_counts s') (sum_stacks T waits_in ((stacks s)(t := st)))"
    using sink_invD(3) [OF inv] by (simp add: same cm.tracks_cong sum_stacks_same t waits)
qed (simp_all add: same ok)

lemma sink_inv_begin:
  assumes inv: "sink_inv T s" and t: "t < T" and st: "stacks s t = SinkLoop (sink # sinks) # r"
  shows "sink_inv T (set_stack t (SinkCall sink # SinkLoop sinks # r)
     (s\<lparr>call_counts := count_add sink 1 (call_counts s),
        thread_counts := (thread_counts s)(t := count_add sink 1 (thread_counts s t))\<rparr>))"
    (is "sink_inv T ?s'")
proof (rule sink_inv_update [OF inv t, where st = "SinkCall sink # SinkLoop sinks # r"])
  show "cm.tracks (thread_counts ?s' t) (calls_in (SinkCall sink # SinkLoop sinks # r))"
    using sink_invD(1) [OF inv, of t] by (auto simp: st intro!: cm.tracks_add)
  show "cm.tracks (call_counts ?s')
      (sum_stacks T calls_in ((stacks s)(t := SinkCall sink # SinkLoop sinks # r)))"
    using sink_invD(2) [OF inv] t
    by (auto simp: st sum_stacks_add sum_stacks_same intro!: cm.tracks_add)
  show "cm.tracks (waiting_counts ?s')
      (sum_stacks T waits_in ((stacks s)(t := SinkCall sink # SinkLoop sinks # r)))"
    using sink_invD(3) [OF inv] t by (simp add: st sum_stacks_same cm.tracks_cong)
qed (use sink_invD(4) [OF inv, of t] in \<open>simp_all add: st in_loop_def\<close>)

lemma sink_inv_end:
  assumes inv: "sink_inv T s" and t: "t < T" and st: "stacks s t = SinkCall sink # r"
  shows "sink_inv T (set_stack t r
     (s\<lparr>call_counts := count_sub sink 1 (call_counts s),
        thread_counts := (thread_counts s)(t := count_sub sink 1 (thread_counts s t))\<rparr>))"
    (is "sink_inv T ?s'")
proof (rule sink_inv_update [OF inv t, where st = r])
  have r: "in_loop r" "stack_ok r" using sink_invD(4) [OF inv, of t] by (simp_all add: st)
  show "cm.tracks (thread_counts ?s' t) (calls_in r)"
    using sink_invD(1) [OF inv, of t] by (auto simp: st intro!: cm.tracks_sub)
  show "cm.tracks (call_counts ?s') (sum_stacks T calls_in ((stacks s)(t := r)))"
    using sink_invD(2) [OF inv] t
    by (auto simp: st sum_stacks_sub sum_stacks_same intro!: cm.tracks_sub)
  show "cm.tracks (waiting_counts ?s') (sum_stacks T waits_in ((stacks s)(t := r)))"
    using sink_invD(3) [OF inv] t by (simp add: st r waits_in_loop sum_stacks_same cm.tracks_cong)
qed (use sink_invD(4) [OF inv, of t] in \<open>simp_all add: st\<close>)

lemma sink_inv_wait:
  assumes inv: "sink_inv T s" and t: "t < T" and st: "stacks s t = WaitBegin sink # r"
    and n: "n = calls_in r sink" "n \<noteq> 0"
  shows "sink_inv T (set_stack t (WaitCallers sink n # r)
     (s\<lparr>waiting_counts := count_add sink n (waiting_counts s)\<rparr>))"
    (is "sink_inv T ?s'")
proof (rule sink_inv_update [OF inv t, where st = "WaitCallers sink n # r"])
  show "cm.tracks (call_counts ?s') (sum_stacks T calls_in ((stacks s)(t := WaitCallers sink n # r)))"
    using sink_invD(2) [OF inv] t by (simp add: st sum_stacks_same cm.tracks_cong)
  show "cm.tracks (waiting_counts ?s')
      (sum_stacks T waits_in ((stacks s)(t := WaitCallers sink n # r)))"
    using sink_invD(3) [OF inv] t n
    by (auto simp: st sum_stacks_add sum_stacks_same intro!: cm.tracks_add)
  show "stack_ok (WaitCallers sink n # r)"
    using sink_invD(4) [OF inv, of t] n by (simp add: st)
qed (use sink_invD(1) [OF inv, of t] in \<open>simp_all add: st cm.tracks_cong\<close>)

lemma sink_inv_return:
  assumes inv: "sink_inv T s" and t: "t < T" and st: "stacks s t = WaitCallers sink n # r"
  shows "sink_inv T (set_stack t r
     (s\<lparr>waiting_counts := count_sub sink n (waiting_counts s)\<rparr>))"
    (is "sink_inv T ?s'")
proof (rule sink_inv_update [OF inv t, where st = r])
  have r: "may_call r" "stack_ok r" using sink_invD(4) [OF inv, of t] by (simp_all add: st)
  show "cm.tracks (call_counts ?s') (sum_stacks T calls_in ((stacks s)(t := r)))"
    using sink_invD(2) [OF inv] t by (simp add: st sum_stacks_same cm.tracks_cong)
  show "cm.tracks (waiting_counts ?s') (sum_stacks T waits_in ((stacks s)(t := r)))"
    using sink_invD(3) [OF inv] t
    by (auto simp: st waits_in_may_call [OF r(1)] sum_stacks_sub sum_stacks_same
        intro!: cm.tracks_sub)
  show "stack_ok r" by (rule r)
qed (use sink_invD(1) [OF inv, of t] in \<open>simp_all add: st cm.tracks_cong\<close>)

lemma may_call_simps [simp]: "may_call []" "may_call (SinkCall k # r)"
  by (simp_all add: may_call_def)

lemma in_loop_simps [simp]: "in_loop (SinkLoop ks # r)"
  by (simp add: in_loop_def)

lemma sink_inv_quiet':
  assumes "sink_inv T s" and "t < T" and "stacks s' = (stacks s)(t := stacks s' t)"
    and "\<And>k. calls_in (stacks s' t) k = calls_in (stacks s t) k"
    and "\<And>k. waits_in (stacks s' t) k = waits_in (stacks s t) k" and "stack_ok (stacks s' t)"
    and "call_counts s' = call_counts s" "waiting_counts s' = waiting_counts s"
      "thread_counts s' = thread_counts s"
  shows "sink_inv T s'"
  by (rule sink_inv_quiet [OF assms(1,2) _ _ assms(6-9,3)]) (simp_all add: assms(4,5))

lemma run_frame_inv:
  assumes inv: "sink_inv T s" and t: "t < T" and st: "stacks s t = f # r"
    and m: "run_frame t f r s = Moved s'"
  shows "sink_inv T s'"
proof -
  have ok: "stack_ok (f # r)" using sink_invD(4) [OF inv, of t] by (simp add: st)
  note quiet = sink_inv_quiet' [OF inv t]
  show ?thesis
  proof (cases "(t, f, r, s)" rule: run_frame.cases)
    case (4 t' sink sinks r' s1)
    then show ?thesis
      using m st ok sink_inv_begin [OF inv t, of sink sinks r]
      by (auto simp: BeginSinkCall_def split: option.splits if_splits intro!: quiet)
  next
    case (5 t' sink r' s1)
    then show ?thesis
      using m st ok sink_inv_end [OF inv t, of sink r]
      by (auto simp: EndSinkCall_def split: option.splits if_splits)
  next
    case (10 t' sink r' s1)
    then show ?thesis
      using m st ok sink_inv_wait [OF inv t, of sink r] cm.tracksD [OF sink_invD(1) [OF inv, of t]]
      by (auto simp: Let_def split: if_splits intro!: quiet)
  next
    case (12 t' sink n r' s1)
    then show ?thesis
      using m st ok sink_inv_return [OF inv t, of sink n r] by (auto split: if_splits)
  qed (use m st ok in \<open>auto simp: waits_in_may_call Let_def split: if_splits option.splits
         intro!: quiet\<close>)
qed

lemma sink_step_inv:
  assumes inv: "sink_inv T s" and t: "t < T" and m: "sink_step t a s = Moved s'"
  shows "sink_inv T s'"
proof (cases "first_frame a")
  case None
  then obtain f r where "stacks s t = f # r" "run_frame t f r s = Moved s'"
    using m by (auto simp: sink_step_def split: list.splits)
  then show ?thesis by (rule run_frame_inv [OF inv t])
next
  case (Some f)
  then have *: "may_call (stacks s t)" "s' = set_stack t (f # stacks s t) s"
    using m by (auto simp: sink_step_def split: if_splits)
  moreover have "stack_ok (f # stacks s t)"
    using Some * sink_invD(4) [OF inv, of t] by (cases a) auto
  ultimately show ?thesis
    using Some by (cases a) (auto intro!: sink_inv_quiet' [OF inv t] simp: waits_in_may_call)
qed

lemma sink_inv_initial: "sink_inv T initial_sinks"
  by (auto intro!: sink_invI cm.tracks_cong [OF cm.tracks_none]
      simp: initial_sinks_def sum_stacks_def)

lemma sink_reachable_inv: "sink_reachable T s \<Longrightarrow> sink_inv T s"
  by (induction rule: sink_reachable.induct) (auto intro: sink_inv_initial sink_step_inv)

end
