(* ===== verification/SinksProps.thy ===== *)
theory SinksProps imports Sinks begin

text \<open>
  What the protocol of the theory \<open>Sinks\<close> promises to a user of \<open>AddLogSink\<close> and \<open>RemoveLogSink\<close>:
  the counts are exact, a sink whose removal returned is called by nobody, and where removals wait
  for each other and where they do not.
\<close>

section \<open>Counting\<close>

lemma sink_call_counted:
  assumes "sink_inv T s" and "SinkCall k \<in> set (stacks s t)"
  shows "t < T" and "0 < calls_in (stacks s t) k"
    and "calls_in (stacks s t) k \<le> count_of (call_counts s) k"
proof -
  show t: "t < T" using assms sink_invD(5) [OF assms(1), of t] by (cases "t < T") auto
  show "0 < calls_in (stacks s t) k" using assms(2) by (simp add: calls_in_pos)
  show "calls_in (stacks s t) k \<le> count_of (call_counts s) k"
    using cm.tracksD [OF sink_invD(2) [OF assms(1)], of k] sum_stacks_ge [OF t] by simp
qed

lemma EndSinkCall_no_failure:
  assumes inv: "sink_inv T s" and st: "stacks s t = SinkCall k # r"
  shows "EndSinkCall t k s \<noteq> None"
proof -
  have "0 < count_of (thread_counts s t) k" "0 < count_of (call_counts s) k"
    using sink_call_counted [OF inv, of k t] cm.tracksD [OF sink_invD(1) [OF inv, of t], of k] st
    by auto
  then show ?thesis by (auto simp: EndSinkCall_def count_of_def split: option.splits)
qed

lemma run_frame_no_failure:
  assumes "sink_inv T s" and "stacks s t = f # r"
  shows "run_frame t f r s \<noteq> Check_failed"
  using EndSinkCall_no_failure [of T s t] assms
  by (cases "(t, f, r, s)" rule: run_frame.cases) (auto simp: Let_def split: option.splits prod.splits)


section \<open>Removing a sink\<close>

definition waits_for :: "nat \<Rightarrow> frame list \<Rightarrow> bool" where
  "waits_for k st \<longleftrightarrow> (case st of WaitCallers j n # _ \<Rightarrow> j = k | _ \<Rightarrow> False)"

lemma waits_in_le_calls: "stack_ok st \<Longrightarrow> waits_in st k \<le> calls_in st k"
  by (induction st rule: stack_ok.induct) auto

lemma waits_in_eq_calls:
  assumes "stack_ok st" and "waits_in st k = calls_in st k" and "0 < calls_in st k"
  shows "waits_for k st"
  using assms(2,3)
  by (cases "(st, k)" rule: waits_in.cases) (auto simp: waits_for_def simp del: calls_in_simps
      split: if_splits)

lemma waits_for_eq: "stack_ok st \<Longrightarrow> waits_for k st \<Longrightarrow> waits_in st k = calls_in st k"
  by (auto simp: waits_for_def split: list.splits frame.splits)

lemma sum_eq_pointwise:
  fixes f g :: "nat \<Rightarrow> nat"
  assumes "(\<Sum>t<T. f t) = (\<Sum>t<T. g t)" and "\<And>t. f t \<le> g t" and "u < T"
  shows "f u = g u"
proof (rule ccontr)
  assume "f u \<noteq> g u"
  then have "f u < g u" using assms(2) [of u] by simp
  then have "(\<Sum>t<T. f t) < (\<Sum>t<T. g t)"
    using assms(2,3) by (intro sum_strict_mono_ex1) auto
  then show False using assms(1) by simp
qed

text \<open>The two conditions that a removal waits for, in terms of the callbacks in progress.\<close>

lemma quiet_iff:
  assumes "sink_inv T s"
  shows "map_of (call_counts s) k = None \<longleftrightarrow> (\<forall>u. SinkCall k \<notin> set (stacks s u))"
proof -
  have "map_of (call_counts s) k = None \<longleftrightarrow> count_of (call_counts s) k = 0"
    using count_of_None cm.tracks_wf [OF sink_invD(2) [OF assms]] by metis
  also have "\<dots> \<longleftrightarrow> (\<forall>t<T. calls_in (stacks s t) k = 0)"
    using cm.tracksD [OF sink_invD(2) [OF assms], of k] by (auto simp: sum_stacks_def)
  also have "\<dots> \<longleftrightarrow> (\<forall>u. SinkCall k \<notin> set (stacks s u))"
    using sink_call_counted(1) [OF assms] calls_in_pos by (metis gr_zeroI less_irrefl)
  finally show ?thesis .
qed

lemma callers_iff:
  assumes inv: "sink_inv T s"
  shows "count_of (call_counts s) k = count_of (waiting_counts s) k
    \<longleftrightarrow> (\<forall>u. SinkCall k \<in> set (stacks s u) \<longrightarrow> waits_for k (stacks s u))"
proof -
  have eq: "count_of (call_counts s) k = count_of (waiting_counts s) k
      \<longleftrightarrow> (\<Sum>t<T. waits_in (stacks s t) k) = (\<Sum>t<T. calls_in (stacks s t) k)"
    using cm.tracksD [OF sink_invD(2) [OF inv], of k] cm.tracksD [OF sink_invD(3) [OF inv], of k]
    by (auto simp: sum_stacks_def)
  note ok = sink_invD(4) [OF inv]
  show ?thesis
    unfolding eq
  proof
    assume *: "(\<Sum>t<T. waits_in (stacks s t) k) = (\<Sum>t<T. calls_in (stacks s t) k)"
    show "\<forall>u. SinkCall k \<in> set (stacks s u) \<longrightarrow> waits_for k (stacks s u)"
    proof (intro allI impI)
      fix u assume "SinkCall k \<in> set (stacks s u)"
      then have "u < T" "0 < calls_in (stacks s u) k" using sink_call_counted [OF inv] by auto
      then show "waits_for k (stacks s u)"
        using waits_in_eq_calls [OF ok] sum_eq_pointwise [OF *] waits_in_le_calls [OF ok] by simp
    qed
  next
    assume *: "\<forall>u. SinkCall k \<in> set (stacks s u) \<longrightarrow> waits_for k (stacks s u)"
    show "(\<Sum>t<T. waits_in (stacks s t) k) = (\<Sum>t<T. calls_in (stacks s t) k)"
    proof (rule sum.cong)
      fix u
      show "waits_in (stacks s u) k = calls_in (stacks s u) k"
        using * waits_for_eq [OF ok] calls_in_pos [of "stacks s u" k] waits_in_le_calls [OF ok, of u k]
        by (metis bot_nat_0.extremum_unique gr_zeroI)
    qed simp
  qed
qed

lemma sink_step_Run: "stacks s t = f # r \<Longrightarrow> sink_step t Run s = run_frame t f r s"
  by (simp add: sink_step_def)

lemma sink_run_reachable:
  assumes "sink_reachable T s" and "list_all (\<lambda>e. fst e < T) es" and "sink_run es s = Moved s'"
  shows "sink_reachable T s'"
  using assms
proof (induction es arbitrary: s)
  case (Cons e es)
  obtain t a where e: "e = (t, a)" by (cases e)
  obtain s1 where "sink_step t a s = Moved s1" "sink_run es s1 = Moved s'"
    using Cons.prems(3) by (auto simp: e split: outcome.splits)
  then show ?case
    using Cons.IH [of s1] Cons.prems(1,2) by (auto simp: e intro: sink_reachable.step)
qed simp

text \<open>The state after a run from the start, for concrete runs.\<close>

definition after :: "(nat \<times> action) list \<Rightarrow> sink_state" where
  "after es = (case sink_run es initial_sinks of Moved s \<Rightarrow> s | _ \<Rightarrow> initial_sinks)"

lemma after_reachable: "list_all (\<lambda>e. fst e < T) es \<Longrightarrow> sink_reachable T (after es)"
  by (auto simp: after_def intro: sink_reachable.start sink_run_reachable split: outcome.splits)

text \<open>Thread 0 adds sink 7 and removes it again while thread 1 is inside its callback.\<close>

definition removal_run :: "(nat \<times> action) list" where
  "removal_run = [(0, Add_sink 7), (0, Run), (0, Run), (1, Log_message), (1, Run), (1, Run), (1, Run),
     (0, Remove_sink 7), (0, Run), (0, Run), (0, Run)]"

lemma removal_run_waits:
  "stacks (after removal_run) 0 = [WaitQuiet 7]"
  "stacks (after removal_run) 1 = [SinkCall 7, SinkLoop []]"
  by (code_simp, code_simp)

definition removal_done :: sink_state where
  "removal_done = after (removal_run @ [(1, Run)])"

lemma removal_done_facts:
  "stacks removal_done 0 = [WaitQuiet 7]" "stacks removal_done 1 = [SinkLoop []]"
  "map_of (call_counts removal_done) 7 = None" "registered removal_done = Some []"
  by (code_simp, code_simp, code_simp, code_simp)

lemma removal_done_reachable: "sink_reachable 2 removal_done"
  unfolding removal_done_def by (rule after_reachable) (simp add: removal_run_def)


lemma removal_return:
  assumes inv: "sink_inv T s" and "stacks s t = f # r"
    and "f = WaitQuiet k \<or> (\<exists>n. f = WaitCallers k n)"
    and "sink_step t Run s = Moved s'" and "SinkCall k \<in> set (stacks s' u)"
  shows "f \<noteq> WaitQuiet k \<and> (u = t \<or> waits_for k (stacks s' u))"
proof -
  have st: "stacks s' = (stacks s)(t := r)"
    and c: "if f = WaitQuiet k then map_of (call_counts s) k = None
            else count_of (call_counts s) k = count_of (waiting_counts s) k"
    using assms(3,4) sink_step_Run [OF assms(2)] by (auto split: if_splits)
  have "SinkCall k \<in> set (stacks s u)"
    using assms(2,5) st by (cases "u = t") auto
  then show ?thesis
    using c quiet_iff [OF inv, of k] callers_iff [OF inv, of k] st by (auto split: if_splits)
qed



text \<open>
  A removed sink: not registered, not about to be added, inside no callback. A snapshot of the
  sinks may still name it.
\<close>

definition unnamed :: "nat \<Rightarrow> frame list \<Rightarrow> bool" where
  "unnamed k st \<longleftrightarrow> SinkCall k \<notin> set st \<and> AddSink k \<notin> set st"

definition unregistered :: "nat \<Rightarrow> sink_state \<Rightarrow> bool" where
  "unregistered k s \<longleftrightarrow> (case registered s of None \<Rightarrow> True | Some sinks \<Rightarrow> k \<notin> set sinks)"

definition gone :: "nat \<Rightarrow> sink_state \<Rightarrow> bool" where
  "gone k s \<longleftrightarrow> (\<forall>u. unnamed k (stacks s u)) \<and> unregistered k s"

lemma unnamed_Cons [simp]:
  "unnamed k []" "unnamed k (f # r) \<longleftrightarrow> f \<noteq> SinkCall k \<and> f \<noteq> AddSink k \<and> unnamed k r"
  by (auto simp: unnamed_def)

lemma gone_update:
  assumes "gone k s" and "stacks s' = (stacks s)(t := stacks s' t)"
    and "unnamed k (stacks s' t)" and "unregistered k s'"
  shows "gone k s'"
  using assms unfolding gone_def by (metis fun_upd_apply)

lemma run_frame_gone:
  assumes g: "gone k s" and st: "stacks s t = f # r" and m: "run_frame t f r s = Moved s'"
  shows "gone k s'"
proof -
  have u: "unnamed k (f # r)" and reg: "unregistered k s"
    using g st unfolding gone_def by metis+
  show ?thesis
    using m u reg
    by (cases "(t, f, r, s)" rule: run_frame.cases)
      (auto simp: BeginSinkCall_def EndSinkCall_def Let_def unregistered_def
        split: if_splits option.splits intro!: gone_update [OF g])
qed

lemma call_frame_gone:
  assumes g: "gone k s" and m: "Moved (set_stack t (f # stacks s t) s) = Moved s'"
    and f: "f \<noteq> SinkCall k" "f \<noteq> AddSink k"
  shows "gone k s'"
proof -
  have "unnamed k (stacks s t)" using g by (simp add: gone_def)
  then show ?thesis
    using m f g by (auto simp: gone_def unregistered_def intro!: gone_update [OF g])
qed

lemma sink_step_gone:
  assumes "gone k s" and "sink_step t a s = Moved s'" and "a \<noteq> Add_sink k"
  shows "gone k s'"
proof (cases "first_frame a")
  case None
  then show ?thesis using assms run_frame_gone by (auto simp: sink_step_def split: list.splits)
next
  case (Some f)
  then have "Moved (set_stack t (f # stacks s t) s) = Moved s'" "f \<noteq> SinkCall k" "f \<noteq> AddSink k"
    using assms(2,3) by (cases a; force simp: sink_step_def split: if_splits)+
  then show ?thesis by (rule call_frame_gone [OF assms(1)])
qed

lemma sink_run_gone:
  "gone k s \<Longrightarrow> sink_run es s = Moved s' \<Longrightarrow> list_all (\<lambda>e. snd e \<noteq> Add_sink k) es \<Longrightarrow> gone k s'"
proof (induction es arbitrary: s)
  case (Cons e es)
  then show ?case by (cases e) (auto split: outcome.splits dest: sink_step_gone)
qed simp



section \<open>Progress\<close>

text \<open>
  Removals of one sink do not wait for each other: as soon as every thread inside a callback of
  the sink is itself waiting in a removal of that sink, each of these removals can return at once,
  however many threads do this; and a removal from outside can return when no callback is left.
\<close>

theorem removal_progress:
  assumes "sink_reachable T s" and "stacks s t = f # r"
    and "f = WaitQuiet k \<and> (\<forall>u. SinkCall k \<notin> set (stacks s u))
      \<or> (\<exists>n. f = WaitCallers k n)
        \<and> (\<forall>u. SinkCall k \<in> set (stacks s u) \<longrightarrow> waits_for k (stacks s u))"
  shows "\<exists>s'. sink_step t Run s = Moved s' \<and> stacks s' t = r"
  using quiet_iff [OF sink_reachable_inv [OF assms(1)], of k]
    callers_iff [OF sink_reachable_inv [OF assms(1)], of k] assms(3)
  by (auto simp: sink_step_Run [OF assms(2)])

text \<open>Two threads that remove the same sink from within its callback.\<close>

definition mutual_run :: "(nat \<times> action) list" where
  "mutual_run = [(0, Add_sink 7), (0, Run), (0, Run),
     (0, Log_message), (0, Run), (0, Run), (0, Run), (1, Log_message), (1, Run), (1, Run), (1, Run),
     (0, Remove_sink 7), (1, Remove_sink 7), (0, Run), (0, Run), (0, Run), (1, Run), (1, Run), (1, Run)]"

lemma removal_progress_witness:
  "\<exists>s'. sink_step 0 Run (after mutual_run) = Moved s'
     \<and> stacks s' 0 = [SinkCall 7, SinkLoop []]"
proof -
  let ?s = "after mutual_run"
  have r: "sink_reachable 2 ?s" by (rule after_reachable) (simp add: mutual_run_def)
  have st: "stacks ?s 0 = WaitCallers 7 1 # [SinkCall 7, SinkLoop []]"
    "stacks ?s 1 = WaitCallers 7 1 # [SinkCall 7, SinkLoop []]"
    by (code_simp, code_simp)
  have "SinkCall 7 \<in> set (stacks ?s u) \<longrightarrow> waits_for 7 (stacks ?s u)" for u
  proof (cases "u < 2")
    case True
    then have "u = 0 \<or> u = 1" by auto
    then show ?thesis using st by (auto simp: waits_for_def)
  next
    case False
    then show ?thesis using sink_invD(5) [OF sink_reachable_inv [OF r], of u] by simp
  qed
  then show ?thesis
    using removal_progress [OF r st(1), of 7] by blast
qed

text \<open>Thread 0 is inside the callback of sink 2 and removes sink 1, thread 1 the other way round.\<close>

definition cross_run :: "(nat \<times> action) list" where
  "cross_run = [(0, Add_sink 1), (0, Run), (0, Run), (0, Add_sink 2), (0, Run), (0, Run),
     (0, Log_message), (0, Run), (0, Run), (0, Run),
     (1, Log_message), (1, Run), (1, Run), (1, Run), (1, Run), (1, Run),
     (0, Remove_sink 1), (0, Run), (0, Run), (0, Run),
     (1, Remove_sink 2), (1, Run), (1, Run), (1, Run)]"

lemma cross_run_facts:
  "stacks (after cross_run) 0 = [WaitQuiet 1, SinkCall 2, SinkLoop [1]]"
  "stacks (after cross_run) 1 = [WaitQuiet 2, SinkCall 1, SinkLoop []]"
  "map_of (call_counts (after cross_run)) 1 = Some 1"
  "map_of (call_counts (after cross_run)) 2 = Some 1"
  by (code_simp, code_simp, code_simp, code_simp)

lemma waiting_blocked:
  assumes "stacks s t = WaitQuiet k # r" and "map_of (call_counts s) k \<noteq> None"
  shows "sink_step t a s = Blocked"
  using assms by (cases a) (auto simp: sink_step_def may_call_def)

text \<open>
  C19. Removals of two sinks can wait for each other: two threads, each inside the callback of one
  sink, that remove the sink the other one is in, are both blocked for ever.
\<close>

theorem cross_removal_deadlocks:
  "\<exists>s. sink_reachable 2 s
     \<and> stacks s 0 = [WaitQuiet 1, SinkCall 2, SinkLoop [1]]
     \<and> stacks s 1 = [WaitQuiet 2, SinkCall 1, SinkLoop []]
     \<and> (\<forall>a. sink_step 0 a s = Blocked \<and> sink_step 1 a s = Blocked)"
  using after_reachable [of 2 cross_run] cross_run_facts
    waiting_blocked [OF cross_run_facts(1)] waiting_blocked [OF cross_run_facts(2)]
  by (intro exI [of _ "after cross_run"]) (simp add: cross_run_def [unfolded numeral_2_eq_2])

section \<open>Shutting down\<close>

text \<open>
  When \<open>DeleteLogDestinations\<close> returns, no thread but the caller itself is inside a callback of
  any sink.
\<close>

theorem WaitForAllSinkCalls_returns:
  assumes "sink_reachable T s" and "stacks s t = WaitAll # r" and "sink_step t Run s = Moved s'"
    and "u \<noteq> t"
  shows "SinkCall k \<notin> set (stacks s' u)"
proof
  assume "SinkCall k \<in> set (stacks s' u)"
  moreover have own: "only_own_calls t s" and "stacks s' = (stacks s)(t := r)"
    using assms(3) by (auto simp: sink_step_Run [OF assms(2)] split: if_splits)
  ultimately have k: "SinkCall k \<in> set (stacks s u)" using assms(4) by simp
  have inv: "sink_inv T s" using assms(1) by (rule sink_reachable_inv)
  have "t < T" using assms(2) sink_invD(5) [OF inv, of t] by (cases "t < T") auto
  then have "calls_in (stacks s t) k + calls_in (stacks s u) k \<le> count_of (call_counts s) k"
    using cm.tracksD [OF sink_invD(2) [OF inv], of k] assms(4)
      sum_mono2 [of "{..<T}" "{t, u}" "\<lambda>v. calls_in (stacks s v) k"] sink_call_counted(1) [OF inv k]
    by (simp add: sum_stacks_def)
  moreover have "0 < calls_in (stacks s u) k" by (rule sink_call_counted(2) [OF inv k])
  ultimately have gt: "count_of (thread_counts s t) k < count_of (call_counts s) k"
    using cm.tracksD [OF sink_invD(1) [OF inv, of t], of k] by simp
  then obtain n where n: "map_of (call_counts s) k = Some n" "count_of (call_counts s) k = n"
    by (auto simp: count_of_def split: option.splits)
  then have "(k, n) \<in> set (call_counts s)" by (simp add: map_of_SomeD)
  then have "n = count_of (thread_counts s t) k"
    using own by (auto simp: only_own_calls_def list_all_iff)
  then show False using gt n by simp
qed

definition shutdown_run :: "(nat \<times> action) list" where
  "shutdown_run = [(0, Add_sink 7), (0, Run), (0, Run), (1, Log_message), (1, Run), (1, Run), (1, Run),
     (0, Delete_destinations), (0, Run), (0, Run), (1, Run)]"

lemma WaitForAllSinkCalls_returns_witness:
  "\<exists>s'. sink_step 0 Run (after shutdown_run) = Moved s' \<and> SinkCall 7 \<notin> set (stacks s' 1)"
proof -
  let ?s = "after shutdown_run"
  have r: "sink_reachable 2 ?s" by (rule after_reachable) (simp add: shutdown_run_def)
  have st: "stacks ?s 0 = [WaitAll]" and own: "only_own_calls 0 ?s" by (code_simp, code_simp)
  obtain s' where s': "sink_step 0 Run ?s = Moved s'"
    using own by (simp add: sink_step_Run [OF st])
  then show ?thesis using WaitForAllSinkCalls_returns [OF r st s', of 1 7] by auto
qed

end
