(* ===== verification/FlagValues.thy ===== *)
theory FlagValues imports Prelude begin

text \<open>
  The values of command-line flags: the types that \<open>src/src/ng-log/flags.h\<close> provides traits for,
  their parsers and printers of \<open>src/src/internal/flag_registry.cc\<close>, and the storage of one flag
  (current value, default value, whether it was set explicitly). The atomic and the locked storage
  have the same sequential behaviour, which is what is modelled; the spin lock is not.

  \<open>strtoimax\<close> and \<open>strtoumax\<close> are modelled as the C library documents them, for a text that does
  not start with white space.
\<close>

section \<open>Types and values\<close>

datatype flag_type = TBool | TInt32 | TUInt32 | TMode | TString

text \<open>A signed value is the 32-bit word that \<open>sint\<close> reads.\<close>

datatype flag_value = VBool bool | VInt32 "32 word" | VUInt32 "32 word" | VMode "32 word" | VString string

fun value_type :: "flag_value \<Rightarrow> flag_type" where
  "value_type (VBool b) = TBool"
| "value_type (VInt32 i) = TInt32"
| "value_type (VUInt32 u) = TUInt32"
| "value_type (VMode m) = TMode"
| "value_type (VString s) = TString"

fun TypeName :: "flag_type \<Rightarrow> string" where
  "TypeName TBool = ''bool''"
| "TypeName TInt32 = ''int32''"
| "TypeName TUInt32 = ''uint32''"
| "TypeName TMode = ''mode''"
| "TypeName TString = ''string''"

lemma TypeName_inject [simp]: "TypeName a = TypeName b \<longleftrightarrow> a = b"
  by (cases a; cases b) simp_all

definition kMaximumFileMode :: "32 word" where
  "kMaximumFileMode = 0xFFF"

section \<open>Characters and numbers of the C library\<close>

definition char_code :: "char \<Rightarrow> int" where
  "char_code c = int (of_char c)"

definition to_lower :: "char \<Rightarrow> char" where
  "to_lower c = (if 65 \<le> char_code c \<and> char_code c \<le> 90 then char_of (of_char c + 32 :: nat) else c)"

definition is_space :: "char \<Rightarrow> bool" where
  "is_space c \<longleftrightarrow> char_code c = 32 \<or> (9 \<le> char_code c \<and> char_code c \<le> 13)"

definition is_digit :: "char \<Rightarrow> bool" where
  "is_digit c \<longleftrightarrow> 48 \<le> char_code c \<and> char_code c \<le> 57"

definition is_alpha :: "char \<Rightarrow> bool" where
  "is_alpha c \<longleftrightarrow> (65 \<le> char_code c \<and> char_code c \<le> 90) \<or> (97 \<le> char_code c \<and> char_code c \<le> 122)"

text \<open>The value of a digit in bases up to 36.\<close>

definition digit_of :: "char \<Rightarrow> nat option" where
  "digit_of c =
     (if is_digit c then Some (of_char c - 48)
      else if 97 \<le> char_code c \<and> char_code c \<le> 122 then Some (of_char c - 87)
      else if 65 \<le> char_code c \<and> char_code c \<le> 90 then Some (of_char c - 55)
      else None)"

definition digit_in :: "nat \<Rightarrow> char \<Rightarrow> bool" where
  "digit_in base c \<longleftrightarrow> (case digit_of c of Some d \<Rightarrow> d < base | None \<Rightarrow> False)"

definition digits_value :: "nat \<Rightarrow> string \<Rightarrow> nat" where
  "digits_value base s = foldl (\<lambda>n c. n * base + (case digit_of c of Some d \<Rightarrow> d | None \<Rightarrow> 0)) 0 s"

text \<open>
  The subject of \<open>strtoimax(s, &end, base)\<close>: the sign, the digits and the text at \<open>end\<close>; \<open>None\<close>
  when there is no conversion. With base 16 a prefix \<open>0x\<close> counts only before a digit.
\<close>

definition split_sign :: "string \<Rightarrow> bool \<times> string" where
  "split_sign s = (case s of
     c # r \<Rightarrow> if c = CHR ''-'' then (True, r) else if c = CHR ''+'' then (False, r) else (False, s)
   | [] \<Rightarrow> (False, s))"

definition skip_prefix :: "nat \<Rightarrow> string \<Rightarrow> string" where
  "skip_prefix base s =
     (if base = 16 \<and> at s 0 = CHR ''0'' \<and> (at s 1 = CHR ''x'' \<or> at s 1 = CHR ''X'') \<and> digit_in 16 (at s 2)
      then drop 2 s else s)"

definition strto :: "nat \<Rightarrow> string \<Rightarrow> (bool \<times> nat \<times> string) option" where
  "strto base s =
     (let (negative, r) = split_sign (cstr s);
          r' = skip_prefix base r;
          digits = takeWhile (digit_in base) r'
      in if digits = '''' then None
         else Some (negative, digits_value base digits, dropWhile (digit_in base) r'))"

text \<open>The result of \<open>strtoimax\<close>, whether \<open>errno\<close> is \<open>ERANGE\<close>, and the rest; no conversion is 0.\<close>

definition strtoimax :: "nat \<Rightarrow> string \<Rightarrow> (int \<times> bool \<times> string) option" where
  "strtoimax base s = (case strto base s of
     None \<Rightarrow> None
   | Some (negative, n, rest) \<Rightarrow>
       let v = (if negative then - int n else int n)
       in if v < - (2 ^ 63) then Some (- (2 ^ 63), True, rest)
          else if v > 2 ^ 63 - 1 then Some (2 ^ 63 - 1, True, rest)
          else Some (v, False, rest))"

text \<open>\<open>strtoumax\<close> negates a value with a minus sign as an unsigned number.\<close>

definition strtoumax :: "nat \<Rightarrow> string \<Rightarrow> (int \<times> bool \<times> string) option" where
  "strtoumax base s = (case strto base s of
     None \<Rightarrow> None
   | Some (negative, n, rest) \<Rightarrow>
       if int n > 2 ^ 64 - 1 then Some (2 ^ 64 - 1, True, rest)
       else Some ((if negative then (- int n) mod 2 ^ 64 else int n), False, rest))"

section \<open>Parsers and printers\<close>

definition ErrorForRange :: "string \<Rightarrow> string" where
  "ErrorForRange expected = ''expected '' @ expected"

definition ParseBoolean :: "string \<Rightarrow> bool option" where
  "ParseBoolean s =
     (let normalized = map to_lower s
      in if normalized \<in> {''1'', ''true'', ''yes'', ''y'', ''t''} then Some True
         else if normalized \<in> {''0'', ''false'', ''no'', ''n'', ''f''} then Some False
         else None)"

definition IntegerBase :: "string \<Rightarrow> nat" where
  "IntegerBase s =
     (if s = '''' \<or> is_space (at s 0) then 0
      else let sign_offset = (if at s 0 = CHR ''+'' \<or> at s 0 = CHR ''-'' then 1 else 0)
           in if length s \<ge> sign_offset + 2 \<and> at s sign_offset = CHR ''0''
                 \<and> (at s (sign_offset + 1) = CHR ''x'' \<or> at s (sign_offset + 1) = CHR ''X'')
              then 16 else 10)"

definition ParseSigned :: "string \<Rightarrow> string + 32 word" where
  "ParseSigned s =
     (let minimum = - (2 ^ 31); maximum = 2 ^ 31 - 1;
          bad = Inl (ErrorForRange (show_int minimum @ '' through '' @ show_int maximum));
          base = IntegerBase s
      in if base = 0 then bad
         else case strtoimax base s of
             None \<Rightarrow> bad
           | Some (parsed, range_error, rest) \<Rightarrow>
               if range_error \<or> rest \<noteq> '''' \<or> parsed < minimum \<or> parsed > maximum then bad
               else Inr (word_of_int parsed))"

definition ParseUnsigned :: "string \<Rightarrow> string + 32 word" where
  "ParseUnsigned s =
     (let maximum = 2 ^ 32 - 1;
          bad = Inl (ErrorForRange (''0 through '' @ show_int maximum));
          base = IntegerBase s
      in if base = 0 \<or> at s 0 = CHR ''-'' then bad
         else case strtoumax base s of
             None \<Rightarrow> bad
           | Some (parsed, range_error, rest) \<Rightarrow>
               if range_error \<or> rest \<noteq> '''' \<or> parsed > maximum then bad
               else Inr (word_of_int parsed))"

fun show_octal :: "nat \<Rightarrow> string" where
  "show_octal n = (if n < 8 then [digit_char n] else show_octal (n div 8) @ [digit_char (n mod 8)])"

declare show_octal.simps [simp del]

definition mode_string :: "32 word \<Rightarrow> string" where
  "mode_string m = ''0'' @ setw 3 CHR ''0'' (show_octal (unat m))"

text \<open>The loop over the digits stops at the first one that is not octal or leaves the range.\<close>

fun mode_loop :: "string \<Rightarrow> 32 word \<Rightarrow> 32 word option" where
  "mode_loop [] mode = Some mode"
| "mode_loop (digit # s) mode =
     (if char_code digit < 48 \<or> char_code digit > 55 then None
      else let mode' = mode * 8 + (of_nat (of_char digit) - 48)
           in if mode' > kMaximumFileMode then None else mode_loop s mode')"

definition ParseMode :: "string \<Rightarrow> string + 32 word" where
  "ParseMode s = (case (if s = '''' then None else mode_loop s 0) of
     None \<Rightarrow> Inl (ErrorForRange (mode_string 0 @ '' through '' @ mode_string kMaximumFileMode
                @ '' in octal''))
   | Some mode \<Rightarrow> Inr mode)"

fun ParseFlagValue :: "flag_type \<Rightarrow> string \<Rightarrow> string + flag_value" where
  "ParseFlagValue TBool s = (case ParseBoolean s of
     Some b \<Rightarrow> Inr (VBool b) | None \<Rightarrow> Inl (ErrorForRange ''true or false''))"
| "ParseFlagValue TInt32 s = (case ParseSigned s of Inl e \<Rightarrow> Inl e | Inr i \<Rightarrow> Inr (VInt32 i))"
| "ParseFlagValue TUInt32 s = (case ParseUnsigned s of Inl e \<Rightarrow> Inl e | Inr u \<Rightarrow> Inr (VUInt32 u))"
| "ParseFlagValue TMode s = (case ParseMode s of Inl e \<Rightarrow> Inl e | Inr m \<Rightarrow> Inr (VMode m))"
| "ParseFlagValue TString s = Inr (VString s)"

fun ValueToString :: "flag_value \<Rightarrow> string" where
  "ValueToString (VBool b) = (if b then ''true'' else ''false'')"
| "ValueToString (VInt32 i) = show_int (sint i)"
| "ValueToString (VUInt32 u) = show_int (uint u)"
| "ValueToString (VMode m) = mode_string m"
| "ValueToString (VString s) = s"

text \<open>\<open>ParseWithDetails\<close>: what an error message can say about the expected values.\<close>

record parse_error =
  minimum :: string
  maximum :: string
  expected_values :: "string list"

fun error_details :: "flag_type \<Rightarrow> parse_error" where
  "error_details TBool = \<lparr>minimum = '''', maximum = '''', expected_values = [''true'', ''false'']\<rparr>"
| "error_details TInt32 =
     \<lparr>minimum = show_int (- (2 ^ 31)), maximum = show_int (2 ^ 31 - 1), expected_values = []\<rparr>"
| "error_details TUInt32 = \<lparr>minimum = ''0'', maximum = show_int (2 ^ 32 - 1), expected_values = []\<rparr>"
| "error_details TMode =
     \<lparr>minimum = mode_string 0, maximum = mode_string kMaximumFileMode, expected_values = []\<rparr>"
| "error_details TString = \<lparr>minimum = '''', maximum = '''', expected_values = []\<rparr>"

section \<open>Help texts\<close>

text \<open>\<open>HelpTextStyle\<close>; the first constructor is \<open>kPlain\<close>.\<close>

datatype help_style = kPlain | kHeading | kUsageOptions | kOptionPrefix | kOption | kCode | kConstant
  | kEnvironmentVariable | kType | kValue | kExecutable | kMeta | kStream

type_synonym styled_text = "(help_style \<times> string) list"

text \<open>
  The description of a flag is a text, or a callback that writes styled parts to a \<open>HelpWriter\<close>; a
  callback is represented by the parts that it writes.
\<close>

datatype help_source = HelpString string | HelpCallback styled_text

section \<open>One flag\<close>

text \<open>\<open>Flag<T>\<close> with its values; \<open>modified\<close> says whether the current value was set explicitly.\<close>

record flag =
  flag_name :: string
  flag_file :: string
  flag_help :: help_source
  flag_type :: flag_type
  current :: flag_value
  default_val :: flag_value
  modified :: bool

definition make_flag :: "string \<Rightarrow> string \<Rightarrow> help_source \<Rightarrow> flag_value \<Rightarrow> flag" where
  "make_flag name filename help v = \<lparr>flag_name = name, flag_file = filename, flag_help = help,
     flag_type = value_type v, current = v, default_val = v, modified = False\<rparr>"

definition SetValue :: "flag_value \<Rightarrow> flag \<Rightarrow> flag" where
  "SetValue v f = f\<lparr>current := v, modified := True\<rparr>"

definition SetDefault :: "flag_value \<Rightarrow> flag \<Rightarrow> flag" where
  "SetDefault v f = (if modified f then f\<lparr>default_val := v\<rparr> else f\<lparr>default_val := v, current := v\<rparr>)"

definition Restore :: "flag_value \<Rightarrow> bool \<Rightarrow> flag \<Rightarrow> flag" where
  "Restore v explicitly_set f = f\<lparr>current := v, modified := explicitly_set\<rparr>"

definition SetFromString :: "string \<Rightarrow> flag \<Rightarrow> string + flag" where
  "SetFromString s f = (case ParseFlagValue (flag_type f) s of
     Inl e \<Rightarrow> Inl e | Inr v \<Rightarrow> Inr (SetValue v f))"

definition SetDefaultFromString :: "string \<Rightarrow> flag \<Rightarrow> string + flag" where
  "SetDefaultFromString s f = (case ParseFlagValue (flag_type f) s of
     Inl e \<Rightarrow> Inl e | Inr v \<Rightarrow> Inr (SetDefault v f))"

definition RestoreFromString :: "string \<Rightarrow> bool \<Rightarrow> flag \<Rightarrow> string + flag" where
  "RestoreFromString s explicitly_set f = (case ParseFlagValue (flag_type f) s of
     Inl e \<Rightarrow> Inl e | Inr v \<Rightarrow> Inr (Restore v explicitly_set f))"

definition CurrentValue :: "flag \<Rightarrow> string" where
  "CurrentValue f = ValueToString (current f)"

definition DefaultValue :: "flag \<Rightarrow> string" where
  "DefaultValue f = ValueToString (default_val f)"

end
