(* ===== verification/OrderedMap.thy ===== *)
theory OrderedMap imports Prelude "HOL-Library.AList" "HOL-Library.List_Lexorder" "HOL-Library.Char_ord" begin

text \<open>
  \<open>std::map\<close>: an association list sorted by its keys, which is the order in which the code iterates.
  Lookup is \<open>map_of\<close>, \<open>erase\<close> is \<open>AList.delete\<close>. The interface that the flag registry uses is the
  locale \<open>key_table\<close>; its clients reason about tables that hold the same keys.
\<close>

section \<open>The interface\<close>

locale key_table =
  fixes none :: 'm
    and look :: "'m \<Rightarrow> 'k \<Rightarrow> 'v option"
    and put :: "'k \<Rightarrow> 'v \<Rightarrow> 'm \<Rightarrow> 'm"
    and del :: "'k \<Rightarrow> 'm \<Rightarrow> 'm"
    and ok :: "'m \<Rightarrow> bool"
  assumes ok_none: "ok none"
    and ok_put: "ok m \<Longrightarrow> ok (put k v m)"
    and ok_del: "ok m \<Longrightarrow> ok (del k m)"
    and look_none: "look none k = None"
    and look_put: "look (put k v m) j = (if j = k then Some v else look m j)"
    and look_del: "look (del k m) j = (if j = k then None else look m j)"
    and look_ext: "ok m \<Longrightarrow> ok m' \<Longrightarrow> look m = look m' \<Longrightarrow> m = m'"
begin

lemma del_put: "ok m \<Longrightarrow> look m k = None \<Longrightarrow> del k (put k v m) = m"
  by (rule look_ext) (auto simp: ok_put ok_del look_put look_del)

lemma put_put: "ok m \<Longrightarrow> put k v (put k w m) = put k v m"
  by (rule look_ext) (auto simp: ok_put look_put)

lemma put_same: "ok m \<Longrightarrow> look m k = Some v \<Longrightarrow> put k v m = m"
  by (rule look_ext) (auto simp: ok_put look_put)

lemma put_commute: "ok m \<Longrightarrow> j \<noteq> k \<Longrightarrow> put j v (put k w m) = put k w (put j v m)"
  by (rule look_ext) (auto simp: ok_put look_put)

lemma put_del_commute: "ok m \<Longrightarrow> j \<noteq> k \<Longrightarrow> put j v (del k m) = del k (put j v m)"
  by (rule look_ext) (auto simp: ok_put ok_del look_put look_del)

text \<open>An injective table stays injective when a fresh value is put under a fresh key.\<close>

definition inj_table :: "'m \<Rightarrow> bool" where
  "inj_table m \<longleftrightarrow> (\<forall>j k v. look m j = Some v \<and> look m k = Some v \<longrightarrow> j = k)"

lemma inj_none: "inj_table none"
  by (simp add: inj_table_def look_none)

lemma inj_put: "inj_table m \<Longrightarrow> (\<And>j. look m j \<noteq> Some v) \<Longrightarrow> inj_table (put k v m)"
  by (auto simp: inj_table_def look_put)

lemma inj_del: "inj_table m \<Longrightarrow> inj_table (del k m)"
  by (auto simp: inj_table_def look_del)

end

section \<open>Sorted association lists\<close>

fun om_put :: "'k::linorder \<Rightarrow> 'v \<Rightarrow> ('k \<times> 'v) list \<Rightarrow> ('k \<times> 'v) list" where
  "om_put k v [] = [(k, v)]"
| "om_put k v (e # m) =
     (if k < fst e then (k, v) # e # m else if k = fst e then (k, v) # m else e # om_put k v m)"

definition om_ok :: "('k::linorder \<times> 'v) list \<Rightarrow> bool" where
  "om_ok m \<longleftrightarrow> sorted_wrt (<) (map fst m)"

lemma om_ok_Nil [simp]: "om_ok []"
  by (simp add: om_ok_def)

lemma om_ok_Cons: "om_ok (e # m) \<longleftrightarrow> (\<forall>x \<in> set m. fst e < fst x) \<and> om_ok m"
  by (auto simp: om_ok_def)

lemma om_ok_distinct: "om_ok m \<Longrightarrow> distinct (map fst m)"
  unfolding om_ok_def strict_sorted_iff by simp

lemma set_om_put: "set (om_put k v m) \<subseteq> insert (k, v) (set m)"
  by (induction m) auto

lemma om_ok_put: "om_ok m \<Longrightarrow> om_ok (om_put k v m)"
proof (induction m)
  case (Cons e m)
  have "\<forall>x \<in> set (om_put k v m). fst e < fst x" if "fst e < k"
    using Cons.prems that set_om_put [of k v m] by (auto simp: om_ok_Cons)
  with Cons show ?case by (auto simp: om_ok_Cons)
qed (simp add: om_ok_Cons)

lemma om_ok_delete: "om_ok m \<Longrightarrow> om_ok (AList.delete k m)"
  by (induction m) (auto simp: om_ok_Cons AList.delete_eq)

lemma map_of_om_put: "map_of (om_put k v m) j = (if j = k then Some v else map_of m j)"
  by (induction m) auto

lemma map_of_delete: "map_of (AList.delete k m) j = (if j = k then None else map_of m j)"
  by (simp add: delete_conv')

lemma map_of_keys: "distinct (map fst m) \<Longrightarrow> m = map (\<lambda>k. (k, the (map_of m k))) (map fst m)"
  by (simp add: comp_def, rule map_idI [symmetric]) auto

lemma om_ok_ext:
  assumes "om_ok m" and "om_ok m'" and eq: "map_of m = map_of m'"
  shows "m = m'"
proof -
  have d: "distinct (map fst m)" "distinct (map fst m')" using assms(1,2) by (simp_all add: om_ok_distinct)
  have "set (map fst m) = set (map fst m')"
    using eq by (simp flip: dom_map_of_conv_image_fst)
  then have keys: "map fst m = map fst m'"
    using assms(1,2) unfolding om_ok_def strict_sorted_iff by (blast intro: sorted_distinct_set_unique)
  have "m = map (\<lambda>k. (k, the (map_of m k))) (map fst m)" using d(1) by (rule map_of_keys)
  also have "\<dots> = map (\<lambda>k. (k, the (map_of m' k))) (map fst m')" by (simp only: eq keys)
  also have "\<dots> = m'" using d(2) by (rule map_of_keys [symmetric])
  finally show ?thesis .
qed

interpretation om: key_table "[]" map_of om_put AList.delete om_ok
proof unfold_locales
  show "om_ok m \<Longrightarrow> om_ok m' \<Longrightarrow> map_of m = map_of m' \<Longrightarrow> m = m'" for m m' :: "('a \<times> 'b) list"
    by (rule om_ok_ext)
qed (simp_all add: om_ok_put om_ok_delete map_of_om_put map_of_delete)

lemma map_of_SomeI: "om_ok m \<Longrightarrow> (k, v) \<in> set m \<Longrightarrow> map_of m k = Some v"
  by (simp add: om_ok_distinct)

lemma map_of_None_iff: "map_of m k = None \<longleftrightarrow> (\<forall>v. (k, v) \<notin> set m)"
  by (auto simp: map_of_eq_None_iff image_iff)

end
