(* ===== verification/ProcessRegistry.thy ===== *)
theory ProcessRegistry imports Prelude begin

text \<open>
  \<open>src/src/internal/process_flag_registry.cc\<close>: the list of flag definitions that all copies of the
  library in one process share, and the protocol by which the copies find the memory that holds it.
  A registry is \<open>None\<close> when \<open>GetSharedRegistry\<close> returns a null pointer.
\<close>

section \<open>The shared list\<close>

record shared_entry =
  entry_owner :: nat
  entry_name :: string
  entry_filename :: string
  entry_type :: string

datatype registration = kRegistered | kDuplicate shared_entry | kUnavailable

fun find_entry :: "string \<Rightarrow> shared_entry list \<Rightarrow> shared_entry option" where
  "find_entry name [] = None"
| "find_entry name (e # es) = (if entry_name e = name then Some e else find_entry name es)"

text \<open>\<open>memory\<close> says whether \<open>CreateEntry\<close> gets its memory.\<close>

definition Register ::
    "bool \<Rightarrow> nat \<Rightarrow> string \<Rightarrow> string \<Rightarrow> string \<Rightarrow> shared_entry list option
     \<Rightarrow> registration \<times> shared_entry list option" where
  "Register memory owner name filename type shared = (case shared of
     None \<Rightarrow> (kUnavailable, None)
   | Some es \<Rightarrow> (case find_entry name es of
         Some previous \<Rightarrow> (kDuplicate previous, Some es)
       | None \<Rightarrow>
           if \<not> memory then (kUnavailable, Some es)
           else (kRegistered, Some (\<lparr>entry_owner = owner, entry_name = name,
                   entry_filename = filename, entry_type = type\<rparr> # es))))"

text \<open>A name or file name of \<open>None\<close> is a null pointer, which matches every entry.\<close>

definition entry_matches :: "nat \<Rightarrow> string option \<Rightarrow> string option \<Rightarrow> shared_entry \<Rightarrow> bool" where
  "entry_matches owner name filename e \<longleftrightarrow> entry_owner e = owner
     \<and> (case name of None \<Rightarrow> True | Some n \<Rightarrow> entry_name e = n)
     \<and> (case filename of None \<Rightarrow> True | Some n \<Rightarrow> entry_filename e = n)"

fun remove_entries ::
    "nat \<Rightarrow> string option \<Rightarrow> string option \<Rightarrow> shared_entry list \<Rightarrow> shared_entry list" where
  "remove_entries owner name filename [] = []"
| "remove_entries owner name filename (e # es) =
     (if entry_matches owner name filename e then remove_entries owner name filename es
      else e # remove_entries owner name filename es)"

definition RemoveEntries ::
    "nat \<Rightarrow> string option \<Rightarrow> string option \<Rightarrow> shared_entry list option \<Rightarrow> shared_entry list option" where
  "RemoveEntries owner name filename shared = map_option (remove_entries owner name filename) shared"

definition Unregister :: "nat \<Rightarrow> string \<Rightarrow> string \<Rightarrow> shared_entry list option \<Rightarrow> shared_entry list option" where
  "Unregister owner name filename shared = RemoveEntries owner (Some name) (Some filename) shared"

text \<open>The destructor of \<open>ProcessFlagRegistry\<close>.\<close>

definition destroy_process_registry :: "nat \<Rightarrow> shared_entry list option \<Rightarrow> shared_entry list option" where
  "destroy_process_registry owner shared = RemoveEntries owner None None shared"

lemma remove_entries_filter:
  "remove_entries owner name filename es = filter (\<lambda>e. \<not> entry_matches owner name filename e) es"
  by (induction es) auto

lemma find_entry_None: "find_entry name es = None \<longleftrightarrow> name \<notin> entry_name ` set es"
  by (induction es) auto

lemma find_entry_Some: "find_entry name es = Some e \<Longrightarrow> e \<in> set es \<and> entry_name e = name"
  by (induction es) (auto split: if_splits)

text \<open>One definition per name.\<close>

definition shared_ok :: "shared_entry list option \<Rightarrow> bool" where
  "shared_ok shared \<longleftrightarrow> (case shared of None \<Rightarrow> True | Some es \<Rightarrow> distinct (map entry_name es))"

lemma shared_ok_Register: "shared_ok s \<Longrightarrow> shared_ok (snd (Register m owner name file type s))"
  by (auto simp: shared_ok_def Register_def find_entry_None split: option.splits)

lemma shared_ok_RemoveEntries: "shared_ok s \<Longrightarrow> shared_ok (RemoveEntries owner name file s)"
  by (auto simp: shared_ok_def RemoveEntries_def remove_entries_filter distinct_map_filter
      split: option.splits)

section \<open>Finding the shared registry\<close>

text \<open>
  One line of \<open>/proc/self/maps\<close> after the field conversions of \<open>sscanf\<close>. An anchor is a private
  writable mapping with the name that the library uses.
\<close>

record mapping =
  map_first :: nat
  map_last :: nat
  permissions :: string
  map_path :: string

definition kAnchorPath :: string where
  "kAnchorPath = ''/memfd:nglog-process-flag-registry-v2''"

text \<open>\<open>sizeof(Anchor)\<close>: one atomic pointer.\<close>

definition kAnchorSize :: nat where
  "kAnchorSize = 8"

definition ParseAnchorMapping :: "mapping \<Rightarrow> nat option" where
  "ParseAnchorMapping m =
     (if permissions m \<noteq> ''rw-p'' \<or> map_last m - map_first m < kAnchorSize then None
      else if map_path m \<noteq> kAnchorPath \<and> map_path m \<noteq> kAnchorPath @ '' (deleted)'' then None
      else Some (map_first m))"

text \<open>The loop over the lines with its variable \<open>lowest\<close>, which is 0 before the first anchor.\<close>

fun find_anchor_loop :: "mapping list \<Rightarrow> nat \<Rightarrow> nat" where
  "find_anchor_loop [] lowest = lowest"
| "find_anchor_loop (m # ms) lowest =
     (case ParseAnchorMapping m of
        Some start \<Rightarrow> find_anchor_loop ms (if lowest = 0 \<or> start < lowest then start else lowest)
      | None \<Rightarrow> find_anchor_loop ms lowest)"

definition FindAnchor :: "mapping list \<Rightarrow> nat" where
  "FindAnchor maps = find_anchor_loop maps 0"

definition anchors :: "mapping list \<Rightarrow> nat list" where
  "anchors maps = List.map_filter ParseAnchorMapping maps"

lemma anchors_simps [simp]:
  "anchors [] = []"
  "anchors (m # ms) = (case ParseAnchorMapping m of Some a \<Rightarrow> a # anchors ms | None \<Rightarrow> anchors ms)"
  by (auto simp: anchors_def List.map_filter_def split: option.splits)

lemma find_anchor_loop_min:
  "0 \<notin> set (anchors ms) \<Longrightarrow>
   find_anchor_loop ms lowest
     = (if lowest = 0 then (if anchors ms = [] then 0 else Min (set (anchors ms)))
        else Min (insert lowest (set (anchors ms))))"
proof (induction ms arbitrary: lowest)
  case (Cons m ms)
  show ?case
  proof (cases "ParseAnchorMapping m")
    case None
    with Cons show ?thesis by simp
  next
    case (Some a)
    with Cons.prems have a: "a \<noteq> 0" "0 \<notin> set (anchors ms)" by auto
    have "find_anchor_loop (m # ms) lowest
        = Min (insert (if lowest = 0 \<or> a < lowest then a else lowest) (set (anchors ms)))"
      using Cons.IH [OF a(2)] a(1) Some by auto
    then show ?thesis
      using Some a(1) by (cases "anchors ms = []") (auto simp: min_def)
  qed
qed simp

text \<open>What \<open>FindAnchor\<close> returns: the lowest anchor, or 0 when there is none.\<close>

lemma FindAnchor_min:
  "0 \<notin> set (anchors ms) \<Longrightarrow> FindAnchor ms = (if anchors ms = [] then 0 else Min (set (anchors ms)))"
  by (simp add: FindAnchor_def find_anchor_loop_min)

text \<open>
  \<open>AcquireSharedRegistry\<close> as run by several copies of the library at once. The candidate registry of
  copy \<open>i\<close> is at address \<open>Suc i\<close>; \<open>value\<close> is the pointer stored in an anchor, 0 when none is. Each
  access to the mappings or to an anchor is one step. \<open>Faulted\<close> is an access to memory that is not
  mapped any more.
\<close>

datatype stage = Candidate | MustCreate | Created nat | Chosen nat | Finished nat | Faulted

record process_maps =
  maps :: "mapping list"
  anchor_value :: "nat \<Rightarrow> nat"
  stages :: "nat \<Rightarrow> stage"

definition anchor_mapping :: "nat \<Rightarrow> mapping" where
  "anchor_mapping a = \<lparr>map_first = a, map_last = a + 4096, permissions = ''rw-p'',
     map_path = kAnchorPath @ '' (deleted)''\<rparr>"

definition set_stage :: "nat \<Rightarrow> stage \<Rightarrow> process_maps \<Rightarrow> process_maps" where
  "set_stage i st s = s\<lparr>stages := (stages s)(i := st)\<rparr>"

definition find_first :: "nat \<Rightarrow> process_maps \<Rightarrow> process_maps" where
  "find_first i s = set_stage i (let a = FindAnchor (maps s) in if a = 0 then MustCreate else Chosen a) s"

text \<open>\<open>CreateAnchor\<close> at the address that \<open>mmap\<close> chose; 0 is a failure.\<close>

definition create_anchor :: "nat \<Rightarrow> nat \<Rightarrow> process_maps \<Rightarrow> process_maps" where
  "create_anchor i a s =
     (if a = 0 then set_stage i (Finished (Suc i)) s
      else set_stage i (Created a)
             (s\<lparr>maps := anchor_mapping a # maps s, anchor_value := (anchor_value s)(a := 0)\<rparr>))"

definition unmap :: "nat \<Rightarrow> process_maps \<Rightarrow> process_maps" where
  "unmap a s = s\<lparr>maps := filter (\<lambda>m. map_first m \<noteq> a) (maps s)\<rparr>"

definition find_again :: "nat \<Rightarrow> nat \<Rightarrow> process_maps \<Rightarrow> process_maps" where
  "find_again i created s =
     (let anchor = FindAnchor (maps s);
          s' = (if anchor \<noteq> created then unmap created s else s)
      in set_stage i (if anchor = 0 then Finished (Suc i) else Chosen anchor) s')"

definition PublishSharedRegistry :: "nat \<Rightarrow> nat \<Rightarrow> process_maps \<Rightarrow> process_maps" where
  "PublishSharedRegistry i a s =
     (if a \<notin> set (anchors (maps s)) then set_stage i Faulted s
      else if anchor_value s a = 0
        then set_stage i (Finished (Suc i)) (s\<lparr>anchor_value := (anchor_value s)(a := Suc i)\<rparr>)
      else set_stage i (Finished (anchor_value s a)) s)"

text \<open>
  One step of copy \<open>i\<close>; \<open>a\<close> is the address that \<open>mmap\<close> returns if the step maps memory. Memory that
  is in use is never returned.
\<close>

definition acquire_step :: "nat \<Rightarrow> nat \<Rightarrow> process_maps \<Rightarrow> process_maps" where
  "acquire_step i a s = (case stages s i of
     Candidate \<Rightarrow> find_first i s
   | MustCreate \<Rightarrow> create_anchor i (if a \<in> map_first ` set (maps s) then 0 else a) s
   | Created c \<Rightarrow> find_again i c s
   | Chosen c \<Rightarrow> PublishSharedRegistry i c s
   | Finished r \<Rightarrow> s
   | Faulted \<Rightarrow> s)"

fun acquire_run :: "(nat \<times> nat) list \<Rightarrow> process_maps \<Rightarrow> process_maps" where
  "acquire_run [] s = s"
| "acquire_run ((i, a) # steps) s = acquire_run steps (acquire_step i a s)"

definition process_start :: "mapping list \<Rightarrow> process_maps" where
  "process_start ms = \<lparr>maps = ms, anchor_value = (\<lambda>_. 0), stages = (\<lambda>_. Candidate)\<rparr>"

section \<open>Agreement\<close>

lemma stages_set_stage [simp]:
  "stages (set_stage i st s) = (stages s)(i := st)" "maps (set_stage i st s) = maps s"
  "anchor_value (set_stage i st s) = anchor_value s"
  by (simp_all add: set_stage_def)

lemma parse_anchor_mapping [simp]: "ParseAnchorMapping (anchor_mapping a) = Some a"
  by (simp add: ParseAnchorMapping_def anchor_mapping_def kAnchorSize_def)

lemma map_first_anchor_mapping [simp]: "map_first (anchor_mapping a) = a"
  by (simp add: anchor_mapping_def)

lemma FindAnchor_none: "anchors ms = [] \<Longrightarrow> FindAnchor ms = 0"
  by (simp add: FindAnchor_min)

lemma FindAnchor_one: "anchors ms = [a] \<Longrightarrow> a \<noteq> 0 \<Longrightarrow> FindAnchor ms = a"
  by (simp add: FindAnchor_min)

text \<open>What one copy does when no other copy runs: at most four steps.\<close>

definition acquire_alone :: "nat \<Rightarrow> nat \<Rightarrow> process_maps \<Rightarrow> process_maps" where
  "acquire_alone i a s = acquire_run [(i, a), (i, a), (i, a), (i, a)] s"

definition agreed :: "nat \<Rightarrow> process_maps \<Rightarrow> bool" where
  "agreed r s \<longleftrightarrow> r \<noteq> 0 \<and> (\<exists>a. a \<noteq> 0 \<and> anchors (maps s) = [a] \<and> anchor_value s a = r)
     \<and> (\<forall>i. stages s i = Candidate \<or> stages s i = Finished r)"

lemma alone_first:
  assumes "anchors (maps s) = []" and "a \<noteq> 0" and "a \<notin> map_first ` set (maps s)"
    and "\<forall>i. stages s i = Candidate"
  shows "agreed (Suc i) (acquire_alone i a s)" "stages (acquire_alone i a s) i = Finished (Suc i)"
proof -
  define s1 where "s1 = acquire_step i a s"
  define s2 where "s2 = acquire_step i a s1"
  define s3 where "s3 = acquire_step i a s2"
  have 1: "s1 = set_stage i MustCreate s"
    using assms by (simp add: s1_def acquire_step_def find_first_def FindAnchor_none)
  have 2: "s2 = create_anchor i a s1"
    using assms by (auto simp: s2_def 1 acquire_step_def)
  have m: "maps s2 = anchor_mapping a # maps s" "anchor_value s2 = (anchor_value s)(a := 0)"
    "stages s2 = (stages s)(i := Created a)"
    using assms(2) by (simp_all add: 2 1 create_anchor_def)
  have f: "FindAnchor (maps s2) = a" using assms(1,2) by (simp add: m FindAnchor_one)
  have 3: "s3 = set_stage i (Chosen a) s2"
    using assms(2) by (simp add: s3_def acquire_step_def m(3) find_again_def f Let_def)
  have 4: "acquire_alone i a s = PublishSharedRegistry i a s3"
    by (simp add: acquire_alone_def flip: s1_def s2_def s3_def) (simp add: acquire_step_def 3)
  show "agreed (Suc i) (acquire_alone i a s)" "stages (acquire_alone i a s) i = Finished (Suc i)"
    using assms by (auto simp: agreed_def 4 PublishSharedRegistry_def 3 m)
qed

lemma finished_stays: "stages s i = Finished r \<Longrightarrow> acquire_alone i a s = s"
  by (simp add: acquire_alone_def acquire_step_def)

lemma alone_next:
  assumes "agreed r s"
  shows "agreed r (acquire_alone i a s)" "stages (acquire_alone i a s) i = Finished r"
    "\<And>j. stages s j = Finished r \<Longrightarrow> stages (acquire_alone i a s) j = Finished r"
proof -
  obtain b where b: "b \<noteq> 0" "anchors (maps s) = [b]" "anchor_value s b = r" "r \<noteq> 0"
    using assms by (auto simp: agreed_def)
  have all: "stages s j = Candidate \<or> stages s j = Finished r" for j
    using assms by (simp add: agreed_def)
  have run: "stages (acquire_alone i a s) = (stages s)(i := Finished r)
      \<and> maps (acquire_alone i a s) = maps s \<and> anchor_value (acquire_alone i a s) = anchor_value s"
  proof (cases "stages s i = Candidate")
    case True
    have "acquire_step i a s = set_stage i (Chosen b) s"
      using True b by (simp add: acquire_step_def find_first_def FindAnchor_one Let_def)
    moreover have "acquire_step i a (set_stage i (Chosen b) s)
        = set_stage i (Finished r) (set_stage i (Chosen b) s)"
      using b by (simp add: acquire_step_def PublishSharedRegistry_def)
    ultimately show ?thesis by (simp add: acquire_alone_def) (simp add: acquire_step_def)
  next
    case False
    then have "stages s i = Finished r" using all by blast
    then show ?thesis using finished_stays [of s i r a] by auto
  qed
  show "agreed r (acquire_alone i a s)"
    unfolding agreed_def using b all run by auto
  show "stages (acquire_alone i a s) i = Finished r"
    "\<And>j. stages s j = Finished r \<Longrightarrow> stages (acquire_alone i a s) j = Finished r"
    using run by auto
qed

fun acquire_in_turn :: "(nat \<times> nat) list \<Rightarrow> process_maps \<Rightarrow> process_maps" where
  "acquire_in_turn [] s = s"
| "acquire_in_turn ((i, a) # copies) s = acquire_in_turn copies (acquire_alone i a s)"

lemma in_turn_agreed:
  "agreed r s \<Longrightarrow>
   agreed r (acquire_in_turn copies s)
   \<and> (\<forall>i. i \<in> fst ` set copies \<or> stages s i = Finished r \<longrightarrow> stages (acquire_in_turn copies s) i = Finished r)"
proof (induction copies s rule: acquire_in_turn.induct)
  case (2 i a copies s)
  note n = alone_next [OF 2(2)]
  show ?case using 2(1) [OF n(1)] n(2) [of i a] n(3) [of _ i a] by auto
qed auto

lemma acquire_run_append: "acquire_run (xs @ ys) s = acquire_run ys (acquire_run xs s)"
  by (induction xs s rule: acquire_run.induct) auto

text \<open>
  Copies of the library that look for the shared registry one after another, the way the dynamic
  linker initialises them, all end with the same registry: the candidate of the first of them. Duplicate
  definitions are detected between all copies.
\<close>

theorem copies_in_turn_agree:
  assumes "anchors ms = []" and "a \<noteq> 0" and "a \<notin> map_first ` set ms"
  shows "\<forall>j \<in> insert i (fst ` set copies).
           stages (acquire_in_turn ((i, a) # copies) (process_start ms)) j = Finished (Suc i)"
proof -
  have s: "anchors (maps (process_start ms)) = []" "a \<notin> map_first ` set (maps (process_start ms))"
    "\<forall>i. stages (process_start ms) i = Candidate"
    using assms by (simp_all add: process_start_def)
  note first = alone_first [OF s(1) assms(2) s(2,3), of i]
  show ?thesis using in_turn_agreed [OF first(1), of copies] first(2) by auto
qed

lemma copies_in_turn_agree_witness:
  "stages (acquire_in_turn [(3, 4096), (1, 8192)] (process_start [])) 1 = Finished 4"
  using copies_in_turn_agree [of "[]" 4096 3 "[(1, 8192)]"] by simp

lemmas acquire_defs = acquire_step_def find_first_def create_anchor_def find_again_def unmap_def
  PublishSharedRegistry_def process_start_def FindAnchor_def anchor_mapping_def ParseAnchorMapping_def
  kAnchorPath_def kAnchorSize_def set_stage_def Let_def

text \<open>
  C39. Copies that look for the registry at the same time need not agree, although the comment at
  \<open>FindAnchor\<close> says that they do: a copy that finds only its own anchor publishes its registry there
  before another copy maps an anchor at a lower address, and that copy publishes a second registry.
  With a third copy that chose the first anchor, the anchor can be removed before that copy uses it,
  so that it accesses memory that is not mapped any more.
\<close>

theorem concurrent_copies_disagree:
  "(\<exists>steps. stages (acquire_run steps (process_start [])) 0 = Finished 1
       \<and> stages (acquire_run steps (process_start [])) 1 = Finished 2)
   \<and> (\<exists>steps. stages (acquire_run steps (process_start [])) 2 = Faulted)"
proof -
  have "stages (acquire_run [(0, 0), (1, 0), (0, 8192), (0, 0), (0, 0), (1, 4096), (1, 0), (1, 0)]
          (process_start [])) 0 = Finished 1
      \<and> stages (acquire_run [(0, 0), (1, 0), (0, 8192), (0, 0), (0, 0), (1, 4096), (1, 0), (1, 0)]
          (process_start [])) 1 = Finished 2"
    by (simp add: acquire_defs)
  moreover
  have "stages (acquire_run [(0, 0), (1, 0), (0, 8192), (2, 0), (1, 4096), (0, 0), (2, 0)]
          (process_start [])) 2 = Faulted"
    by (simp add: acquire_defs)
  ultimately show ?thesis by blast
qed

end
