(* ===== verification/Levenshtein.thy ===== *)
theory Levenshtein imports Prelude begin

text \<open>
  \<open>src/src/internal/levenshtein.cc\<close>: the edit distance computed with two rows, and the suggestion for a
  misspelled option. Lengths fit \<open>size_t\<close>, so the sums do not wrap and are natural numbers.
\<close>

section \<open>The two rows\<close>

text \<open>
  The inner loop fills the row \<open>current\<close> from \<open>current[0]\<close>; \<open>left\<close> is the entry just written. The list
  \<open>previous\<close> starts at the entry of the same index.
\<close>

fun next_row :: "char \<Rightarrow> string \<Rightarrow> nat list \<Rightarrow> nat \<Rightarrow> nat list" where
  "next_row c (d # second) (diagonal # upper # previous) left =
     (let deletion = upper + 1;
          insertion = left + 1;
          substitution = diagonal + (if c = d then 0 else 1);
          entry = min deletion (min insertion substitution)
      in entry # next_row c second (upper # previous) entry)"
| "next_row c _ _ left = []"

text \<open>The outer loop; \<open>first_index\<close> numbers the characters of the first text.\<close>

fun distance_rows :: "string \<Rightarrow> nat \<Rightarrow> string \<Rightarrow> nat list \<Rightarrow> nat list" where
  "distance_rows [] first_index second previous = previous"
| "distance_rows (c # first) first_index second previous =
     distance_rows first (first_index + 1) second
       ((first_index + 1) # next_row c second previous (first_index + 1))"

definition LevenshteinDistance :: "string \<Rightarrow> string \<Rightarrow> nat" where
  "LevenshteinDistance first second =
     last (distance_rows first 0 second [0..<length second + 1])"

fun closest_loop :: "string \<Rightarrow> string list \<Rightarrow> string \<times> nat option \<Rightarrow> string \<times> nat option" where
  "closest_loop value [] best = best"
| "closest_loop value (candidate # candidates) (closest, closest_distance) =
     (let distance = LevenshteinDistance value candidate
      in closest_loop value candidates
           (if (case closest_distance of None \<Rightarrow> True | Some d \<Rightarrow> distance < d)
            then (candidate, Some distance) else (closest, closest_distance)))"

text \<open>A distance of \<open>None\<close> is the largest \<open>size_t\<close>, which every distance is below.\<close>

definition FindClosestMatch :: "string \<Rightarrow> string list \<Rightarrow> string" where
  "FindClosestMatch value candidates =
     (let (closest, closest_distance) = closest_loop value candidates ('''', None);
          maximum_distance = max 2 (length value div 2)
      in case closest_distance of None \<Rightarrow> ''''
         | Some d \<Rightarrow> if d \<le> maximum_distance then closest else '''')"

section \<open>The edit distance\<close>

text \<open>Scripts of insertions, deletions and replacements; the cost counts all but the copies.\<close>

datatype edit = Copy | Replace char | Insert char | Delete

fun apply_edits :: "edit list \<Rightarrow> string \<Rightarrow> string option" where
  "apply_edits [] [] = Some []"
| "apply_edits (Copy # es) (c # s) = map_option ((#) c) (apply_edits es s)"
| "apply_edits (Replace d # es) (c # s) = map_option ((#) d) (apply_edits es s)"
| "apply_edits (Insert d # es) s = map_option ((#) d) (apply_edits es s)"
| "apply_edits (Delete # es) (c # s) = apply_edits es s"
| "apply_edits _ _ = None"

fun edit_cost :: "edit list \<Rightarrow> nat" where
  "edit_cost [] = 0"
| "edit_cost (Copy # es) = edit_cost es"
| "edit_cost (e # es) = Suc (edit_cost es)"

text \<open>The recursive distance on reversed texts, which follows the table of prefixes.\<close>

fun lev :: "string \<Rightarrow> string \<Rightarrow> nat" where
  "lev [] t = length t"
| "lev s [] = length s"
| "lev (c # s) (d # t) =
     min (lev s (d # t) + 1) (min (lev (c # s) t + 1) (lev s t + (if c = d then 0 else 1)))"

lemma lev_Nil2 [simp]: "lev s [] = length s"
  by (cases s) simp_all

lemma lev_apply_le: "apply_edits es s = Some t \<Longrightarrow> lev s t \<le> edit_cost es"
proof (induction es s arbitrary: t rule: apply_edits.induct)
  case (4 d es s)
  then obtain t' where t': "apply_edits es s = Some t'" "t = d # t'" by auto
  with 4 have "lev s t' \<le> edit_cost es" by blast
  then show ?case using t' by (cases s) auto
next
  case (5 es c s)
  then have "lev s t \<le> edit_cost es" by simp
  then show ?case by (cases t) auto
qed auto

lemma lev_attained: "\<exists>es. apply_edits es s = Some t \<and> edit_cost es = lev s t"
proof (induction s t rule: lev.induct)
  case (1 t)
  show ?case
  proof (induction t)
    case (Cons d t)
    then obtain es where "apply_edits es [] = Some t" "edit_cost es = length t" by auto
    then have "apply_edits (Insert d # es) [] = Some (d # t) \<and> edit_cost (Insert d # es) = length (d # t)"
      by simp
    then show ?case by (intro exI [of _ "Insert d # es"]) simp
  qed (auto intro: exI [of _ "[]"])
next
  case (2 v va)
  have "\<exists>es. apply_edits es s = Some [] \<and> edit_cost es = length s" for s :: string
  proof (induction s)
    case (Cons a s)
    then obtain es where "apply_edits es s = Some []" "edit_cost es = length s" by blast
    then have "apply_edits (Delete # es) (a # s) = Some [] \<and> edit_cost (Delete # es) = length (a # s)"
      by simp
    then show ?case by blast
  qed (auto intro: exI [of _ "[]"])
  from this [of "v # va"] show ?case by simp
next
  case (3 c s d t)
  from 3(1) obtain e1 where e1: "apply_edits (Delete # e1) (c # s) = Some (d # t)"
    "edit_cost (Delete # e1) = lev s (d # t) + 1" by auto
  from 3(2) obtain e2 where e2: "apply_edits (Insert d # e2) (c # s) = Some (d # t)"
    "edit_cost (Insert d # e2) = lev (c # s) t + 1" by auto
  from 3(3) obtain e3 where e3: "apply_edits e3 s = Some t" "edit_cost e3 = lev s t" by auto
  have e4: "\<exists>es. apply_edits es (c # s) = Some (d # t)
      \<and> edit_cost es = lev s t + (if c = d then 0 else 1)"
  proof (cases "c = d")
    case True
    then show ?thesis using e3 by (intro exI [of _ "Copy # e3"]) simp
  next
    case False
    then show ?thesis using e3 by (intro exI [of _ "Replace d # e3"]) simp
  qed
  show ?case using e1 e2 e4 unfolding lev.simps min_def by metis
qed

lemma apply_edits_append:
  "apply_edits e1 s1 = Some t1 \<Longrightarrow> apply_edits e2 s2 = Some t2 \<Longrightarrow>
   apply_edits (e1 @ e2) (s1 @ s2) = Some (t1 @ t2)"
  by (induction e1 s1 arbitrary: t1 rule: apply_edits.induct) auto

lemma edit_cost_append: "edit_cost (a @ b) = edit_cost a + edit_cost b"
  by (induction a rule: edit_cost.induct) auto

lemma edit_cost_rev: "edit_cost (rev es) = edit_cost es"
proof (induction es)
  case (Cons e es)
  then show ?case by (cases e) (simp_all add: edit_cost_append)
qed simp

lemma apply_edits_rev:
  "apply_edits es s = Some t \<Longrightarrow> apply_edits (rev es) (rev s) = Some (rev t)"
proof (induction es s arbitrary: t rule: apply_edits.induct)
  case (4 d es s)
  then obtain t' where t': "apply_edits es s = Some t'" "t = d # t'" by auto
  have "apply_edits (rev es @ [Insert d]) (rev s @ []) = Some (rev t' @ [d])"
    by (rule apply_edits_append) (use 4 t' in simp_all)
  then show ?case using t' by simp
next
  case (5 es c s)
  have "apply_edits (rev es @ [Delete]) (rev s @ [c]) = Some (rev t @ [])"
    by (rule apply_edits_append) (use 5 in simp_all)
  then show ?case by simp
qed (auto intro!: apply_edits_append)

lemma lev_rev_le: "lev (rev s) (rev t) \<le> lev s t"
proof -
  obtain es where es: "apply_edits es s = Some t" "edit_cost es = lev s t" using lev_attained by blast
  then show ?thesis using lev_apply_le [OF apply_edits_rev [OF es(1)]] by (simp add: edit_cost_rev)
qed

lemma lev_rev: "lev (rev s) (rev t) = lev s t"
  using lev_rev_le [of s t] lev_rev_le [of "rev s" "rev t"] by simp

section \<open>The rows hold the distances of prefixes\<close>

lemma next_row_lev:
  assumes "second = q @ r"
  shows "next_row c r (map (\<lambda>j. lev p (rev (take j second))) [length q..<length second + 1])
           (lev (c # p) (rev q))
         = map (\<lambda>j. lev (c # p) (rev (take j second))) [Suc (length q)..<length second + 1]"
  using assms
proof (induction r arbitrary: q)
  case Nil
  then show ?case by (cases "map (\<lambda>j. lev p (rev (take j second))) [length q..<length second + 1]") auto
next
  case (Cons d r)
  have l: "length second = length q + Suc (length r)" using Cons.prems by simp
  have t: "take (length q) second = q" "take (Suc (length q)) second = q @ [d]"
    using Cons.prems by simp_all
  obtain N where N: "length second + 1 = N" by blast
  have up: "[length q..<N] = length q # Suc (length q) # [Suc (Suc (length q))..<N]"
    "[Suc (length q)..<N] = Suc (length q) # [Suc (Suc (length q))..<N]"
    unfolding N [symmetric] by (simp_all add: l upt_conv_Cons del: upt_Suc)
  have IH: "next_row c r (map (\<lambda>j. lev p (rev (take j second))) (Suc (length q) # [Suc (Suc (length q))..<N]))
           (lev (c # p) (d # rev q))
         = map (\<lambda>j. lev (c # p) (rev (take j second))) [Suc (Suc (length q))..<N]"
    using Cons.IH [of "q @ [d]"] Cons.prems unfolding N by (simp add: up del: upt_Suc)
  show ?case
    using IH unfolding N by (simp add: up t Let_def del: upt_Suc)
qed

lemma distance_rows_lev:
  "length p = i \<Longrightarrow>
   distance_rows first i second (map (\<lambda>j. lev p (rev (take j second))) [0..<length second + 1])
   = map (\<lambda>j. lev (rev first @ p) (rev (take j second))) [0..<length second + 1]"
proof (induction first arbitrary: p i)
  case (Cons c first)
  have "(i + 1) # next_row c second (map (\<lambda>j. lev p (rev (take j second))) [0..<length second + 1]) (i + 1)
      = map (\<lambda>j. lev (c # p) (rev (take j second))) [0..<length second + 1]"
    using next_row_lev [of second "[]" second c p] Cons.prems
    by (simp add: upt_conv_Cons del: upt_Suc)
  then show ?case using Cons.IH [of "c # p" "i + 1"] Cons.prems by (simp del: upt_Suc)
qed simp

lemma distance_lev: "LevenshteinDistance first second = lev first second"
proof -
  have "[0..<length second + 1] = map (\<lambda>j. lev [] (rev (take j second))) [0..<length second + 1]"
    by (rule map_idI [symmetric]) auto
  then have "LevenshteinDistance first second
      = last (map (\<lambda>j. lev (rev first) (rev (take j second))) [0..<length second + 1])"
    using distance_rows_lev [of "[]" 0 first second] unfolding LevenshteinDistance_def by simp
  then show ?thesis by (simp add: lev_rev)
qed

text \<open>
  C40. The distance that the two rows compute is the edit distance: some script of that cost turns the
  first text into the second, and no script that does so is cheaper.
\<close>

theorem LevenshteinDistance_edits:
  "(\<exists>es. apply_edits es first = Some second \<and> edit_cost es = LevenshteinDistance first second)
   \<and> (\<forall>es. apply_edits es first = Some second \<longrightarrow> LevenshteinDistance first second \<le> edit_cost es)"
  using lev_attained lev_apply_le by (simp add: distance_lev)

lemma LevenshteinDistance_edits_witness:
  "LevenshteinDistance ''helpp'' ''help'' \<le> 1"
  using LevenshteinDistance_edits [of "''helpp''" "''help''"]
  by (auto dest: spec [of _ "[Copy, Copy, Copy, Copy, Delete]"])

section \<open>Suggestions\<close>

lemma closest_loop_best:
  assumes "closest_loop value cs (b, bd) = (c, d)"
    and "bd = None \<or> (\<exists>n. bd = Some n \<and> n = LevenshteinDistance value b)"
  shows "(d = None \<longrightarrow> cs = [] \<and> bd = None)
     \<and> (\<forall>n. d = Some n \<longrightarrow> n = LevenshteinDistance value c \<and> (c \<in> set cs \<or> bd \<noteq> None \<and> c = b)
          \<and> (\<forall>x \<in> set cs. n \<le> LevenshteinDistance value x) \<and> (\<forall>m. bd = Some m \<longrightarrow> n \<le> m))"
  using assms
proof (induction cs arbitrary: b bd)
  case (Cons x cs)
  define b' bd' where "b' = (if (case bd of None \<Rightarrow> True | Some d \<Rightarrow> LevenshteinDistance value x < d) then x else b)"
    and "bd' = (if (case bd of None \<Rightarrow> True | Some d \<Rightarrow> LevenshteinDistance value x < d)
                then Some (LevenshteinDistance value x) else bd)"
  have run: "closest_loop value cs (b', bd') = (c, d)"
    using Cons.prems(1) by (simp add: b'_def bd'_def Let_def split: if_splits)
  have ok: "\<exists>n. bd' = Some n \<and> n = LevenshteinDistance value b'"
    using Cons.prems(2) by (auto simp: b'_def bd'_def split: option.splits)
  show ?case
    using Cons.IH [OF run] ok Cons.prems(2)
    by (auto simp: b'_def bd'_def split: if_splits option.splits)
qed auto

text \<open>
  A suggestion is a candidate at the least distance, within half the length of the misspelled text
  or 2; there is none exactly when every candidate is further away (no candidate being empty).
\<close>

theorem FindClosestMatch_closest:
  assumes "'''' \<notin> set cs"
  shows "(if \<exists>x \<in> set cs. LevenshteinDistance value x \<le> max 2 (length value div 2)
          then FindClosestMatch value cs \<in> set cs
            \<and> (\<forall>x \<in> set cs. LevenshteinDistance value (FindClosestMatch value cs) \<le> LevenshteinDistance value x)
          else FindClosestMatch value cs = '''')"
proof -
  obtain c d where cd: "closest_loop value cs ('''', None) = (c, d)" by fastforce
  have b: "d = None \<longrightarrow> cs = []"
    "\<And>n. d = Some n \<Longrightarrow> n = LevenshteinDistance value c \<and> c \<in> set cs
       \<and> (\<forall>x \<in> set cs. n \<le> LevenshteinDistance value x)"
    using closest_loop_best [OF cd] by auto
  show ?thesis
  proof (cases d)
    case None
    then show ?thesis using b(1) by (simp add: FindClosestMatch_def)
  next
    case (Some n)
    then have f: "FindClosestMatch value cs = (if n \<le> max 2 (length value div 2) then c else '''')"
      by (simp add: FindClosestMatch_def cd)
    show ?thesis using b(2) [OF Some] unfolding f by (auto intro: order_trans)
  qed
qed

lemma FindClosestMatch_closest_witness:
  "FindClosestMatch ''hepl'' [''help''] = ''help''"
proof -
  have "LevenshteinDistance ''hepl'' ''help'' = 2" by code_simp
  then show ?thesis using FindClosestMatch_closest [of "[''help'']" "''hepl''"] by simp
qed

end
