(* ===== verification/FlagRegistry.thy ===== *)
theory FlagRegistry imports FlagValues OrderedMap ProcessRegistry Levenshtein begin

text \<open>
  The registry of command-line flags, \<open>src/src/internal/flag_registry.cc\<close>: registration and its
  checks, lookup, saving and restoring, declarations, modules and groups. Each operation runs under
  the mutex of its copy of the library and is one function on the state of the process. A
  \<open>FlagBase*\<close> is an address; \<open>objects\<close> holds the flags that exist, so that a read through a pointer to
  a destroyed flag is the error \<open>DanglingFlag\<close>. The calls that abort the process return its reason.
  The counter of registrations, a 64-bit number in the code, is a natural number here.
\<close>

section \<open>State\<close>

record flag_entry =
  registration_id :: nat
  entry_module :: string
  entry_group :: string
  module_identity :: "nat option"

record declaration_entry =
  declared_by :: nat
  declared_type :: string
  declared_file :: string

record group_info =
  group_name :: string
  group_identity :: nat

record module_info =
  module_header :: string
  environment_prefix :: string
  identity :: nat
  groups :: "group_info list"

record flag_info =
  info_name :: string
  info_type :: string
  info_help :: string
  current_value :: string
  default_value :: string
  info_file :: string
  info_group :: string
  help_function :: "styled_text option"
  info_module :: string

record flag_display =
  display_type :: string
  display_unit :: string

type_synonym flag_formatter = "flag_info \<Rightarrow> styled_text"

record registry =
  flags :: "(string \<times> nat) list"
  modules :: "(string \<times> module_info) list"
  module_order :: "string list"
  usage :: string
  usage_function :: "styled_text option"
  flag_help_formatters :: "(string \<times> flag_formatter) list"
  flag_displays :: "(string \<times> flag_display) list"
  entries :: "(nat \<times> flag_entry) list"
  declared :: "(string \<times> declaration_entry) list"
  next_registration :: nat

text \<open>The process: its flag objects, the shared definitions and the registry of each library copy.\<close>

record process =
  objects :: "nat \<Rightarrow> flag option"
  shared :: "shared_entry list option"
  copies :: "nat \<Rightarrow> registry"
  next_identity :: nat

datatype duplicate_origin = kThisLibrary | kOtherLibraryCopy

datatype flag_abort =
    DanglingFlag nat
  | RepeatedRegistration nat
  | InvalidFlagName nat
  | ReservedFlag nat
  | NegationConflict nat nat
  | DuplicateFlag nat string string duplicate_origin
  | UnavailableProcessFlagRegistry
  | MismatchedDeclaration string string string nat
  | DuplicateModule string
  | CouldNotRestore nat string

definition empty_registry :: registry where
  "empty_registry = \<lparr>flags = [], modules = [], module_order = [], usage = '''', usage_function = None,
     flag_help_formatters = [], flag_displays = [], entries = [], declared = [], next_registration = 1\<rparr>"

definition set_copy :: "nat \<Rightarrow> registry \<Rightarrow> process \<Rightarrow> process" where
  "set_copy c r w = w\<lparr>copies := (copies w)(c := r)\<rparr>"

definition set_object :: "nat \<Rightarrow> flag \<Rightarrow> process \<Rightarrow> process" where
  "set_object p f w = w\<lparr>objects := (objects w)(p := Some f)\<rparr>"

section \<open>Lookup\<close>

definition dashes_to_underscores :: "string \<Rightarrow> string" where
  "dashes_to_underscores name = map (\<lambda>c. if c = CHR ''-'' then CHR ''_'' else c) name"

definition FindFlagLocked :: "registry \<Rightarrow> string \<Rightarrow> nat option" where
  "FindFlagLocked r name = (case map_of (flags r) name of
     Some p \<Rightarrow> Some p
   | None \<Rightarrow> if CHR ''-'' \<notin> set name then None else map_of (flags r) (dashes_to_underscores name))"

definition is_boolean :: "process \<Rightarrow> nat \<Rightarrow> bool" where
  "is_boolean w p \<longleftrightarrow> (case objects w p of Some f \<Rightarrow> TypeName (flag_type f) = ''bool'' | None \<Rightarrow> False)"

definition IsLongOptionLocked :: "process \<Rightarrow> nat \<Rightarrow> string \<Rightarrow> bool" where
  "IsLongOptionLocked w c name =
     (if name = ''help'' \<or> FindFlagLocked (copies w c) name \<noteq> None then True
      else if \<not> starts_with ''no'' name then False
      else case FindFlagLocked (copies w c) (drop 2 name) of
          Some p \<Rightarrow> is_boolean w p
        | None \<Rightarrow> False)"

definition FindClosestOptionLocked :: "registry \<Rightarrow> string \<Rightarrow> string" where
  "FindClosestOptionLocked r name = FindClosestMatch name (''help'' # map fst (flags r))"

definition RenderPlainHelp :: "styled_text option \<Rightarrow> string" where
  "RenderPlainHelp parts = (case parts of None \<Rightarrow> '''' | Some ps \<Rightarrow> concat (map snd ps))"

definition flag_info_of :: "flag \<Rightarrow> flag_entry \<Rightarrow> flag_info" where
  "flag_info_of f e = \<lparr>info_name = flag_name f, info_type = TypeName (flag_type f),
     info_help = (case flag_help f of HelpString s \<Rightarrow> s | HelpCallback ps \<Rightarrow> RenderPlainHelp (Some ps)),
     current_value = CurrentValue f, default_value = DefaultValue f, info_file = flag_file f,
     info_group = entry_group e,
     help_function = (case flag_help f of HelpString s \<Rightarrow> None | HelpCallback ps \<Rightarrow> Some ps),
     info_module = entry_module e\<rparr>"

fun get_all_flags :: "process \<Rightarrow> registry \<Rightarrow> (string \<times> nat) list \<Rightarrow> flag_abort + flag_info list" where
  "get_all_flags w r [] = Inr []"
| "get_all_flags w r ((name, p) # rest) = (case (objects w p, map_of (entries r) p) of
     (Some f, Some e) \<Rightarrow> (case get_all_flags w r rest of
         Inl err \<Rightarrow> Inl err
       | Inr infos \<Rightarrow> Inr (flag_info_of f e # infos))
   | _ \<Rightarrow> Inl (DanglingFlag p))"

definition GetAllFlags :: "nat \<Rightarrow> process \<Rightarrow> flag_abort + flag_info list" where
  "GetAllFlags c w = get_all_flags w (copies w c) (flags (copies w c))"

section \<open>Registration\<close>

definition is_alnum :: "char \<Rightarrow> bool" where
  "is_alnum c \<longleftrightarrow> is_alpha c \<or> is_digit c"

definition IsValidFlagName :: "string \<Rightarrow> bool" where
  "IsValidFlagName name \<longleftrightarrow>
     \<not> (at name 0 = NUL \<or> (\<not> is_alpha (at name 0) \<and> at name 0 \<noteq> CHR ''_''))
     \<and> list_all (\<lambda>c. is_alnum c \<or> c = CHR ''_'') (cstr name)"

text \<open>The two checks that keep \<open>noX\<close> and a boolean \<open>X\<close> apart; \<open>p\<close> is the flag being registered.\<close>

definition negation_conflict :: "process \<Rightarrow> registry \<Rightarrow> nat \<Rightarrow> flag \<Rightarrow> flag_abort option" where
  "negation_conflict w r p f =
     (case (if TypeName (flag_type f) = ''bool'' then map_of (flags r) (''no'' @ flag_name f) else None) of
        Some q \<Rightarrow> Some (NegationConflict q p)
      | None \<Rightarrow>
          if starts_with ''no'' (flag_name f) then
            (case map_of (flags r) (drop 2 (flag_name f)) of
               None \<Rightarrow> None
             | Some q \<Rightarrow> (case objects w q of
                   None \<Rightarrow> Some (DanglingFlag q)
                 | Some g \<Rightarrow> if TypeName (flag_type g) = ''bool'' then Some (NegationConflict p q) else None))
          else None)"

definition new_entry :: "registry \<Rightarrow> flag_entry" where
  "new_entry r = \<lparr>registration_id = next_registration r, entry_module = '''', entry_group = '''',
     module_identity = None\<rparr>"

definition declarations_of :: "string \<Rightarrow> registry \<Rightarrow> declaration_entry list" where
  "declarations_of name r = map snd (filter (\<lambda>d. fst d = name) (declared r))"

definition mismatched :: "string \<Rightarrow> string \<Rightarrow> registry \<Rightarrow> declaration_entry option" where
  "mismatched name type r = find (\<lambda>d. declared_type d \<noteq> type) (declarations_of name r)"

definition RegisterFlag :: "bool \<Rightarrow> nat \<Rightarrow> nat \<Rightarrow> process \<Rightarrow> flag_abort + process" where
  "RegisterFlag memory c p w = (case objects w p of
     None \<Rightarrow> Inl (DanglingFlag p)
   | Some f \<Rightarrow>
       let r = copies w c; name = flag_name f; type = TypeName (flag_type f) in
       if map_of (entries r) p \<noteq> None then Inl (RepeatedRegistration p)
       else if \<not> IsValidFlagName name then Inl (InvalidFlagName p)
       else if name = ''help'' then Inl (ReservedFlag p)
       else case negation_conflict w r p f of Some e \<Rightarrow> Inl e
       | None \<Rightarrow> case map_of (flags r) name of
           Some q \<Rightarrow> (case objects w q of
               None \<Rightarrow> Inl (DanglingFlag q)
             | Some g \<Rightarrow> Inl (DuplicateFlag p (flag_file g) (TypeName (flag_type g)) kThisLibrary))
         | None \<Rightarrow> case Register memory c name (flag_file f) type (shared w) of
             (kDuplicate previous, _) \<Rightarrow>
               Inl (DuplicateFlag p (entry_filename previous) (entry_type previous) kOtherLibraryCopy)
           | (kUnavailable, _) \<Rightarrow> Inl UnavailableProcessFlagRegistry
           | (kRegistered, s) \<Rightarrow>
               (case mismatched name type r of
                  Some d \<Rightarrow> Inl (MismatchedDeclaration name (declared_file d) (declared_type d) p)
                | None \<Rightarrow> Inr (set_copy c
                    (r\<lparr>flags := om_put name p (flags r),
                       entries := om_put p (new_entry r) (entries r),
                       next_registration := next_registration r + 1\<rparr>)
                    (w\<lparr>shared := s\<rparr>))))"

definition UnregisterFlag :: "nat \<Rightarrow> nat \<Rightarrow> process \<Rightarrow> flag_abort + process" where
  "UnregisterFlag c p w =
     (let r = copies w c in
      case map_of (entries r) p of
        None \<Rightarrow> Inr w
      | Some e \<Rightarrow> (case objects w p of
          None \<Rightarrow> Inl (DanglingFlag p)
        | Some f \<Rightarrow>
            let r' = r\<lparr>entries := AList.delete p (entries r)\<rparr>; name = flag_name f in
            if map_of (flags r) name = Some p
            then Inr (set_copy c
                   (r'\<lparr>flags := AList.delete name (flags r),
                       flag_help_formatters := AList.delete name (flag_help_formatters r),
                       flag_displays := AList.delete name (flag_displays r)\<rparr>)
                   (w\<lparr>shared := Unregister c name (flag_file f) (shared w)\<rparr>))
            else Inr (set_copy c r' w)))"

definition FlagRegistration :: "nat \<Rightarrow> nat \<Rightarrow> process \<Rightarrow> nat" where
  "FlagRegistration c p w = (case map_of (entries (copies w c)) p of
     None \<Rightarrow> 0 | Some e \<Rightarrow> registration_id e)"

text \<open>What \<open>RegisteredFlagLock\<close> converts to: whether the flag is still the one that was saved.\<close>

definition RegisteredFlagLock :: "nat \<Rightarrow> nat \<Rightarrow> nat \<Rightarrow> process \<Rightarrow> bool" where
  "RegisteredFlagLock c p registration w =
     (if registration = 0 then True
      else case map_of (entries (copies w c)) p of
          None \<Rightarrow> False
        | Some e \<Rightarrow> registration_id e = registration)"

text \<open>
  \<open>FlagDeclaration\<close>, made by \<open>NGLOG_DECLARE\<close>, and its destructor. \<open>multimap::emplace\<close> inserts after the
  elements with an equal key.
\<close>

fun multimap_emplace :: "'k::linorder \<Rightarrow> 'v \<Rightarrow> ('k \<times> 'v) list \<Rightarrow> ('k \<times> 'v) list" where
  "multimap_emplace k v [] = [(k, v)]"
| "multimap_emplace k v (e # m) = (if k < fst e then (k, v) # e # m else e # multimap_emplace k v m)"

definition FlagDeclaration :: "nat \<Rightarrow> nat \<Rightarrow> string \<Rightarrow> string \<Rightarrow> string \<Rightarrow> process \<Rightarrow> flag_abort + process" where
  "FlagDeclaration c this name type filename w =
     (let r = copies w c;
          record_it = Inr (set_copy c
            (r\<lparr>declared := multimap_emplace name
                 \<lparr>declared_by = this, declared_type = type, declared_file = filename\<rparr> (declared r)\<rparr>) w)
      in case map_of (flags r) name of
           None \<Rightarrow> record_it
         | Some p \<Rightarrow> (case objects w p of
             None \<Rightarrow> Inl (DanglingFlag p)
           | Some f \<Rightarrow> if TypeName (flag_type f) \<noteq> type then Inl (MismatchedDeclaration name filename type p)
                       else record_it))"

fun erase_declaration :: "nat \<Rightarrow> (string \<times> declaration_entry) list \<Rightarrow> (string \<times> declaration_entry) list" where
  "erase_declaration this [] = []"
| "erase_declaration this (d # ds) =
     (if declared_by (snd d) = this then ds else d # erase_declaration this ds)"

definition destroy_declaration :: "nat \<Rightarrow> nat \<Rightarrow> process \<Rightarrow> process" where
  "destroy_declaration c this w =
     set_copy c ((copies w c)\<lparr>declared := erase_declaration this (declared (copies w c))\<rparr>) w"

text \<open>
  \<open>DynamicFlag\<close>: registered by its constructor, unregistered and destroyed by its destructor. A flag
  of \<open>NGLOG_DEFINE\<close> is made by \<open>create_flag\<close> and registered by its \<open>FlagRegistrar\<close>; it is never destroyed.
\<close>

definition create_flag :: "nat \<Rightarrow> flag \<Rightarrow> process \<Rightarrow> process" where
  "create_flag p f w = set_object p f w"

definition DynamicFlag :: "bool \<Rightarrow> nat \<Rightarrow> nat \<Rightarrow> flag \<Rightarrow> process \<Rightarrow> flag_abort + process" where
  "DynamicFlag memory c p f w = RegisterFlag memory c p (create_flag p f w)"

definition destroy_DynamicFlag :: "nat \<Rightarrow> nat \<Rightarrow> process \<Rightarrow> flag_abort + process" where
  "destroy_DynamicFlag c p w = (case UnregisterFlag c p w of
     Inl e \<Rightarrow> Inl e
   | Inr w' \<Rightarrow> Inr (w'\<lparr>objects := (objects w')(p := None)\<rparr>))"

section \<open>Options\<close>

definition GetCommandLineOption :: "nat \<Rightarrow> string \<Rightarrow> process \<Rightarrow> flag_abort + string option" where
  "GetCommandLineOption c name w = (case FindFlagLocked (copies w c) name of
     None \<Rightarrow> Inr None
   | Some p \<Rightarrow> (case objects w p of None \<Rightarrow> Inl (DanglingFlag p) | Some f \<Rightarrow> Inr (Some (CurrentValue f))))"

text \<open>The result is the error text, or the process in which the option is set.\<close>

definition SetCommandLineOption :: "nat \<Rightarrow> string \<Rightarrow> string \<Rightarrow> process \<Rightarrow> flag_abort + (string + process)" where
  "SetCommandLineOption c name value w = (case FindFlagLocked (copies w c) name of
     None \<Rightarrow> Inr (Inl ''unknown command-line option'')
   | Some p \<Rightarrow> (case objects w p of
       None \<Rightarrow> Inl (DanglingFlag p)
     | Some f \<Rightarrow> (case SetFromString value f of
         Inl parse_error \<Rightarrow> Inr (Inl (''invalid value '' @ value @ '' for '' @ TypeName (flag_type f)
                                @ '' flag, '' @ parse_error))
       | Inr f' \<Rightarrow> Inr (Inr (set_object p f' w)))))"

definition SetUsageMessage :: "nat \<Rightarrow> string \<Rightarrow> process \<Rightarrow> process" where
  "SetUsageMessage c text w = set_copy c ((copies w c)\<lparr>usage := text, usage_function := None\<rparr>) w"

definition SetUsageFunction :: "nat \<Rightarrow> styled_text option \<Rightarrow> process \<Rightarrow> process" where
  "SetUsageFunction c function w =
     set_copy c ((copies w c)\<lparr>usage := '''', usage_function := function\<rparr>) w"

definition ProgramUsage :: "nat \<Rightarrow> process \<Rightarrow> string" where
  "ProgramUsage c w = (case usage_function (copies w c) of
     None \<Rightarrow> usage (copies w c) | Some parts \<Rightarrow> concat (map snd parts))"

definition SetFlagDisplay :: "nat \<Rightarrow> nat \<Rightarrow> string option \<Rightarrow> string option \<Rightarrow> process \<Rightarrow> flag_abort + process" where
  "SetFlagDisplay c p type unit w = (case objects w p of
     None \<Rightarrow> Inl (DanglingFlag p)
   | Some f \<Rightarrow>
       let r = copies w c in
       if map_of (flags r) (flag_name f) \<noteq> Some p then Inr w
       else Inr (set_copy c (r\<lparr>flag_displays := om_put (flag_name f)
              \<lparr>display_type = (case type of None \<Rightarrow> '''' | Some s \<Rightarrow> s),
               display_unit = (case unit of None \<Rightarrow> '''' | Some s \<Rightarrow> s)\<rparr> (flag_displays r)\<rparr>) w))"

definition SetFlagHelpFormatter :: "nat \<Rightarrow> string \<Rightarrow> flag_formatter option \<Rightarrow> process \<Rightarrow> bool \<times> process" where
  "SetFlagHelpFormatter c name formatter w =
     (let r = copies w c in
      if map_of (flags r) name = None then (False, w)
      else (True, set_copy c (r\<lparr>flag_help_formatters := (case formatter of
               Some g \<Rightarrow> om_put name g (flag_help_formatters r)
             | None \<Rightarrow> AList.delete name (flag_help_formatters r))\<rparr>) w))"

end
