(* ===== verification/FlagModules.thy ===== *)
theory FlagModules imports FlagRegistry begin

text \<open>
  Modules and groups of flags and the scopes that save and restore flag values:
  \<open>FlagModule\<close>, \<open>FlagGroup\<close> and \<open>ScopedFlags\<close> of \<open>src/src/internal/flag_registry.cc\<close> and
  \<open>src/src/ng-log/flags.h\<close>. A shared pointer that only serves as an identity is a number that no other
  module or group has had.
\<close>

section \<open>Modules and groups\<close>

record flag_module =
  own_name :: string
  own_identity :: nat

definition FlagModule :: "nat \<Rightarrow> string \<Rightarrow> string \<Rightarrow> string \<Rightarrow> process \<Rightarrow> flag_abort + flag_module \<times> process" where
  "FlagModule c name heading prefix w =
     (let r = copies w c; i = next_identity w; w' = w\<lparr>next_identity := i + 1\<rparr>;
          this = \<lparr>own_name = name, own_identity = i\<rparr>
      in if name = '''' then Inr (this, w')
         else if map_of (modules r) name = None
         then Inr (this, set_copy c
                (r\<lparr>modules := om_put name \<lparr>module_header = heading, environment_prefix = prefix,
                       identity = i, groups = []\<rparr> (modules r),
                   module_order := module_order r @ [name]\<rparr>) w')
         else Inl (DuplicateModule name))"

definition clear_module :: "nat \<Rightarrow> flag_entry \<Rightarrow> flag_entry" where
  "clear_module i e = (if module_identity e = Some i
     then e\<lparr>entry_module := '''', entry_group := '''', module_identity := None\<rparr> else e)"

definition destroy_FlagModule :: "nat \<Rightarrow> flag_module \<Rightarrow> process \<Rightarrow> process" where
  "destroy_FlagModule c this w =
     (let r = copies w c; name = own_name this in
      if name = '''' then w
      else case map_of (modules r) name of
        None \<Rightarrow> w
      | Some m \<Rightarrow>
          if identity m \<noteq> own_identity this then w
          else set_copy c (r\<lparr>modules := AList.delete name (modules r),
                 module_order := filter (\<lambda>n. n \<noteq> name) (module_order r),
                 entries := map (\<lambda>(p, e). (p, clear_module (own_identity this) e)) (entries r)\<rparr>) w)"

text \<open>An empty group has no names, and its identities are null pointers.\<close>

record flag_group =
  in_module :: string
  in_group :: string
  group_module_identity :: "nat option"
  own_group_identity :: "nat option"

definition no_group :: flag_group where
  "no_group = \<lparr>in_module = '''', in_group = '''', group_module_identity = None, own_group_identity = None\<rparr>"

definition AddGroup :: "nat \<Rightarrow> flag_module \<Rightarrow> string \<Rightarrow> process \<Rightarrow> flag_group \<times> process" where
  "AddGroup c this name w =
     (let r = copies w c in
      case map_of (modules r) (own_name this) of
        None \<Rightarrow> (no_group, w)
      | Some m \<Rightarrow>
          if name = '''' \<or> own_name this = '''' \<or> identity m \<noteq> own_identity this then (no_group, w)
          else case find (\<lambda>g. group_name g = name) (groups m) of
              Some g \<Rightarrow> (\<lparr>in_module = own_name this, in_group = name,
                  group_module_identity = Some (own_identity this),
                  own_group_identity = Some (group_identity g)\<rparr>, w)
            | None \<Rightarrow>
                let i = next_identity w in
                (\<lparr>in_module = own_name this, in_group = name,
                   group_module_identity = Some (own_identity this), own_group_identity = Some i\<rparr>,
                 set_copy c (r\<lparr>modules := om_put (own_name this)
                     (m\<lparr>groups := groups m @ [\<lparr>group_name = name, group_identity = i\<rparr>]\<rparr>) (modules r)\<rparr>)
                   (w\<lparr>next_identity := i + 1\<rparr>)))"

text \<open>
  \<open>env\<close> is \<open>std::getenv\<close> and \<open>trusted\<close> is \<open>TrustsEnvironment()\<close>. A value that cannot be parsed is ignored.
\<close>

definition environment_default :: "(string \<Rightarrow> string option) \<Rightarrow> bool \<Rightarrow> string \<Rightarrow> flag \<Rightarrow> flag" where
  "environment_default env trusted prefix f =
     (if prefix \<noteq> '''' \<and> trusted then
        (case env (prefix @ flag_name f) of
           None \<Rightarrow> f
         | Some s \<Rightarrow> (case SetDefaultFromString s f of Inl e \<Rightarrow> f | Inr f' \<Rightarrow> f'))
      else f)"

definition AddFlag ::
    "(string \<Rightarrow> string option) \<Rightarrow> bool \<Rightarrow> nat \<Rightarrow> flag_group \<Rightarrow> nat \<Rightarrow> process \<Rightarrow> flag_abort + bool \<times> process" where
  "AddFlag env trusted c this p w = (case objects w p of
     None \<Rightarrow> Inl (DanglingFlag p)
   | Some f \<Rightarrow>
       let r = copies w c in
       case map_of (modules r) (in_module this) of
         None \<Rightarrow> Inr (False, w)
       | Some m \<Rightarrow>
           if in_group this = '''' \<or> in_module this = '''' \<or> map_of (flags r) (flag_name f) \<noteq> Some p
              \<or> Some (identity m) \<noteq> group_module_identity this then Inr (False, w)
           else case map_of (entries r) p of
             None \<Rightarrow> Inl (DanglingFlag p)
           | Some e \<Rightarrow>
               if find (\<lambda>g. group_name g = in_group this
                     \<and> Some (group_identity g) = own_group_identity this) (groups m) = None
                  \<or> entry_module e \<noteq> ''''
               then Inr (False, w)
               else Inr (True, set_object p (environment_default env trusted (environment_prefix m) f)
                 (set_copy c (r\<lparr>entries := om_put p
                     (e\<lparr>entry_module := in_module this, entry_group := in_group this,
                        module_identity := group_module_identity this\<rparr>) (entries r)\<rparr>) w)))"

section \<open>Scopes\<close>

text \<open>\<open>ScopedFlags<>\<close>: every registered flag with its registration, text and whether it was set.\<close>

type_synonym saved_flag = "nat \<times> nat \<times> string \<times> bool"

fun save_flags :: "process \<Rightarrow> registry \<Rightarrow> (string \<times> nat) list \<Rightarrow> flag_abort + saved_flag list" where
  "save_flags w r [] = Inr []"
| "save_flags w r ((name, p) # rest) = (case (objects w p, map_of (entries r) p) of
     (Some f, Some e) \<Rightarrow> (case save_flags w r rest of
         Inl err \<Rightarrow> Inl err
       | Inr saved \<Rightarrow> Inr ((p, registration_id e, CurrentValue f, modified f) # saved))
   | _ \<Rightarrow> Inl (DanglingFlag p))"

definition ScopedFlags :: "nat \<Rightarrow> process \<Rightarrow> flag_abort + saved_flag list" where
  "ScopedFlags c w = save_flags w (copies w c) (flags (copies w c))"

fun destroy_ScopedFlags :: "nat \<Rightarrow> saved_flag list \<Rightarrow> process \<Rightarrow> flag_abort + process" where
  "destroy_ScopedFlags c [] w = Inr w"
| "destroy_ScopedFlags c ((p, registration, value, explicitly_set) # rest) w =
     (if \<not> RegisteredFlagLock c p registration w then destroy_ScopedFlags c rest w
      else case objects w p of
          None \<Rightarrow> Inl (DanglingFlag p)
        | Some f \<Rightarrow> (case RestoreFromString value explicitly_set f of
            Inl error \<Rightarrow> Inl (CouldNotRestore p error)
          | Inr f' \<Rightarrow> destroy_ScopedFlags c rest (set_object p f' w)))"

text \<open>
  \<open>ScopedFlag<T>\<close>, which keeps typed values; \<open>scoped_flag\<close> is \<open>None\<close> once it has been restored.
\<close>

record scoped =
  scoped_flag :: "nat option"
  scoped_registration :: nat
  old_value :: flag_value
  old_explicitly_set :: bool
  scope_sequence :: nat
  new_value :: flag_value

definition ScopedFlag :: "nat \<Rightarrow> nat \<Rightarrow> flag_value \<Rightarrow> nat \<Rightarrow> process \<Rightarrow> flag_abort + scoped \<times> process" where
  "ScopedFlag c p v sequence_id w = (case objects w p of
     None \<Rightarrow> Inl (DanglingFlag p)
   | Some f \<Rightarrow>
       let f' = SetValue v f in
       Inr (\<lparr>scoped_flag = Some p, scoped_registration = FlagRegistration c p w, old_value = current f,
             old_explicitly_set = modified f, scope_sequence = sequence_id, new_value = current f'\<rparr>,
            set_object p f' w))"

definition Reapply :: "nat \<Rightarrow> scoped \<Rightarrow> process \<Rightarrow> flag_abort + process" where
  "Reapply c this w = (case scoped_flag this of
     None \<Rightarrow> Inr w
   | Some p \<Rightarrow>
       if \<not> RegisteredFlagLock c p (scoped_registration this) w then Inr w
       else case objects w p of
           None \<Rightarrow> Inl (DanglingFlag p)
         | Some f \<Rightarrow> Inr (set_object p (SetValue (new_value this) f) w))"

definition RestoreScoped :: "nat \<Rightarrow> scoped \<Rightarrow> process \<Rightarrow> flag_abort + scoped \<times> process" where
  "RestoreScoped c this w = (case scoped_flag this of
     None \<Rightarrow> Inr (this, w)
   | Some p \<Rightarrow>
       if \<not> RegisteredFlagLock c p (scoped_registration this) w
       then Inr (this\<lparr>scoped_flag := None\<rparr>, w)
       else case objects w p of
           None \<Rightarrow> Inl (DanglingFlag p)
         | Some f \<Rightarrow> Inr (this\<lparr>scoped_flag := None\<rparr>,
             set_object p (Restore (old_value this) (old_explicitly_set this) f) w))"

text \<open>
  \<open>MakeScopedFlags(MakeScopedFlag(f1, v1), \<dots>)\<close>. The arguments are evaluated in some order, which
  \<open>make_scopes\<close> gets as the list of their numbers; each takes the next sequence number.
\<close>

fun make_scopes :: "nat \<Rightarrow> (nat \<times> flag_value) list \<Rightarrow> nat list \<Rightarrow> nat \<Rightarrow> process
    \<Rightarrow> flag_abort + (nat \<times> scoped) list \<times> process" where
  "make_scopes c args [] sequence_id w = Inr ([], w)"
| "make_scopes c args (k # order) sequence_id w = (case ScopedFlag c (fst (args ! k)) (snd (args ! k)) sequence_id w of
     Inl e \<Rightarrow> Inl e
   | Inr (s, w') \<Rightarrow> (case make_scopes c args order (sequence_id + 1) w' of
       Inl e \<Rightarrow> Inl e
     | Inr (ss, w'') \<Rightarrow> Inr ((k, s) # ss, w'')))"

fun ReapplyInOrder :: "nat \<Rightarrow> scoped list \<Rightarrow> process \<Rightarrow> flag_abort + process" where
  "ReapplyInOrder c [] w = Inr w"
| "ReapplyInOrder c (s # ss) w = (case Reapply c s w of
     Inl e \<Rightarrow> Inl e | Inr w' \<Rightarrow> ReapplyInOrder c ss w')"

definition in_argument_order :: "(nat \<times> scoped) list \<Rightarrow> scoped list" where
  "in_argument_order ss = map snd (sort_key fst ss)"

definition MakeScopedFlags :: "nat \<Rightarrow> (nat \<times> flag_value) list \<Rightarrow> nat list \<Rightarrow> nat \<Rightarrow> process
    \<Rightarrow> flag_abort + scoped list \<times> process" where
  "MakeScopedFlags c args order sequence_id w = (case make_scopes c args order sequence_id w of
     Inl e \<Rightarrow> Inl e
   | Inr (ss, w') \<Rightarrow> (case ReapplyInOrder c (in_argument_order ss) w' of
       Inl e \<Rightarrow> Inl e
     | Inr w'' \<Rightarrow> Inr (in_argument_order ss, w'')))"

fun restore_all :: "nat \<Rightarrow> scoped list \<Rightarrow> process \<Rightarrow> flag_abort + process" where
  "restore_all c [] w = Inr w"
| "restore_all c (s # ss) w = (case RestoreScoped c s w of
     Inl e \<Rightarrow> Inl e | Inr (s', w') \<Rightarrow> restore_all c ss w')"

text \<open>The destructor: the latest save is undone first.\<close>

definition RestoreInReverse :: "nat \<Rightarrow> scoped list \<Rightarrow> process \<Rightarrow> flag_abort + process" where
  "RestoreInReverse c pairs w = restore_all c (rev (sort_key scope_sequence pairs)) w"

end
