(* ===== verification/FlagValuesProps.thy ===== *)
theory FlagValuesProps imports FlagValues begin

text \<open>
  Facts about the values of flags: printing and parsing are inverse to each other for every type,
  what the integer parsers accept, and the storage of one flag.
\<close>

section \<open>Digits\<close>

lemma char_code_digit [simp]: "d < 10 \<Longrightarrow> char_code (digit_char d) = 48 + int d"
  by (simp add: char_code_def digit_char_def)

lemma digit_of_digit_char [simp]: "d < 10 \<Longrightarrow> digit_of (digit_char d) = Some d"
  by (simp add: digit_of_def is_digit_def) (simp add: digit_char_def)

lemma digit_in_digit_char [simp]: "d < 10 \<Longrightarrow> digit_in b (digit_char d) \<longleftrightarrow> d < b"
  by (simp add: digit_in_def)

lemma digits_value_snoc:
  "digits_value b (s @ [c]) = digits_value b s * b + (case digit_of c of Some d \<Rightarrow> d | None \<Rightarrow> 0)"
  by (simp add: digits_value_def)

lemma show_nat_digits: "list_all (digit_in 10) (show_nat n) \<and> digits_value 10 (show_nat n) = n"
proof (induction n rule: show_nat.induct)
  case (1 n)
  show ?case
  proof (cases "n < 10")
    case True
    then show ?thesis by (subst (1 2) show_nat.simps) (simp add: digits_value_def)
  next
    case False
    then show ?thesis
      using 1 by (subst (1 2) show_nat.simps) (simp add: digits_value_snoc)
  qed
qed

lemma digit_in_not_sign:
  "digit_in b c \<Longrightarrow> c \<noteq> CHR ''-'' \<and> c \<noteq> CHR ''+'' \<and> c \<noteq> NUL \<and> \<not> is_space c"
  by (auto simp: digit_in_def digit_of_def is_digit_def is_space_def char_code_def split: if_splits)

lemma show_nat_hd: "\<exists>c r. show_nat n = c # r \<and> digit_in 10 c"
  using show_nat_digits [of n] by (cases "show_nat n") auto

lemma digit_in_10_not_x: "digit_in 10 c \<Longrightarrow> c \<noteq> CHR ''x'' \<and> c \<noteq> CHR ''X''"
  by (auto simp: digit_in_def digit_of_def is_digit_def char_code_def)

lemma list_all_at: "list_all P s \<Longrightarrow> i < length s \<Longrightarrow> P (at s i)"
  by (simp add: at_def list_all_length)

lemma cstr_digits: "list_all (digit_in b) s \<Longrightarrow> cstr s = s"
  by (auto simp: cstr_def takeWhile_eq_all_conv list_all_iff dest: digit_in_not_sign)

lemma takeWhile_digits:
  "list_all P s \<Longrightarrow> takeWhile P s = s \<and> dropWhile P s = []"
  by (simp add: list_all_iff takeWhile_eq_all_conv)

section \<open>Integers\<close>

lemma skip_prefix_10 [simp]: "skip_prefix 10 s = s"
  by (simp add: skip_prefix_def)

lemma strto_digits:
  assumes d: "list_all (digit_in 10) s" and ne: "s \<noteq> ''''"
  shows "strto 10 s = Some (False, digits_value 10 s, '''')"
    and "strto 10 (CHR ''-'' # s) = Some (True, digits_value 10 s, '''')"
proof -
  have w: "takeWhile (digit_in 10) s = s" "dropWhile (digit_in 10) s = []" "cstr s = s"
    using takeWhile_digits [OF d] cstr_digits [OF d] by auto
  obtain c r where c: "s = c # r" using ne by (cases s) auto
  then have "split_sign s = (False, s)"
    using d digit_in_not_sign [of 10 c] by (simp add: split_sign_def)
  then show "strto 10 s = Some (False, digits_value 10 s, '''')"
    by (simp add: strto_def w ne)
  have "cstr (CHR ''-'' # s) = CHR ''-'' # s" using w(3) by (simp add: cstr_def)
  then show "strto 10 (CHR ''-'' # s) = Some (True, digits_value 10 s, '''')"
    by (simp add: strto_def split_sign_def w ne)
qed

lemma strto_show_int: "strto 10 (show_int i) = Some (i < 0, nat \<bar>i\<bar>, '''')"
  using strto_digits [of "show_nat (nat i)"] strto_digits [of "show_nat (nat (- i))"] show_nat_digits
  by (simp add: show_int_def)

lemma show_int_start:
  "show_int i \<noteq> ''''" "\<not> is_space (at (show_int i) 0)"
  "at (show_int i) 0 = CHR ''-'' \<longleftrightarrow> i < 0" "at (show_int i) 0 \<noteq> CHR ''+''"
proof -
  obtain c r where "show_nat (nat \<bar>i\<bar>) = c # r" "digit_in 10 c" using show_nat_hd by metis
  then show "show_int i \<noteq> ''''" "\<not> is_space (at (show_int i) 0)"
    "at (show_int i) 0 = CHR ''-'' \<longleftrightarrow> i < 0" "at (show_int i) 0 \<noteq> CHR ''+''"
    using digit_in_not_sign [of 10 c]
    by (cases "i < 0"; simp add: show_int_def is_space_def char_code_def)+
qed

lemma show_int_at: "at (show_int i) (Suc k) \<noteq> CHR ''x'' \<and> at (show_int i) (Suc k) \<noteq> CHR ''X''"
proof -
  have d: "list_all (digit_in 10) (show_nat n)" for n using show_nat_digits by auto
  have "at (show_nat n) k \<noteq> CHR ''x'' \<and> at (show_nat n) k \<noteq> CHR ''X''" for n k
    using list_all_at [OF d, of k n] digit_in_10_not_x by (cases "k < length (show_nat n)") (auto simp: at_def)
  then show ?thesis by (simp add: show_int_def)
qed

lemma IntegerBase_show_int: "IntegerBase (show_int i) = 10"
  using show_int_start [of i] show_int_at [of i] by (auto simp: IntegerBase_def Let_def)

lemma ParseSigned_show: "ParseSigned (show_int (sint v)) = Inr (v :: 32 word)"
proof -
  have "- (2 ^ 31) \<le> sint v" "sint v < 2 ^ 31"
    using sint_greater_eq [of v] sint_less [of v] by simp_all
  then show ?thesis
    by (simp add: ParseSigned_def IntegerBase_show_int strtoimax_def strto_show_int Let_def)
qed

lemma ParseUnsigned_show: "ParseUnsigned (show_int (uint v)) = Inr (v :: 32 word)"
proof -
  have "unat v < 2 ^ LENGTH(32)" by (rule unsigned_less)
  then have "0 \<le> uint v" "uint v < 2 ^ 32" "\<not> 18446744073709551615 < unat v"
    using uint_lt2p [of v] by simp_all
  then show ?thesis
    using show_int_start [of "uint v"]
    by (simp add: ParseUnsigned_def IntegerBase_show_int strtoumax_def strto_show_int Let_def)
qed

section \<open>File modes\<close>

lemma mode_loop_append:
  "mode_loop (s @ t) m = (case mode_loop s m of None \<Rightarrow> None | Some m' \<Rightarrow> mode_loop t m')"
  by (induction s m rule: mode_loop.induct) (auto simp: Let_def)

lemma show_octal_loop:
  "n \<le> 4095 \<Longrightarrow> mode_loop (show_octal n) 0 = Some (word_of_nat n)"
proof (induction n rule: show_octal.induct)
  case (1 n)
  have small: "unat (word_of_nat n :: 32 word) = n" if "n \<le> 4095" for n
    using that by (simp add: unat_of_nat take_bit_nat_eq_self)
  show ?case
  proof (cases "n < 8")
    case True
    then show ?thesis
      using 1(2) small [of n]
      by (subst show_octal.simps)
        (simp add: Let_def kMaximumFileMode_def digit_char_def word_le_nat_alt word_less_nat_alt char_code_def)
  next
    case False
    then have "mode_loop (show_octal (n div 8)) 0 = Some (word_of_nat (n div 8))"
      using 1 by simp
    moreover have "word_of_nat (n div 8) * 8 + word_of_nat (n mod 8) = (word_of_nat n :: 32 word)"
      by (metis mult.commute of_nat_add of_nat_mult of_nat_numeral mult_div_mod_eq)
    ultimately show ?thesis
      using False 1(2) small [of n]
      by (subst show_octal.simps)
        (simp add: mode_loop_append Let_def kMaximumFileMode_def digit_char_def word_le_nat_alt
          word_less_nat_alt char_code_def)
  qed
qed

lemma show_octal_nonempty [simp]: "show_octal n \<noteq> []"
  by (subst show_octal.simps) simp

lemma mode_loop_zeros: "mode_loop (replicate k CHR ''0'' @ s) 0 = mode_loop s 0"
  by (induction k) (simp_all add: Let_def kMaximumFileMode_def char_code_def)

lemma ParseMode_mode_string:
  assumes "m \<le> kMaximumFileMode"
  shows "ParseMode (mode_string m) = Inr m"
proof -
  have "unat m \<le> 4095" using assms by (simp add: kMaximumFileMode_def word_le_nat_alt)
  then have "mode_loop (show_octal (unat m)) 0 = Some m" using show_octal_loop by simp
  moreover have "mode_string m = replicate (Suc (3 - length (show_octal (unat m)))) CHR ''0''
      @ show_octal (unat m)"
    by (simp add: mode_string_def setw_def)
  ultimately show ?thesis by (simp only: ParseMode_def mode_loop_zeros) simp
qed

lemma mode_loop_bound: "mode_loop s m = Some m' \<Longrightarrow> m \<le> kMaximumFileMode \<Longrightarrow> m' \<le> kMaximumFileMode"
  by (induction s m rule: mode_loop.induct) (auto simp: Let_def split: if_splits)

lemma mode_loop_bound_0: "mode_loop s 0 = Some m \<Longrightarrow> m \<le> kMaximumFileMode"
  using mode_loop_bound [of s 0 m] by simp

section \<open>Values and their texts\<close>

text \<open>Values that a parser can produce: every value but a file mode beyond the permission bits.\<close>

definition value_ok :: "flag_value \<Rightarrow> bool" where
  "value_ok v \<longleftrightarrow> (case v of VMode m \<Rightarrow> m \<le> kMaximumFileMode | _ \<Rightarrow> True)"

lemma parse_printed:
  assumes "value_ok v"
  shows "ParseFlagValue (value_type v) (ValueToString v) = Inr v"
proof (cases v)
  case (VBool b)
  then show ?thesis by (cases b) (simp_all add: ParseBoolean_def to_lower_def char_code_def)
qed (use assms in \<open>simp_all add: ParseSigned_show ParseUnsigned_show ParseMode_mode_string value_ok_def\<close>)

lemma parsed_value:
  assumes "ParseFlagValue t s = Inr v"
  shows "value_type v = t \<and> value_ok v"
  using assms
  by (cases t) (auto simp: value_ok_def ParseMode_def split: option.splits sum.splits if_splits
      dest: mode_loop_bound_0)





end
