(* ===== verification/FlagRegistryFacts.thy ===== *)
theory FlagRegistryFacts imports FlagModules FlagValuesProps begin

text \<open>
  The invariant of the flag registry: the two tables of a copy describe the same flags, all of which
  exist; names are valid and unambiguous; registrations are unique; the entries in the shared list are
  those of the copy's flags; declarations agree with definitions. Every operation keeps it.
\<close>

section \<open>The invariant\<close>

definition registration_of :: "registry \<Rightarrow> nat \<Rightarrow> nat option" where
  "registration_of r p = map_option registration_id (map_of (entries r) p)"

definition tables_ok :: "process \<Rightarrow> registry \<Rightarrow> bool" where
  "tables_ok w r \<longleftrightarrow> om_ok (flags r) \<and> om_ok (entries r)
     \<and> (\<forall>n p. map_of (flags r) n = Some p \<longrightarrow>
          map_of (entries r) p \<noteq> None \<and> (\<exists>f. objects w p = Some f \<and> flag_name f = n))
     \<and> (\<forall>p. map_of (entries r) p \<noteq> None \<longrightarrow>
          (\<exists>f. objects w p = Some f \<and> map_of (flags r) (flag_name f) = Some p))"

definition names_ok :: "process \<Rightarrow> registry \<Rightarrow> bool" where
  "names_ok w r \<longleftrightarrow>
     (\<forall>n p. map_of (flags r) n = Some p \<longrightarrow> IsValidFlagName n \<and> n \<noteq> ''help''
        \<and> (map_of (flags r) (''no'' @ n) \<noteq> None \<longrightarrow> \<not> is_boolean w p))"

definition registrations_ok :: "registry \<Rightarrow> bool" where
  "registrations_ok r \<longleftrightarrow> 0 < next_registration r
     \<and> (\<forall>p k. registration_of r p = Some k \<longrightarrow> 0 < k \<and> k < next_registration r)
     \<and> (\<forall>p q k. registration_of r p = Some k \<and> registration_of r q = Some k \<longrightarrow> p = q)"

definition shares_ok :: "process \<Rightarrow> nat \<Rightarrow> bool" where
  "shares_ok w c \<longleftrightarrow> (case shared w of
     None \<Rightarrow> flags (copies w c) = []
   | Some es \<Rightarrow>
       (\<forall>e \<in> set es. entry_owner e = c \<longrightarrow>
          (\<exists>p f. map_of (flags (copies w c)) (entry_name e) = Some p \<and> objects w p = Some f
             \<and> entry_filename e = flag_file f \<and> entry_type e = TypeName (flag_type f)))
       \<and> (\<forall>n p. map_of (flags (copies w c)) n = Some p \<longrightarrow>
          (\<exists>e \<in> set es. entry_owner e = c \<and> entry_name e = n)))"

definition declarations_ok :: "process \<Rightarrow> registry \<Rightarrow> bool" where
  "declarations_ok w r \<longleftrightarrow>
     (\<forall>n d p f. (n, d) \<in> set (declared r) \<and> map_of (flags r) n = Some p \<and> objects w p = Some f \<longrightarrow>
        declared_type d = TypeName (flag_type f))"

definition registry_ok :: "process \<Rightarrow> nat \<Rightarrow> bool" where
  "registry_ok w c \<longleftrightarrow> tables_ok w (copies w c) \<and> names_ok w (copies w c)
     \<and> registrations_ok (copies w c) \<and> shares_ok w c \<and> declarations_ok w (copies w c)"

definition typed_flag :: "flag \<Rightarrow> bool" where
  "typed_flag f \<longleftrightarrow> value_type (current f) = flag_type f \<and> value_type (default_val f) = flag_type f"

definition process_ok :: "process \<Rightarrow> bool" where
  "process_ok w \<longleftrightarrow> shared_ok (shared w) \<and> (\<forall>c. registry_ok w c)
     \<and> (\<forall>p f. objects w p = Some f \<longrightarrow> typed_flag f)"

section \<open>Simplification rules\<close>

lemma set_copy_simps [simp]:
  "objects (set_copy c r w) = objects w" "shared (set_copy c r w) = shared w"
  "copies (set_copy c r w) = (copies w)(c := r)" "next_identity (set_copy c r w) = next_identity w"
  by (simp_all add: set_copy_def)

lemma set_object_simps [simp]:
  "objects (set_object p f w) = (objects w)(p := Some f)" "shared (set_object p f w) = shared w"
  "copies (set_object p f w) = copies w" "next_identity (set_object p f w) = next_identity w"
  by (simp_all add: set_object_def)

lemma tables_flagD:
  assumes "tables_ok w r" and "map_of (flags r) n = Some p"
  obtains f e where "objects w p = Some f" "flag_name f = n" "map_of (entries r) p = Some e"
  using assms unfolding tables_ok_def by blast

lemma tables_entryD:
  assumes "tables_ok w r" and "map_of (entries r) p = Some e"
  obtains f where "objects w p = Some f" "map_of (flags r) (flag_name f) = Some p"
  using assms unfolding tables_ok_def by blast

lemma processD:
  assumes "process_ok w"
  shows "tables_ok w (copies w c)" "names_ok w (copies w c)" "registrations_ok (copies w c)"
    "shares_ok w c" "declarations_ok w (copies w c)" "shared_ok (shared w)"
    "objects w p = Some f \<Longrightarrow> typed_flag f"
  using assms by (simp_all add: process_ok_def registry_ok_def)

section \<open>Frames\<close>

text \<open>
  The invariant depends on what a flag is, not on its values, and on the tables of a registry, not on
  how its flags are grouped or shown.
\<close>

definition same_flag :: "flag \<Rightarrow> flag \<Rightarrow> bool" where
  "same_flag f g \<longleftrightarrow> flag_name f = flag_name g \<and> flag_file f = flag_file g \<and> flag_type f = flag_type g"

lemma same_flag_refl [simp]: "same_flag f f"
  by (simp add: same_flag_def)

definition same_tables :: "registry \<Rightarrow> registry \<Rightarrow> bool" where
  "same_tables r r' \<longleftrightarrow> flags r = flags r' \<and> registration_of r = registration_of r'
     \<and> om_ok (entries r) = om_ok (entries r') \<and> next_registration r = next_registration r'
     \<and> declared r = declared r'"

lemma same_tables_refl [simp]: "same_tables r r"
  by (simp add: same_tables_def)

lemma registration_of_None: "registration_of r p = None \<longleftrightarrow> map_of (entries r) p = None"
  by (simp add: registration_of_def)

lemma same_tables_entries:
  "same_tables r r' \<Longrightarrow> map_of (entries r) p = None \<longleftrightarrow> map_of (entries r') p = None"
  by (metis registration_of_None same_tables_def)

lemma registry_ok_frame:
  assumes ok: "registry_ok w c"
    and obj: "\<And>p f. objects w p = Some f \<Longrightarrow> map_of (entries (copies w c)) p \<noteq> None \<Longrightarrow>
        \<exists>g. objects w' p = Some g \<and> same_flag f g"
    and tab: "same_tables (copies w c) (copies w' c)"
    and sh: "(shared w = None \<longleftrightarrow> shared w' = None)
        \<and> (\<forall>es es'. shared w = Some es \<and> shared w' = Some es' \<longrightarrow>
             (\<forall>e. entry_owner e = c \<longrightarrow> (e \<in> set es \<longleftrightarrow> e \<in> set es')))"
  shows "registry_ok w' c"
proof -
  let ?r = "copies w c" and ?r' = "copies w' c"
  have t: "tables_ok w ?r" "names_ok w ?r" "registrations_ok ?r" "shares_ok w c" "declarations_ok w ?r"
    using ok by (simp_all add: registry_ok_def)
  have fl: "flags ?r' = flags ?r" and en: "\<And>p. map_of (entries ?r') p = None \<longleftrightarrow> map_of (entries ?r) p = None"
    and de: "declared ?r' = declared ?r" and reg: "registration_of ?r' = registration_of ?r"
    and nx: "next_registration ?r' = next_registration ?r" and om: "om_ok (entries ?r') = om_ok (entries ?r)"
    using tab same_tables_entries [OF tab] by (simp_all add: same_tables_def)
  have look: "\<exists>f g. objects w p = Some f \<and> objects w' p = Some g \<and> same_flag f g \<and> flag_name f = n"
    if l: "map_of (flags ?r) n = Some p" for n p
  proof -
    obtain f e where f: "objects w p = Some f" "flag_name f = n" "map_of (entries ?r) p = Some e"
      using t(1) l by (rule tables_flagD)
    then obtain g where "objects w' p = Some g" "same_flag f g" using obj by force
    with f show ?thesis by blast
  qed
  have "tables_ok w' ?r'"
    unfolding tables_ok_def fl om en
  proof (intro conjI allI impI)
    fix n p assume p: "map_of (flags ?r) n = Some p"
    show "map_of (entries ?r) p \<noteq> None" using t(1) p by (simp add: tables_ok_def)
    show "\<exists>f. objects w' p = Some f \<and> flag_name f = n" using look [OF p] by (auto simp: same_flag_def)
  next
    fix p assume "map_of (entries ?r) p \<noteq> None"
    then obtain e where e: "map_of (entries ?r) p = Some e" by blast
    obtain f where f: "objects w p = Some f" "map_of (flags ?r) (flag_name f) = Some p"
      using t(1) e by (rule tables_entryD)
    then show "\<exists>f. objects w' p = Some f \<and> map_of (flags ?r) (flag_name f) = Some p"
      using look [OF f(2)] by (auto simp: same_flag_def)
  qed (use t(1) in \<open>simp_all add: tables_ok_def\<close>)
  moreover have "names_ok w' ?r'"
    unfolding names_ok_def fl
  proof (intro allI impI)
    fix n p assume p: "map_of (flags ?r) n = Some p"
    then have "is_boolean w' p = is_boolean w p"
      using look [OF p] by (auto simp: is_boolean_def same_flag_def)
    then show "IsValidFlagName n \<and> n \<noteq> ''help''
        \<and> (map_of (flags ?r) (''no'' @ n) \<noteq> None \<longrightarrow> \<not> is_boolean w' p)"
      using t(2) p by (simp add: names_ok_def)
  qed
  moreover have "registrations_ok ?r'"
    using t(3) by (simp add: registrations_ok_def reg nx)
  moreover have "shares_ok w' c"
    using t(4) sh look unfolding shares_ok_def fl
    by (auto split: option.splits simp: same_flag_def) (metis option.inject)+
  moreover have "declarations_ok w' ?r'"
    using t(5) look unfolding declarations_ok_def fl de same_flag_def by (metis option.inject)
  ultimately show ?thesis by (simp add: registry_ok_def)
qed

text \<open>A change is quiet when it leaves the tables of every copy, the shared list and what flags are.\<close>

definition quiet :: "process \<Rightarrow> process \<Rightarrow> bool" where
  "quiet w w' \<longleftrightarrow> (\<forall>c. same_tables (copies w c) (copies w' c)) \<and> shared w = shared w'
     \<and> (\<forall>p. (objects w p = None \<longrightarrow> objects w' p = None)
        \<and> (\<forall>f. objects w p = Some f \<longrightarrow>
             (\<exists>g. objects w' p = Some g \<and> same_flag f g \<and> (typed_flag f \<longrightarrow> typed_flag g))))"

lemma quiet_refl [simp]: "quiet w w"
  by (simp add: quiet_def)

lemma same_flag_trans: "same_flag f g \<Longrightarrow> same_flag g h \<Longrightarrow> same_flag f h"
  by (simp add: same_flag_def)

lemma same_tables_trans: "same_tables q r \<Longrightarrow> same_tables r s \<Longrightarrow> same_tables q s"
  by (simp add: same_tables_def)

lemma quiet_trans:
  assumes "quiet u v" and "quiet v w"
  shows "quiet u w"
  unfolding quiet_def
proof (intro conjI allI impI)
  show "same_tables (copies u c) (copies w c)" for c
    using assms same_tables_trans unfolding quiet_def by blast
  show "shared u = shared w" using assms by (simp add: quiet_def)
  fix p
  show "objects w p = None" if "objects u p = None" using assms that by (simp add: quiet_def)
  show "\<exists>g. objects w p = Some g \<and> same_flag f g \<and> (typed_flag f \<longrightarrow> typed_flag g)"
    if f: "objects u p = Some f" for f
  proof -
    obtain g where "objects v p = Some g" "same_flag f g" "typed_flag f \<longrightarrow> typed_flag g"
      using assms(1) f unfolding quiet_def by blast
    then show ?thesis using assms(2) same_flag_trans unfolding quiet_def by blast
  qed
qed

lemma quiet_set_object:
  "objects w p = Some f \<Longrightarrow> same_flag f g \<Longrightarrow> typed_flag f \<longrightarrow> typed_flag g \<Longrightarrow> quiet w (set_object p g w)"
  by (auto simp: quiet_def)

lemma quiet_set_copy: "same_tables (copies w c) r \<Longrightarrow> quiet w (set_copy c r w)"
  by (auto simp: quiet_def)

lemma quiet_next_identity: "quiet w (w\<lparr>next_identity := i\<rparr>)"
  by (auto simp: quiet_def)

lemma process_ok_quiet:
  assumes ok: "process_ok w" and q: "quiet w w'"
  shows "process_ok w'"
  unfolding process_ok_def
proof (intro conjI allI impI)
  show "shared_ok (shared w')" using ok q by (simp add: process_ok_def quiet_def)
  fix c
  have "registry_ok w c" using ok by (simp add: process_ok_def)
  then show "registry_ok w' c"
  proof (rule registry_ok_frame)
    show "\<exists>g. objects w' p = Some g \<and> same_flag f g" if "objects w p = Some f" for p f
      using q that unfolding quiet_def by blast
  qed (use q in \<open>auto simp: quiet_def\<close>)
next
  fix p g assume g: "objects w' p = Some g"
  then obtain f where f: "objects w p = Some f" using q by (cases "objects w p") (auto simp: quiet_def)
  then have "typed_flag f" using ok by (simp add: process_ok_def)
  then show "typed_flag g" using f g q unfolding quiet_def by force
qed

section \<open>Registration\<close>

lemma entries_alive:
  "process_ok w \<Longrightarrow> map_of (entries (copies w c)) p \<noteq> None \<Longrightarrow> objects w p \<noteq> None"
  using processD(1) [of w c] unfolding tables_ok_def by blast

lemma process_ok_create:
  assumes "process_ok w" and "objects w p = None" and "typed_flag f"
  shows "process_ok (create_flag p f w)"
  unfolding process_ok_def create_flag_def
proof (intro conjI allI impI)
  fix c
  have "registry_ok w c" using assms(1) by (simp add: process_ok_def)
  then show "registry_ok (set_object p f w) c"
    by (rule registry_ok_frame) (use assms(2) in auto)
qed (use assms in \<open>auto simp: process_ok_def split: if_splits\<close>)

text \<open>What a successful registration has checked, and the state it leaves.\<close>

lemma RegisterFlag_Inr:
  assumes "RegisterFlag memory c p w = Inr w'"
  obtains f es where "objects w p = Some f" "map_of (entries (copies w c)) p = None"
    "IsValidFlagName (flag_name f)" "flag_name f \<noteq> ''help''"
    "negation_conflict w (copies w c) p f = None" "map_of (flags (copies w c)) (flag_name f) = None"
    "shared w = Some es" "find_entry (flag_name f) es = None" "memory"
    "mismatched (flag_name f) (TypeName (flag_type f)) (copies w c) = None"
    "w' = set_copy c ((copies w c)\<lparr>flags := om_put (flag_name f) p (flags (copies w c)),
            entries := om_put p (new_entry (copies w c)) (entries (copies w c)),
            next_registration := next_registration (copies w c) + 1\<rparr>)
          (w\<lparr>shared := Some (\<lparr>entry_owner = c, entry_name = flag_name f, entry_filename = flag_file f,
               entry_type = TypeName (flag_type f)\<rparr> # es)\<rparr>)"
  using assms
  by (auto simp: RegisterFlag_def Register_def Let_def
      split: option.splits if_splits prod.splits registration.splits)

lemma negation_conflict_None:
  assumes "negation_conflict w r p f = None"
  shows "TypeName (flag_type f) = ''bool'' \<Longrightarrow> map_of (flags r) (''no'' @ flag_name f) = None"
    and "flag_name f = ''no'' @ n \<Longrightarrow> map_of (flags r) n = Some q \<Longrightarrow> \<not> is_boolean w q"
proof -
  show "map_of (flags r) (''no'' @ flag_name f) = None" if "TypeName (flag_type f) = ''bool''"
    using assms that by (auto simp: negation_conflict_def split: option.splits if_splits)
  show "\<not> is_boolean w q" if n: "flag_name f = ''no'' @ n" "map_of (flags r) n = Some q"
  proof -
    have "starts_with ''no'' (flag_name f)" "drop 2 (flag_name f) = n"
      using n by (simp_all add: starts_with_def)
    then show ?thesis
      using assms n(2) unfolding negation_conflict_def
      by (auto simp: is_boolean_def split: option.splits if_splits)
  qed
qed

lemma no_neq [simp]: "''no'' @ n \<noteq> n"
  by (metis append_self_conv2 list.distinct(1))

lemma mismatched_None:
  assumes "mismatched n t r = None" and "(n, d) \<in> set (declared r)"
  shows "declared_type d = t"
  using assms by (force simp: mismatched_def find_None_iff declarations_of_def)

lemma registration_of_put:
  "registration_of (r\<lparr>flags := fs, entries := om_put p e (entries r), next_registration := k\<rparr>) q
   = (if q = p then Some (registration_id e) else registration_of r q)"
  by (simp add: registration_of_def map_of_om_put)

lemma process_ok_RegisterFlag:
  assumes ok: "process_ok w" and reg: "RegisterFlag memory c p w = Inr w'"
  shows "process_ok w'"
proof -
  obtain f es where f: "objects w p = Some f" and ne: "map_of (entries (copies w c)) p = None"
    and v: "IsValidFlagName (flag_name f)" "flag_name f \<noteq> ''help''"
    and neg: "negation_conflict w (copies w c) p f = None"
    and new: "map_of (flags (copies w c)) (flag_name f) = None"
    and es: "shared w = Some es" "find_entry (flag_name f) es = None"
    and mis: "mismatched (flag_name f) (TypeName (flag_type f)) (copies w c) = None"
    and w': "w' = set_copy c ((copies w c)\<lparr>flags := om_put (flag_name f) p (flags (copies w c)),
            entries := om_put p (new_entry (copies w c)) (entries (copies w c)),
            next_registration := next_registration (copies w c) + 1\<rparr>)
          (w\<lparr>shared := Some (\<lparr>entry_owner = c, entry_name = flag_name f, entry_filename = flag_file f,
               entry_type = TypeName (flag_type f)\<rparr> # es)\<rparr>)"
    using reg by (rule RegisterFlag_Inr)
  note d = processD(1-5) [OF ok, of c] processD(6) [OF ok]
  let ?r = "copies w c" and ?r' = "copies w' c"
  have objs: "objects w' = objects w" by (simp add: w')
  have fl: "map_of (flags ?r') n = (if n = flag_name f then Some p else map_of (flags ?r) n)" for n
    by (simp add: w' map_of_om_put)
  have en: "map_of (entries ?r') q = (if q = p then Some (new_entry ?r) else map_of (entries ?r) q)" for q
    by (simp add: w' map_of_om_put)
  have un: "map_of (flags ?r) n \<noteq> Some p" for n
    using d(1) ne by (auto elim: tables_flagD)
  have "tables_ok w' ?r'"
    unfolding tables_ok_def fl en objs
  proof (intro conjI allI impI)
    show "om_ok (flags ?r')" "om_ok (entries ?r')"
      using d(1) by (simp_all add: tables_ok_def w' om_ok_put)
    fix n q assume q: "(if n = flag_name f then Some p else map_of (flags ?r) n) = Some q"
    show "(if q = p then Some (new_entry ?r) else map_of (entries ?r) q) \<noteq> None"
      using d(1) q by (auto elim: tables_flagD split: if_splits)
    show "\<exists>f. objects w q = Some f \<and> flag_name f = n"
      using d(1) f q by (auto elim: tables_flagD split: if_splits)
  next
    fix q assume q: "(if q = p then Some (new_entry ?r) else map_of (entries ?r) q) \<noteq> None"
    show "\<exists>g. objects w q = Some g
        \<and> (if flag_name g = flag_name f then Some p else map_of (flags ?r) (flag_name g)) = Some q"
    proof (cases "q = p")
      case False
      then obtain e where "map_of (entries ?r) q = Some e" using q by auto
      with d(1) obtain g where "objects w q = Some g" "map_of (flags ?r) (flag_name g) = Some q"
        by (rule tables_entryD)
      then show ?thesis using new by auto
    qed (use f in simp)
  qed
  moreover have "names_ok w' ?r'"
    unfolding names_ok_def fl
  proof (intro allI impI)
    fix n q assume q: "(if n = flag_name f then Some p else map_of (flags ?r) n) = Some q"
    have b: "is_boolean w' q = is_boolean w q" by (simp add: is_boolean_def objs)
    have bp: "is_boolean w p \<longleftrightarrow> TypeName (flag_type f) = ''bool''" using f by (simp add: is_boolean_def)
    show "IsValidFlagName n \<and> n \<noteq> ''help'' \<and>
        ((if ''no'' @ n = flag_name f then Some p else map_of (flags ?r) (''no'' @ n)) \<noteq> None
           \<longrightarrow> \<not> is_boolean w' q)"
    proof (cases "n = flag_name f")
      case True
      then show ?thesis using q v bp negation_conflict_None(1) [OF neg] by (auto simp: b)
    next
      case False
      then have "map_of (flags ?r) n = Some q" using q by simp
      then show ?thesis
        using d(2) negation_conflict_None(2) [OF neg, of n q] unfolding names_ok_def b by auto
    qed
  qed
  moreover have "registrations_ok ?r'"
    using d(3) ne unfolding registrations_ok_def w'
    by (auto simp: registration_of_put new_entry_def registration_of_None less_Suc_eq split: if_splits)
  moreover have "shares_ok w' c'" if "\<forall>c. shares_ok w c" for c'
    using that f un new unfolding shares_ok_def objs
    by (cases "c' = c") (fastforce simp: w' es(1) map_of_om_put)+
  moreover have "declarations_ok w' ?r'"
    using d(5) f mismatched_None [OF mis] unfolding declarations_ok_def fl objs
    by (auto simp: w' split: if_splits)
  ultimately have r: "registry_ok w' c" using ok by (simp add: process_ok_def registry_ok_def)
  show ?thesis
    unfolding process_ok_def
  proof (intro conjI allI impI)
    show "shared_ok (shared w')"
      using d(6) es by (auto simp: w' shared_ok_def find_entry_None)
    fix c'
    show "registry_ok w' c'"
    proof (cases "c' = c")
      case False
      have "registry_ok w c'" using ok by (simp add: process_ok_def)
      then show ?thesis by (rule registry_ok_frame) (use False es in \<open>auto simp: w'\<close>)
    qed (use r in simp)
  qed (use ok in \<open>auto simp: process_ok_def w'\<close>)
qed

lemma UnregisterFlag_eq:
  assumes ok: "process_ok w"
  shows "map_of (entries (copies w c)) p = None \<Longrightarrow> UnregisterFlag c p w = Inr w"
    and "map_of (entries (copies w c)) p \<noteq> None \<Longrightarrow> objects w p = Some f \<Longrightarrow>
      map_of (flags (copies w c)) (flag_name f) = Some p
      \<and> UnregisterFlag c p w = Inr (set_copy c
          ((copies w c)\<lparr>entries := AList.delete p (entries (copies w c)),
             flags := AList.delete (flag_name f) (flags (copies w c)),
             flag_help_formatters := AList.delete (flag_name f) (flag_help_formatters (copies w c)),
             flag_displays := AList.delete (flag_name f) (flag_displays (copies w c))\<rparr>)
          (w\<lparr>shared := Unregister c (flag_name f) (flag_file f) (shared w)\<rparr>))"
proof -
  show "map_of (entries (copies w c)) p = None \<Longrightarrow> UnregisterFlag c p w = Inr w"
    by (simp add: UnregisterFlag_def Let_def)
  assume "map_of (entries (copies w c)) p \<noteq> None" and f: "objects w p = Some f"
  then obtain e where e: "map_of (entries (copies w c)) p = Some e" by blast
  have "map_of (flags (copies w c)) (flag_name f) = Some p"
    using tables_entryD [OF processD(1) [OF ok] e] f by auto
  then show "map_of (flags (copies w c)) (flag_name f) = Some p
      \<and> UnregisterFlag c p w = Inr (set_copy c
          ((copies w c)\<lparr>entries := AList.delete p (entries (copies w c)),
             flags := AList.delete (flag_name f) (flags (copies w c)),
             flag_help_formatters := AList.delete (flag_name f) (flag_help_formatters (copies w c)),
             flag_displays := AList.delete (flag_name f) (flag_displays (copies w c))\<rparr>)
          (w\<lparr>shared := Unregister c (flag_name f) (flag_file f) (shared w)\<rparr>))"
    using e f by (simp add: UnregisterFlag_def Let_def)
qed

lemma process_ok_UnregisterFlag:
  assumes ok: "process_ok w" and un: "UnregisterFlag c p w = Inr w'"
  shows "process_ok w' \<and> map_of (entries (copies w' c)) p = None \<and> objects w' = objects w
     \<and> (\<forall>c'. c' \<noteq> c \<longrightarrow> copies w' c' = copies w c')"
proof (cases "map_of (entries (copies w c)) p = None")
  case True
  then show ?thesis using UnregisterFlag_eq(1) [OF ok True] un ok by simp
next
  case False
  then obtain f where f: "objects w p = Some f" using entries_alive [OF ok] by blast
  note d = processD(1-5) [OF ok, of c] processD(6) [OF ok]
  let ?r = "copies w c" and ?n = "flag_name f"
  have l: "map_of (flags ?r) ?n = Some p" using UnregisterFlag_eq(2) [OF ok False f] by blast
  have w': "w' = set_copy c (?r\<lparr>entries := AList.delete p (entries ?r),
             flags := AList.delete ?n (flags ?r),
             flag_help_formatters := AList.delete ?n (flag_help_formatters ?r),
             flag_displays := AList.delete ?n (flag_displays ?r)\<rparr>)
          (w\<lparr>shared := Unregister c ?n (flag_file f) (shared w)\<rparr>)"
    using UnregisterFlag_eq(2) [OF ok False f] un by simp
  let ?r' = "copies w' c"
  have objs: "objects w' = objects w" by (simp add: w')
  have fl: "map_of (flags ?r') n = (if n = ?n then None else map_of (flags ?r) n)" for n
    by (simp add: w' map_of_delete)
  have en: "map_of (entries ?r') q = (if q = p then None else map_of (entries ?r) q)" for q
    by (simp add: w' map_of_delete)
  have reg: "registration_of ?r' q = (if q = p then None else registration_of ?r q)" for q
    by (simp add: registration_of_def en)
  have only: "n = ?n" if "map_of (flags ?r) n = Some p" for n
    using d(1) that f by (auto elim: tables_flagD)
  have t: "tables_ok w' ?r'"
    unfolding tables_ok_def fl en objs
  proof (intro conjI allI impI)
    show "om_ok (flags ?r')" "om_ok (entries ?r')"
      using d(1) by (simp_all add: tables_ok_def w' om_ok_delete)
    fix n q assume q: "(if n = ?n then None else map_of (flags ?r) n) = Some q"
    then have q': "map_of (flags ?r) n = Some q" "q \<noteq> p" using only by (auto split: if_splits)
    show "(if q = p then None else map_of (entries ?r) q) \<noteq> None"
      using d(1) q' by (auto elim: tables_flagD)
    show "\<exists>f. objects w q = Some f \<and> flag_name f = n"
      using d(1) q'(1) by (auto elim: tables_flagD)
  next
    fix q assume q: "(if q = p then None else map_of (entries ?r) q) \<noteq> None"
    then obtain e where e: "map_of (entries ?r) q = Some e" "q \<noteq> p" by (auto split: if_splits)
    obtain g where g: "objects w q = Some g" "map_of (flags ?r) (flag_name g) = Some q"
      using d(1) e(1) by (rule tables_entryD)
    then have "flag_name g \<noteq> ?n" using l e(2) by auto
    then show "\<exists>g. objects w q = Some g
        \<and> (if flag_name g = ?n then None else map_of (flags ?r) (flag_name g)) = Some q"
      using g by auto
  qed
  have n: "names_ok w' ?r'"
    using d(2) unfolding names_ok_def fl by (auto simp: is_boolean_def objs)
  have "registrations_ok ?r'"
    using d(3) unfolding registrations_ok_def reg by (auto simp: w')
  moreover have "shares_ok w' c"
    using d(4) l f unfolding shares_ok_def objs fl
    by (cases "shared w")
      (fastforce simp: w' Unregister_def RemoveEntries_def remove_entries_filter entry_matches_def)+
  moreover have "declarations_ok w' ?r'"
    using d(5) unfolding declarations_ok_def fl objs by (auto simp: w' split: if_splits)
  ultimately have r: "registry_ok w' c" using t n by (simp add: registry_ok_def)
  have "process_ok w'"
    unfolding process_ok_def
  proof (intro conjI allI impI)
    show "shared_ok (shared w')"
      using d(6) by (simp add: w' Unregister_def shared_ok_RemoveEntries)
    fix c'
    show "registry_ok w' c'"
    proof (cases "c' = c")
      case False
      have "registry_ok w c'" using ok by (simp add: process_ok_def)
      then show ?thesis
        by (rule registry_ok_frame)
          (use False in \<open>auto simp: w' Unregister_def RemoveEntries_def remove_entries_filter entry_matches_def\<close>)
    qed (use r in simp)
  qed (use ok in \<open>auto simp: process_ok_def w'\<close>)
  then show ?thesis using en by (simp add: objs) (simp add: w')
qed

section \<open>Destruction and declarations\<close>

lemma process_ok_destroy_DynamicFlag:
  assumes ok: "process_ok w" and run: "destroy_DynamicFlag c p w = Inr w'"
    and others: "\<And>c'. c' \<noteq> c \<Longrightarrow> map_of (entries (copies w c')) p = None"
  shows "process_ok w'"
proof -
  obtain v where v: "UnregisterFlag c p w = Inr v" "w' = v\<lparr>objects := (objects v)(p := None)\<rparr>"
    using run by (auto simp: destroy_DynamicFlag_def split: sum.splits)
  have u: "process_ok v" "map_of (entries (copies v c)) p = None"
    "\<And>c'. c' \<noteq> c \<Longrightarrow> copies v c' = copies w c'"
    using process_ok_UnregisterFlag [OF ok v(1)] by auto
  have gone: "map_of (entries (copies v c')) p = None" for c'
    using u(2,3) others by (cases "c' = c") auto
  show ?thesis
    unfolding process_ok_def
  proof (intro conjI allI impI)
    fix c'
    have "registry_ok v c'" using u(1) by (simp add: process_ok_def)
    then show "registry_ok w' c'"
      by (rule registry_ok_frame) (use gone [of c'] in \<open>auto simp: v(2)\<close>)
  qed (use u(1) in \<open>auto simp: process_ok_def v(2) split: if_splits\<close>)
qed

lemma set_multimap_emplace: "set (multimap_emplace k v m) = insert (k, v) (set m)"
  by (induction m) auto

lemma set_erase_declaration: "set (erase_declaration this ds) \<subseteq> set ds"
  by (induction ds) auto

text \<open>Changing only the recorded declarations keeps what does not mention them.\<close>

lemma process_ok_declared:
  assumes ok: "process_ok w"
    and d: "declarations_ok w ((copies w c)\<lparr>declared := ds\<rparr>)"
  shows "process_ok (set_copy c ((copies w c)\<lparr>declared := ds\<rparr>) w)"
proof -
  have s: "registration_of ((copies w c)\<lparr>declared := ds\<rparr>) = registration_of (copies w c)"
    by (simp add: registration_of_def fun_eq_iff)
  have "registry_ok (set_copy c ((copies w c)\<lparr>declared := ds\<rparr>) w) c"
    using processD(1-5) [OF ok, of c] d
    by (cases "shared w"; simp add: registry_ok_def tables_ok_def names_ok_def is_boolean_def
        registrations_ok_def s shares_ok_def declarations_ok_def)
  moreover have "registry_ok (set_copy c ((copies w c)\<lparr>declared := ds\<rparr>) w) c'" if "c' \<noteq> c" for c'
  proof -
    have "registry_ok w c'" using ok by (simp add: process_ok_def)
    then show ?thesis by (rule registry_ok_frame) (use that in auto)
  qed
  ultimately show ?thesis using ok unfolding process_ok_def by (metis set_copy_simps(1,2))
qed

lemma process_ok_FlagDeclaration:
  assumes ok: "process_ok w" and run: "FlagDeclaration c this n type file w = Inr w'"
  shows "process_ok w'"
proof -
  let ?ds = "multimap_emplace n \<lparr>declared_by = this, declared_type = type, declared_file = file\<rparr>
      (declared (copies w c))"
  have w': "w' = set_copy c ((copies w c)\<lparr>declared := ?ds\<rparr>) w"
    and t: "\<And>p f. map_of (flags (copies w c)) n = Some p \<Longrightarrow> objects w p = Some f \<Longrightarrow>
      TypeName (flag_type f) = type"
    using run by (auto simp: FlagDeclaration_def Let_def split: option.splits if_splits)
  show ?thesis
    unfolding w'
  proof (rule process_ok_declared [OF ok])
    show "declarations_ok w ((copies w c)\<lparr>declared := ?ds\<rparr>)"
      using processD(5) [OF ok, of c] t unfolding declarations_ok_def
      by (auto simp: set_multimap_emplace)
  qed
qed

lemma process_ok_destroy_declaration:
  assumes ok: "process_ok w"
  shows "process_ok (destroy_declaration c this w)"
  unfolding destroy_declaration_def
proof (rule process_ok_declared [OF ok])
  show "declarations_ok w ((copies w c)\<lparr>declared := erase_declaration this (declared (copies w c))\<rparr>)"
    using processD(5) [OF ok, of c] set_erase_declaration [of this "declared (copies w c)"]
    unfolding declarations_ok_def by auto
qed

section \<open>Values\<close>

lemma parsed_typed: "ParseFlagValue t s = Inr v \<Longrightarrow> value_type v = t"
  using parsed_value by blast

lemma SetFromString_keeps:
  "SetFromString s f = Inr g \<Longrightarrow> same_flag f g \<and> (typed_flag f \<longrightarrow> typed_flag g)"
  by (auto simp: SetFromString_def SetValue_def same_flag_def typed_flag_def
      dest: parsed_typed split: sum.splits)

lemma SetDefaultFromString_keeps:
  "SetDefaultFromString s f = Inr g \<Longrightarrow> same_flag f g \<and> (typed_flag f \<longrightarrow> typed_flag g)"
  by (auto simp: SetDefaultFromString_def SetDefault_def same_flag_def typed_flag_def
      dest: parsed_typed split: sum.splits if_splits)

lemma RestoreFromString_keeps:
  "RestoreFromString s b f = Inr g \<Longrightarrow> same_flag f g \<and> (typed_flag f \<longrightarrow> typed_flag g)"
  by (auto simp: RestoreFromString_def Restore_def same_flag_def typed_flag_def
      dest: parsed_typed split: sum.splits)

lemma environment_default_keeps:
  "same_flag f (environment_default env trusted prefix f)
   \<and> (typed_flag f \<longrightarrow> typed_flag (environment_default env trusted prefix f))"
  using SetDefaultFromString_keeps
  by (auto simp: environment_default_def split: option.splits sum.splits)

lemma quiet_SetCommandLineOption:
  assumes "SetCommandLineOption c n s w = Inr (Inr w')"
  shows "quiet w w'"
proof -
  obtain p f g where "objects w p = Some f" "SetFromString s f = Inr g" "w' = set_object p g w"
    using assms by (auto simp: SetCommandLineOption_def split: option.splits sum.splits)
  then show ?thesis using quiet_set_object SetFromString_keeps by blast
qed

lemma quiet_destroy_ScopedFlags:
  "destroy_ScopedFlags c saved w = Inr w' \<Longrightarrow> quiet w w'"
proof (induction c saved w rule: destroy_ScopedFlags.induct)
  case (2 c p k s b rest w)
  show ?case
  proof (cases "RegisteredFlagLock c p k w")
    case True
    then obtain f g where f: "objects w p = Some f" "RestoreFromString s b f = Inr g"
      "destroy_ScopedFlags c rest (set_object p g w) = Inr w'"
      using 2(3) by (auto split: option.splits sum.splits)
    then have "quiet w (set_object p g w)" using quiet_set_object RestoreFromString_keeps by blast
    moreover have "quiet (set_object p g w) w'" using 2(2) [of f g] True f by simp
    ultimately show ?thesis by (rule quiet_trans)
  qed (use 2 in simp)
qed simp

section \<open>Modules and presentation\<close>

lemma same_tables_entries_map:
  assumes "\<And>e. registration_id (g e) = registration_id e"
  shows "same_tables r (r\<lparr>modules := ms, module_order := os, entries := map (\<lambda>(p, e). (p, g e)) (entries r)\<rparr>)"
proof -
  have "map_of (map (\<lambda>(p, e). (p, g e)) es) p = map_option g (map_of es p)" for es :: "(nat \<times> flag_entry) list" and p
    by (induction es) auto
  moreover have "om_ok (map (\<lambda>(p, e). (p, g e)) es) = om_ok es" for es :: "(nat \<times> flag_entry) list"
    by (simp add: om_ok_def comp_def case_prod_beta)
  ultimately show ?thesis
    using assms by (simp add: same_tables_def registration_of_def fun_eq_iff option.map_comp comp_def
        cong: option.map_cong)
qed

lemma same_tables_unmentioned:
  "same_tables r (r\<lparr>modules := ms, module_order := os\<rparr>)" "same_tables r (r\<lparr>modules := ms\<rparr>)"
  "same_tables r (r\<lparr>usage := u, usage_function := uf\<rparr>)" "same_tables r (r\<lparr>flag_displays := ds\<rparr>)"
  "same_tables r (r\<lparr>flag_help_formatters := fs\<rparr>)"
  by (simp_all add: same_tables_def registration_of_def fun_eq_iff)

lemmas quiet_copy = same_tables_unmentioned [THEN quiet_set_copy]

lemma quiet_FlagModule:
  assumes "FlagModule c name heading prefix w = Inr (m, w')"
  shows "quiet w w'"
proof (cases "name = []")
  case True
  then show ?thesis using assms quiet_next_identity by (auto simp: FlagModule_def Let_def)
next
  case False
  then obtain ms os i where "w' = set_copy c ((copies w c)\<lparr>modules := ms, module_order := os\<rparr>) (w\<lparr>next_identity := i\<rparr>)"
    using assms by (auto simp: FlagModule_def Let_def split: if_splits)
  then show ?thesis
    using quiet_trans [OF quiet_next_identity quiet_set_copy] same_tables_unmentioned(1) by auto
qed

lemma quiet_destroy_FlagModule: "quiet w (destroy_FlagModule c this w)"
proof -
  have "same_tables (copies w c) ((copies w c)\<lparr>modules := ms, module_order := os,
      entries := map (\<lambda>(p, e). (p, clear_module (own_identity this) e)) (entries (copies w c))\<rparr>)" for ms os
    by (rule same_tables_entries_map) (simp add: clear_module_def)
  then show ?thesis
    by (auto simp: destroy_FlagModule_def Let_def split: option.splits intro!: quiet_set_copy)
qed

lemma quiet_AddGroup: "quiet w (snd (AddGroup c this name w))"
  using quiet_trans [OF quiet_next_identity quiet_set_copy] same_tables_unmentioned(2)
  by (auto simp: AddGroup_def Let_def split: option.splits)

lemma quiet_AddFlag:
  assumes om: "om_ok (entries (copies w c))" and run: "AddFlag env trusted c this p w = Inr (b, w')"
  shows "quiet w w'"
proof (cases b)
  case False
  then show ?thesis using run by (auto simp: AddFlag_def Let_def split: option.splits if_splits)
next
  case True
  let ?r = "copies w c"
  obtain f e prefix where f: "objects w p = Some f" and e: "map_of (entries ?r) p = Some e"
    and w': "w' = set_object p (environment_default env trusted prefix f)
      (set_copy c (?r\<lparr>entries := om_put p (e\<lparr>entry_module := in_module this, entry_group := in_group this,
         module_identity := group_module_identity this\<rparr>) (entries ?r)\<rparr>) w)"
    using run True by (auto simp: AddFlag_def Let_def split: option.splits if_splits)
  have "same_tables ?r (?r\<lparr>entries := om_put p (e\<lparr>entry_module := in_module this,
      entry_group := in_group this, module_identity := group_module_identity this\<rparr>) (entries ?r)\<rparr>)"
    using e om by (simp add: same_tables_def registration_of_def fun_eq_iff map_of_om_put om_ok_put)
  then show ?thesis
    unfolding w'
    by (rule quiet_trans [OF quiet_set_copy quiet_set_object]) (use f environment_default_keeps in auto)
qed

lemma quiet_SetFlagDisplay: "SetFlagDisplay c p type unit w = Inr w' \<Longrightarrow> quiet w w'"
  by (auto simp: SetFlagDisplay_def Let_def quiet_copy split: option.splits if_splits)

lemma quiet_SetFlagHelpFormatter: "quiet w (snd (SetFlagHelpFormatter c name formatter w))"
  by (auto simp: SetFlagHelpFormatter_def Let_def quiet_copy)

lemma quiet_SetUsage: "quiet w (SetUsageMessage c text w)" "quiet w (SetUsageFunction c parts w)"
  by (simp_all add: SetUsageMessage_def SetUsageFunction_def quiet_copy)

end
