(* ===== verification/FlagRegistryProps.thy ===== *)
theory FlagRegistryProps imports FlagRegistryFacts begin

text \<open>
  Properties of the flag registry over all sequences of operations: \<open>flag_step\<close> is one completed
  operation of any copy of the library, and \<open>flag_reachable\<close> a process after some of them.
\<close>

section \<open>Steps\<close>

inductive flag_step :: "(string \<Rightarrow> string option) \<Rightarrow> bool \<Rightarrow> process \<Rightarrow> process \<Rightarrow> bool"
  for env trusted where
  step_create: "objects w p = None \<Longrightarrow> typed_flag f \<Longrightarrow> flag_step env trusted w (create_flag p f w)"
| step_register: "RegisterFlag memory c p w = Inr w' \<Longrightarrow> flag_step env trusted w w'"
| step_unregister: "UnregisterFlag c p w = Inr w' \<Longrightarrow> flag_step env trusted w w'"
| step_destroy: "destroy_DynamicFlag c p w = Inr w' \<Longrightarrow>
    (\<And>c'. c' \<noteq> c \<Longrightarrow> map_of (entries (copies w c')) p = None) \<Longrightarrow> flag_step env trusted w w'"
| step_declare: "FlagDeclaration c this name type file w = Inr w' \<Longrightarrow> flag_step env trusted w w'"
| step_undeclare: "flag_step env trusted w (destroy_declaration c this w)"
| step_set: "objects w p = Some f \<Longrightarrow> value_type v = flag_type f \<Longrightarrow>
    flag_step env trusted w (set_object p (SetValue v f) w)"
| step_restore: "objects w p = Some f \<Longrightarrow> value_type v = flag_type f \<Longrightarrow>
    flag_step env trusted w (set_object p (Restore v b f) w)"
| step_option: "SetCommandLineOption c name value w = Inr (Inr w') \<Longrightarrow> flag_step env trusted w w'"
| step_scope: "destroy_ScopedFlags c saved w = Inr w' \<Longrightarrow> flag_step env trusted w w'"
| step_module: "FlagModule c name heading prefix w = Inr (m, w') \<Longrightarrow> flag_step env trusted w w'"
| step_destroy_module: "flag_step env trusted w (destroy_FlagModule c m w)"
| step_group: "flag_step env trusted w (snd (AddGroup c m name w))"
| step_add: "AddFlag env trusted c g p w = Inr (b, w') \<Longrightarrow> flag_step env trusted w w'"
| step_display: "SetFlagDisplay c p type unit w = Inr w' \<Longrightarrow> flag_step env trusted w w'"
| step_formatter: "flag_step env trusted w (snd (SetFlagHelpFormatter c name formatter w))"
| step_usage: "flag_step env trusted w (SetUsageMessage c text w)"
| step_usage_function: "flag_step env trusted w (SetUsageFunction c parts w)"

definition flag_start :: "shared_entry list option \<Rightarrow> process" where
  "flag_start s = \<lparr>objects = (\<lambda>_. None), shared = s, copies = (\<lambda>_. empty_registry), next_identity = 0\<rparr>"

inductive flag_reachable :: "(string \<Rightarrow> string option) \<Rightarrow> bool \<Rightarrow> process \<Rightarrow> bool" for env trusted where
  reach_start: "flag_reachable env trusted (flag_start (Some []))"
| reach_unavailable: "flag_reachable env trusted (flag_start None)"
| reach_step: "flag_reachable env trusted w \<Longrightarrow> flag_step env trusted w w' \<Longrightarrow> flag_reachable env trusted w'"

lemma flag_step_cases_ok:
  assumes "flag_step env trusted w w'" and "process_ok w"
  shows "process_ok w'"
  using assms
proof cases
  case (step_create p f)
  then show ?thesis using assms(2) process_ok_create by blast
next
  case (step_destroy c p)
  then show ?thesis using assms(2) process_ok_destroy_DynamicFlag by blast
next
  case (step_set p f v)
  have "quiet w w'"
    unfolding step_set
    by (rule quiet_set_object) (use step_set in \<open>auto simp: SetValue_def same_flag_def typed_flag_def\<close>)
  then show ?thesis using assms(2) process_ok_quiet by blast
next
  case (step_restore p f v b)
  have "quiet w w'"
    unfolding step_restore
    by (rule quiet_set_object) (use step_restore in \<open>auto simp: Restore_def same_flag_def typed_flag_def\<close>)
  then show ?thesis using assms(2) process_ok_quiet by blast
next
  case (step_add c g p b)
  have "om_ok (entries (copies w c))" using processD(1) [OF assms(2)] by (simp add: tables_ok_def)
  then show ?thesis using quiet_AddFlag step_add assms(2) process_ok_quiet by blast
qed (use assms(2) in \<open>auto intro: process_ok_RegisterFlag process_ok_UnregisterFlag [THEN conjunct1]
    process_ok_FlagDeclaration process_ok_destroy_declaration
    process_ok_quiet [OF _ quiet_SetCommandLineOption] process_ok_quiet [OF _ quiet_destroy_ScopedFlags]
    process_ok_quiet [OF _ quiet_FlagModule] process_ok_quiet [OF _ quiet_destroy_FlagModule]
    process_ok_quiet [OF _ quiet_AddGroup] process_ok_quiet [OF _ quiet_SetFlagDisplay]
    process_ok_quiet [OF _ quiet_SetFlagHelpFormatter] process_ok_quiet [OF _ quiet_SetUsage(1)]
    process_ok_quiet [OF _ quiet_SetUsage(2)]\<close>)

lemma process_ok_start: "s = None \<or> s = Some [] \<Longrightarrow> process_ok (flag_start s)"
  by (auto simp: flag_start_def process_ok_def shared_ok_def registry_ok_def tables_ok_def names_ok_def
      registrations_ok_def shares_ok_def declarations_ok_def empty_registry_def registration_of_def)

lemma reachable_ok: "flag_reachable env trusted w \<Longrightarrow> process_ok w"
  by (induction rule: flag_reachable.induct) (auto intro: process_ok_start flag_step_cases_ok)

section \<open>The registry at every moment\<close>


text \<open>
  One definition per name in the whole process: when two copies of the library list a flag of the
  same name, they are the same copy and the same flag.
\<close>

theorem one_definition:
  assumes "flag_reachable env trusted w"
    and "map_of (flags (copies w c)) name = Some p" and "map_of (flags (copies w c')) name = Some p'"
  shows "c = c' \<and> p = p'"
proof -
  have ok: "process_ok w" using assms(1) by (rule reachable_ok)
  obtain es where es: "shared w = Some es"
    using processD(4) [OF ok, of c] assms(2) by (auto simp: shares_ok_def split: option.splits)
  have own: "\<exists>e \<in> set es. entry_owner e = c \<and> entry_name e = name"
    if "map_of (flags (copies w c)) name = Some p" for c p
    using processD(4) [OF ok, of c] that unfolding shares_ok_def es option.case by blast
  obtain e where e: "e \<in> set es" "entry_owner e = c" "entry_name e = name" using own assms(2) by blast
  obtain e' where e': "e' \<in> set es" "entry_owner e' = c'" "entry_name e' = name"
    using own assms(3) by blast
  have "inj_on entry_name (set es)"
    using processD(6) [OF ok] es by (simp add: shared_ok_def distinct_map)
  then have "e = e'" using e e' by (metis inj_onD)
  then show ?thesis using e(2) e'(2) assms(2,3) by auto
qed

section \<open>Witnesses\<close>

definition sample_flag :: flag where
  "sample_flag = make_flag ''v'' ''vlog.cc'' (HelpString ''verbosity'') (VInt32 0)"

definition sample_process :: process where
  "sample_process = set_copy 0 (empty_registry\<lparr>flags := [(''v'', 7)],
      entries := [(7, new_entry empty_registry)], next_registration := 2\<rparr>)
     ((create_flag 7 sample_flag (flag_start (Some [])))\<lparr>shared := Some
        [\<lparr>entry_owner = 0, entry_name = ''v'', entry_filename = ''vlog.cc'', entry_type = ''int32''\<rparr>]\<rparr>)"

lemma sample_registered:
  "RegisterFlag True 0 7 (create_flag 7 sample_flag (flag_start (Some []))) = Inr sample_process"
  by (simp add: RegisterFlag_def create_flag_def sample_flag_def make_flag_def flag_start_def
      empty_registry_def sample_process_def Let_def IsValidFlagName_def is_alnum_def is_alpha_def
      is_digit_def char_code_def cstr_def negation_conflict_def starts_with_def Register_def
      mismatched_def declarations_of_def set_object_def numeral_2_eq_2)

lemma sample_reachable: "flag_reachable env trusted sample_process"
proof -
  have "flag_step env trusted (flag_start (Some [])) (create_flag 7 sample_flag (flag_start (Some [])))"
    by (rule step_create) (simp_all add: flag_start_def sample_flag_def make_flag_def typed_flag_def)
  then show ?thesis
    by (blast intro: reach_start reach_step step_register [OF sample_registered])
qed

lemma sample_flags: "map_of (flags (copies sample_process 0)) ''v'' = Some 7"
  by (simp add: sample_process_def)


lemma one_definition_witness:
  "map_of (flags (copies sample_process 0)) ''v'' = Some 7 \<and> (0::nat) = 0 \<and> (7::nat) = 7"
  using one_definition [OF sample_reachable sample_flags sample_flags] sample_flags by blast

section \<open>Registration as a contract\<close>

definition accepts :: "process \<Rightarrow> nat \<Rightarrow> nat \<Rightarrow> flag \<Rightarrow> bool" where
  "accepts w c p f \<longleftrightarrow> map_of (entries (copies w c)) p = None
     \<and> IsValidFlagName (flag_name f) \<and> flag_name f \<noteq> ''help''
     \<and> (\<forall>es. shared w = Some es \<longrightarrow> flag_name f \<notin> entry_name ` set es)
     \<and> (flag_type f = TBool \<longrightarrow> map_of (flags (copies w c)) (''no'' @ flag_name f) = None)
     \<and> (\<forall>n q g. flag_name f = ''no'' @ n \<and> map_of (flags (copies w c)) n = Some q \<and> objects w q = Some g
          \<longrightarrow> flag_type g \<noteq> TBool)
     \<and> (\<forall>n d. (n, d) \<in> set (declared (copies w c)) \<and> n = flag_name f
          \<longrightarrow> declared_type d = TypeName (flag_type f))"

lemma TypeName_bool [simp]: "TypeName t = ''bool'' \<longleftrightarrow> t = TBool"
  by (cases t) simp_all

lemma shared_name:
  assumes ok: "process_ok w" and "map_of (flags (copies w c)) n = Some p"
  shows "\<exists>es. shared w = Some es \<and> n \<in> entry_name ` set es"
proof -
  obtain es where es: "shared w = Some es"
    using processD(4) [OF ok, of c] assms(2) by (cases "shared w") (auto simp: shares_ok_def)
  then show ?thesis
    using processD(4) [OF ok, of c] assms(2) unfolding shares_ok_def es option.case by blast
qed

lemma negation_conflict_accepts:
  assumes ok: "process_ok w" and f: "objects w p = Some f"
  shows "negation_conflict w (copies w c) p f = None \<longleftrightarrow>
     (flag_type f = TBool \<longrightarrow> map_of (flags (copies w c)) (''no'' @ flag_name f) = None)
     \<and> (\<forall>n q g. flag_name f = ''no'' @ n \<and> map_of (flags (copies w c)) n = Some q \<and> objects w q = Some g
          \<longrightarrow> flag_type g \<noteq> TBool)"
proof -
  have alive: "\<exists>g. objects w q = Some g" if l: "map_of (flags (copies w c)) n = Some q" for n q
    using processD(1) [OF ok] l by (rule tables_flagD) blast
  have no: "starts_with ''no'' s \<longleftrightarrow> (\<exists>n. s = ''no'' @ n)" for s
    by (simp add: starts_with_iff)
  show ?thesis
  proof (cases "flag_type f = TBool \<and> map_of (flags (copies w c)) (''no'' @ flag_name f) \<noteq> None")
    case True
    then show ?thesis by (auto simp: negation_conflict_def)
  next
    case False
    then have "negation_conflict w (copies w c) p f =
        (if starts_with ''no'' (flag_name f) then
            (case map_of (flags (copies w c)) (drop 2 (flag_name f)) of
               None \<Rightarrow> None
             | Some q \<Rightarrow> (case objects w q of
                   None \<Rightarrow> Some (DanglingFlag q)
                 | Some g \<Rightarrow> if flag_type g = TBool then Some (NegationConflict p q) else None))
          else None)"
      by (auto simp: negation_conflict_def cong: option.case_cong)
    then show ?thesis
      using False by (auto simp: no split: option.splits dest: alive)
  qed
qed

text \<open>
  C32. Registration accepts a flag exactly when it is not registered yet, its name is valid, is not
  the help option, is not in use by any copy of the library, is not confused with the negation of a
  boolean flag and no declaration disagrees with its type; every other flag aborts the process, and
  never because of a flag that does not exist any more.
\<close>

theorem RegisterFlag_accepts:
  assumes "flag_reachable env trusted w" and "objects w p = Some f" and "shared w \<noteq> None"
  shows "if accepts w c p f
         then \<exists>w'. RegisterFlag True c p w = Inr w' \<and> map_of (flags (copies w' c)) (flag_name f) = Some p
            \<and> (\<forall>n. n \<noteq> flag_name f \<longrightarrow> map_of (flags (copies w' c)) n = map_of (flags (copies w c)) n)
         else \<exists>e. RegisterFlag True c p w = Inl e \<and> (\<forall>q. e \<noteq> DanglingFlag q)"
proof -
  have ok: "process_ok w" using assms(1) by (rule reachable_ok)
  obtain es where es: "shared w = Some es" using assms(3) by blast
  have alive: "\<exists>g. objects w q = Some g" if l: "map_of (flags (copies w c)) n = Some q" for n q
    using processD(1) [OF ok] l by (rule tables_flagD) blast
  have used: "flag_name f \<in> entry_name ` set es" if "map_of (flags (copies w c)) (flag_name f) = Some q" for q
    using shared_name [OF ok that] es by simp
  have mis: "mismatched n t (copies w c) = None \<longleftrightarrow>
      (\<forall>m d. (m, d) \<in> set (declared (copies w c)) \<and> m = n \<longrightarrow> declared_type d = t)" for n t
    by (auto simp: mismatched_def find_None_iff declarations_of_def)
  have nd: "negation_conflict w (copies w c) p f \<noteq> Some (DanglingFlag q)" for q
    using alive by (fastforce simp: negation_conflict_def split: option.splits if_splits)
  show ?thesis
  proof (cases "accepts w c p f")
    case True
    then have n: "map_of (flags (copies w c)) (flag_name f) = None" "find_entry (flag_name f) es = None"
      using used es by (auto simp: accepts_def find_entry_None)
    have "negation_conflict w (copies w c) p f = None"
      using True negation_conflict_accepts [OF ok assms(2), of c] unfolding accepts_def by blast
    moreover have "mismatched (flag_name f) (TypeName (flag_type f)) (copies w c) = None"
      using True by (simp add: accepts_def mis)
    ultimately show ?thesis
      using True n assms(2) es
      by (simp add: RegisterFlag_def Let_def accepts_def Register_def map_of_om_put)
  next
    case False
    have "RegisterFlag True c p w \<noteq> Inr w'" for w'
    proof
      assume "RegisterFlag True c p w = Inr w'"
      then have "accepts w c p f"
      proof (rule RegisterFlag_Inr)
        fix f' es'
        assume "objects w p = Some f'" "negation_conflict w (copies w c) p f' = None"
        then have "f' = f" "negation_conflict w (copies w c) p f = None" using assms(2) by simp_all
        moreover from this(2) have "(flag_type f = TBool \<longrightarrow> map_of (flags (copies w c)) (''no'' @ flag_name f) = None)
           \<and> (\<forall>n q g. flag_name f = ''no'' @ n \<and> map_of (flags (copies w c)) n = Some q \<and> objects w q = Some g
                \<longrightarrow> flag_type g \<noteq> TBool)"
          using negation_conflict_accepts [OF ok assms(2), of c] by blast
        moreover assume "map_of (entries (copies w c)) p = None" "IsValidFlagName (flag_name f')"
          "flag_name f' \<noteq> ''help''" "shared w = Some es'" "find_entry (flag_name f') es' = None"
          "mismatched (flag_name f') (TypeName (flag_type f')) (copies w c) = None"
        ultimately show "accepts w c p f"
          unfolding accepts_def by (auto simp: find_entry_None mis)
      qed
      then show False using False by simp
    qed
    moreover have "RegisterFlag True c p w \<noteq> Inl (DanglingFlag q)" for q
      using assms(2) alive nd
      by (fastforce simp: RegisterFlag_def Let_def split: option.splits if_splits prod.splits registration.splits)
    ultimately show ?thesis using False by (cases "RegisterFlag True c p w") auto
  qed
qed

lemma RegisterFlag_accepts_witness:
  "\<exists>e. RegisterFlag True 0 7 sample_process = Inl e \<and> (\<forall>q. e \<noteq> DanglingFlag q)"
proof -
  have "objects sample_process 7 = Some sample_flag" "shared sample_process \<noteq> None"
    "\<not> accepts sample_process 0 7 sample_flag"
    by (simp_all add: sample_process_def create_flag_def accepts_def)
  then show ?thesis using RegisterFlag_accepts [OF sample_reachable, of 7 sample_flag 0] by auto
qed

end
