(* ===== verification/ScopedProps.thy ===== *)
theory ScopedProps imports FlagRegistryProps begin

text \<open>
  Properties of registering and unregistering a flag and of the scopes that save and restore flags:
  whatever happens in between, the flags that are still registered get their values back and no
  destroyed flag is accessed.
\<close>

section \<open>Unregistering undoes registering\<close>

text \<open>
  Unregistering a flag right after its registration gives back the tables of the copy and the list
  shared by all copies; only the number of the next registration has moved on.
\<close>

theorem register_unregister:
  assumes "flag_reachable env trusted w" and reg: "RegisterFlag memory c p w = Inr w'"
  shows "\<exists>w''. UnregisterFlag c p w' = Inr w'' \<and> flags (copies w'' c) = flags (copies w c)
     \<and> entries (copies w'' c) = entries (copies w c) \<and> shared w'' = shared w \<and> objects w'' = objects w
     \<and> next_registration (copies w'' c) = next_registration (copies w c) + 1"
proof -
  have ok: "process_ok w" using assms(1) by (rule reachable_ok)
  have ok': "process_ok w'" using ok reg by (rule process_ok_RegisterFlag)
  have om: "om_ok (flags (copies w c))" "om_ok (entries (copies w c))"
    using processD(1) [OF ok, of c] by (simp_all add: tables_ok_def)
  obtain f es where f: "objects w p = Some f" and n: "map_of (entries (copies w c)) p = None"
      "map_of (flags (copies w c)) (flag_name f) = None"
    and es: "shared w = Some es" "find_entry (flag_name f) es = None"
    and w': "w' = set_copy c ((copies w c)\<lparr>flags := om_put (flag_name f) p (flags (copies w c)),
            entries := om_put p (new_entry (copies w c)) (entries (copies w c)),
            next_registration := next_registration (copies w c) + 1\<rparr>)
          (w\<lparr>shared := Some (\<lparr>entry_owner = c, entry_name = flag_name f, entry_filename = flag_file f,
               entry_type = TypeName (flag_type f)\<rparr> # es)\<rparr>)"
    using reg by (rule RegisterFlag_Inr)
  have "map_of (entries (copies w' c)) p \<noteq> None" "objects w' p = Some f"
    using f by (simp_all add: w' map_of_om_put)
  note un = UnregisterFlag_eq(2) [OF ok' this]
  have "filter (\<lambda>e. \<not> entry_matches c (Some (flag_name f)) (Some (flag_file f)) e) es = es"
    using es(2) by (auto simp: find_entry_None entry_matches_def image_iff intro!: filter_True)
  then show ?thesis
    using un om n es
    by (simp add: w' om.del_put Unregister_def RemoveEntries_def remove_entries_filter entry_matches_def)
qed

lemma register_unregister_witness:
  "\<exists>w''. UnregisterFlag 0 7 sample_process = Inr w'' \<and> flags (copies w'' 0) = [] \<and> shared w'' = Some []"
proof -
  have "flag_step (\<lambda>_. None) True (flag_start (Some [])) (create_flag 7 sample_flag (flag_start (Some [])))"
    by (rule step_create) (simp_all add: flag_start_def sample_flag_def make_flag_def typed_flag_def)
  then have "flag_reachable (\<lambda>_. None) True (create_flag 7 sample_flag (flag_start (Some [])))"
    by (rule reach_step [OF reach_start])
  from register_unregister [OF this sample_registered] show ?thesis
    by (auto simp: flag_start_def create_flag_def empty_registry_def)
qed

section \<open>What steps keep of a registered flag\<close>

definition flags_evolve :: "nat \<Rightarrow> process \<Rightarrow> process \<Rightarrow> bool" where
  "flags_evolve c w w' \<longleftrightarrow> next_registration (copies w c) \<le> next_registration (copies w' c)
     \<and> (\<forall>p k. registration_of (copies w' c) p = Some k \<and> k < next_registration (copies w c) \<longrightarrow>
          registration_of (copies w c) p = Some k
          \<and> (\<exists>f g. objects w p = Some f \<and> objects w' p = Some g \<and> same_flag f g))"

lemma registered_alive:
  assumes "process_ok w" and "registration_of (copies w c) p = Some k"
  obtains f where "objects w p = Some f" "k < next_registration (copies w c)" "0 < k"
proof -
  obtain e where e: "map_of (entries (copies w c)) p = Some e"
    using assms(2) by (auto simp: registration_of_def)
  obtain f where "objects w p = Some f"
    using processD(1) [OF assms(1)] e by (rule tables_entryD)
  then show ?thesis
    using that processD(3) [OF assms(1), of c] assms(2) unfolding registrations_ok_def by blast
qed

lemma flags_evolve_frame:
  assumes "process_ok w" and "next_registration (copies w c) = next_registration (copies w' c)"
    and "\<And>p k. registration_of (copies w' c) p = Some k \<Longrightarrow> registration_of (copies w c) p = Some k"
    and "\<And>p f k. registration_of (copies w' c) p = Some k \<Longrightarrow> objects w p = Some f \<Longrightarrow>
      \<exists>g. objects w' p = Some g \<and> same_flag f g"
  shows "flags_evolve c w w'"
  unfolding flags_evolve_def
proof (intro conjI allI impI)
  fix p k assume k: "registration_of (copies w' c) p = Some k \<and> k < next_registration (copies w c)"
  then show "registration_of (copies w c) p = Some k" using assms(3) by blast
  then obtain f where "objects w p = Some f" using registered_alive [OF assms(1)] by metis
  then show "\<exists>f g. objects w p = Some f \<and> objects w' p = Some g \<and> same_flag f g"
    using assms(4) k by blast
qed (use assms(2) in simp)

lemma flags_evolve_trans:
  assumes "flags_evolve c u v" and "flags_evolve c v w"
  shows "flags_evolve c u w"
  unfolding flags_evolve_def
proof (intro conjI allI impI)
  show "next_registration (copies u c) \<le> next_registration (copies w c)"
    using assms unfolding flags_evolve_def by linarith
  fix p k assume k: "registration_of (copies w c) p = Some k \<and> k < next_registration (copies u c)"
  then have kv: "k < next_registration (copies v c)" using assms(1) unfolding flags_evolve_def by linarith
  obtain g h where v: "registration_of (copies v c) p = Some k" "objects v p = Some g" "objects w p = Some h" "same_flag g h"
    using assms(2) k kv unfolding flags_evolve_def by blast
  then obtain f where u: "registration_of (copies u c) p = Some k" "objects u p = Some f" "same_flag f g"
    using assms(1) k unfolding flags_evolve_def by (metis option.inject)
  then show "registration_of (copies u c) p = Some k" by simp
  show "\<exists>f g. objects u p = Some f \<and> objects w p = Some g \<and> same_flag f g"
    using u v same_flag_trans by blast
qed

lemma flags_evolve_quiet:
  assumes ok: "process_ok w" and q: "quiet w w'"
  shows "flags_evolve c w w'"
proof (rule flags_evolve_frame [OF ok])
  have t: "same_tables (copies w c) (copies w' c)" using q by (simp add: quiet_def)
  then show "next_registration (copies w c) = next_registration (copies w' c)" by (simp add: same_tables_def)
  show "registration_of (copies w c) p = Some k" if "registration_of (copies w' c) p = Some k" for p k
    using t that by (simp add: same_tables_def)
  show "\<exists>g. objects w' p = Some g \<and> same_flag f g" if "objects w p = Some f" for p f
    using q that unfolding quiet_def by blast
qed

lemma flags_evolve_RegisterFlag:
  assumes ok: "process_ok w" and reg: "RegisterFlag memory d p w = Inr w'"
  shows "flags_evolve c w w'"
proof -
  obtain n e s where w': "w' = set_copy d ((copies w d)\<lparr>flags := om_put n p (flags (copies w d)),
            entries := om_put p (new_entry (copies w d)) (entries (copies w d)),
            next_registration := next_registration (copies w d) + 1\<rparr>) (w\<lparr>shared := s\<rparr>)"
    using reg by (rule RegisterFlag_Inr)
  show ?thesis
  proof (cases "c = d")
    case True
    have "registration_of (copies w' c) q = (if q = p then Some (next_registration (copies w d))
        else registration_of (copies w d) q)" for q
      by (simp add: w' True registration_of_def map_of_om_put new_entry_def)
    then show ?thesis
      using registered_alive [OF ok] unfolding flags_evolve_def
      by (auto simp: w' True split: if_splits) (metis same_flag_refl)
  next
    case False
    then show ?thesis by (intro flags_evolve_frame [OF ok]) (auto simp: w')
  qed
qed

lemma flags_evolve_UnregisterFlag:
  assumes ok: "process_ok w" and un: "UnregisterFlag d p w = Inr w'"
  shows "flags_evolve c w w' \<and> objects w' = objects w"
proof (cases "map_of (entries (copies w d)) p = None")
  case True
  then show ?thesis using UnregisterFlag_eq(1) [OF ok True] un flags_evolve_quiet [OF ok] by auto
next
  case False
  then obtain f where f: "objects w p = Some f" using entries_alive [OF ok] by blast
  have w': "w' = set_copy d ((copies w d)\<lparr>entries := AList.delete p (entries (copies w d)),
             flags := AList.delete (flag_name f) (flags (copies w d)),
             flag_help_formatters := AList.delete (flag_name f) (flag_help_formatters (copies w d)),
             flag_displays := AList.delete (flag_name f) (flag_displays (copies w d))\<rparr>)
          (w\<lparr>shared := Unregister d (flag_name f) (flag_file f) (shared w)\<rparr>)"
    using UnregisterFlag_eq(2) [OF ok False f] un by simp
  have "registration_of (copies w' c) q = (if q = p \<and> c = d then None else registration_of (copies w c) q)" for q
    by (simp add: w' registration_of_def map_of_delete)
  then have "flags_evolve c w w'"
    by (intro flags_evolve_frame [OF ok]) (auto simp: w' split: if_splits)
  then show ?thesis by (simp add: w')
qed

lemma flags_evolve_destroy:
  assumes ok: "process_ok w" and run: "destroy_DynamicFlag d p w = Inr w'"
    and others: "\<And>c'. c' \<noteq> d \<Longrightarrow> map_of (entries (copies w c')) p = None"
  shows "flags_evolve c w w'"
proof -
  obtain v where v: "UnregisterFlag d p w = Inr v" "w' = v\<lparr>objects := (objects v)(p := None)\<rparr>"
    using run by (auto simp: destroy_DynamicFlag_def split: sum.splits)
  have u: "process_ok v" "map_of (entries (copies v d)) p = None"
    "\<And>c'. c' \<noteq> d \<Longrightarrow> copies v c' = copies w c'"
    using process_ok_UnregisterFlag [OF ok v(1)] by auto
  have "registration_of (copies v c) p = None"
    using u(2,3) others by (cases "c = d") (auto simp: registration_of_None)
  then have "flags_evolve c v w'"
    by (intro flags_evolve_frame [OF u(1)]) (auto simp: v(2))
  then show ?thesis using flags_evolve_UnregisterFlag [OF ok v(1)] flags_evolve_trans by blast
qed

lemma flags_evolve_declared: "process_ok w \<Longrightarrow> flags_evolve c w (set_copy d ((copies w d)\<lparr>declared := ds\<rparr>) w)"
  by (rule flags_evolve_frame) (auto simp: registration_of_def split: if_splits)

lemma flags_evolve_step:
  assumes "flag_step env trusted w w'" and ok: "process_ok w"
  shows "flags_evolve c w w'"
  using assms(1)
proof cases
  case (step_create p f)
  then show ?thesis
    using ok by (intro flags_evolve_frame) (auto simp: create_flag_def registration_of_None elim: registered_alive)
next
  case (step_declare d this name type filename)
  then obtain ds where "w' = set_copy d ((copies w d)\<lparr>declared := ds\<rparr>) w"
    by (auto simp: FlagDeclaration_def Let_def split: option.splits if_splits)
  then show ?thesis using flags_evolve_declared [OF ok] by simp
next
  case (step_set p f v)
  have "quiet w w'"
    unfolding step_set
    by (rule quiet_set_object) (use step_set in \<open>auto simp: SetValue_def same_flag_def typed_flag_def\<close>)
  then show ?thesis using ok flags_evolve_quiet by blast
next
  case (step_restore p f v b)
  have "quiet w w'"
    unfolding step_restore
    by (rule quiet_set_object) (use step_restore in \<open>auto simp: Restore_def same_flag_def typed_flag_def\<close>)
  then show ?thesis using ok flags_evolve_quiet by blast
next
  case (step_add d g p b)
  have "om_ok (entries (copies w d))" using processD(1) [OF ok] by (simp add: tables_ok_def)
  then show ?thesis using quiet_AddFlag step_add ok flags_evolve_quiet by blast
qed (use ok in \<open>auto intro: flags_evolve_RegisterFlag flags_evolve_UnregisterFlag [THEN conjunct1]
    flags_evolve_destroy flags_evolve_declared simp: destroy_declaration_def
    intro: flags_evolve_quiet [OF _ quiet_SetCommandLineOption] flags_evolve_quiet [OF _ quiet_destroy_ScopedFlags]
    flags_evolve_quiet [OF _ quiet_FlagModule] flags_evolve_quiet [OF _ quiet_destroy_FlagModule]
    flags_evolve_quiet [OF _ quiet_AddGroup] flags_evolve_quiet [OF _ quiet_SetFlagDisplay]
    flags_evolve_quiet [OF _ quiet_SetFlagHelpFormatter] flags_evolve_quiet [OF _ quiet_SetUsage(1)]
    flags_evolve_quiet [OF _ quiet_SetUsage(2)]\<close>)

lemma flags_evolve_steps:
  assumes "(flag_step env trusted)\<^sup>*\<^sup>* w w'" and "process_ok w"
  shows "flags_evolve c w w' \<and> process_ok w'"
  using assms
proof (induction rule: rtranclp_induct)
  case base
  then show ?case using flags_evolve_quiet by simp
next
  case (step v w')
  then show ?case using flags_evolve_step flags_evolve_trans flag_step_cases_ok by blast
qed

section \<open>Saving and restoring all flags\<close>

definition restored :: "string \<Rightarrow> bool \<Rightarrow> flag \<Rightarrow> flag" where
  "restored s b f = (case RestoreFromString s b f of Inl e \<Rightarrow> f | Inr g \<Rightarrow> g)"

lemma lock_copies [simp]: "RegisteredFlagLock c p k (set_object q f w) = RegisteredFlagLock c p k w"
  by (simp add: RegisteredFlagLock_def)

lemma destroy_ScopedFlags_ok:
  "distinct (map fst saved) \<Longrightarrow>
   (\<And>p k s b. (p, k, s, b) \<in> set saved \<Longrightarrow> RegisteredFlagLock c p k w \<Longrightarrow>
      \<exists>f v. objects w p = Some f \<and> ParseFlagValue (flag_type f) s = Inr v) \<Longrightarrow>
   \<exists>w'. destroy_ScopedFlags c saved w = Inr w'
     \<and> (\<forall>q. objects w' q = (case map_of saved q of
          None \<Rightarrow> objects w q
        | Some (k, s, b) \<Rightarrow> if RegisteredFlagLock c q k w then map_option (restored s b) (objects w q)
                            else objects w q))"
proof (induction saved arbitrary: w)
  case (Cons e saved)
  obtain p k s b where e: "e = (p, k, s, b)" by (cases e)
  have p: "map_of saved p = None" using Cons.prems(1) by (simp add: e map_of_eq_None_iff)
  show ?case
  proof (cases "RegisteredFlagLock c p k w")
    case False
    have "\<exists>w'. destroy_ScopedFlags c saved w = Inr w'
       \<and> (\<forall>q. objects w' q = (case map_of saved q of None \<Rightarrow> objects w q
          | Some (k, s, b) \<Rightarrow> if RegisteredFlagLock c q k w then map_option (restored s b) (objects w q)
                              else objects w q))"
    proof (rule Cons.IH)
      show "\<exists>f v. objects w p' = Some f \<and> ParseFlagValue (flag_type f) s' = Inr v"
        if "(p', k', s', b') \<in> set saved" "RegisteredFlagLock c p' k' w" for p' k' s' b'
        using Cons.prems(2) [of p' k' s' b'] that by simp
    qed (use Cons.prems in simp)
    then obtain w' where "destroy_ScopedFlags c saved w = Inr w'"
      "\<forall>q. objects w' q = (case map_of saved q of None \<Rightarrow> objects w q
        | Some (k, s, b) \<Rightarrow> if RegisteredFlagLock c q k w then map_option (restored s b) (objects w q)
                            else objects w q)" by blast
    then show ?thesis using False p by (intro exI [of _ w'] conjI) (simp_all add: e)
  next
    case True
    then obtain f v where f: "objects w p = Some f" "ParseFlagValue (flag_type f) s = Inr v"
      using Cons.prems(2) [of p k s b] e by auto
    let ?w = "set_object p (restored s b f) w"
    have r: "RestoreFromString s b f = Inr (restored s b f)"
      by (simp add: restored_def RestoreFromString_def f(2))
    have others: "objects ?w q = objects w q" if "q \<noteq> p" for q using that by simp
    have "\<exists>w'. destroy_ScopedFlags c saved ?w = Inr w'
       \<and> (\<forall>q. objects w' q = (case map_of saved q of
            None \<Rightarrow> objects ?w q
          | Some (k, s, b) \<Rightarrow> if RegisteredFlagLock c q k ?w then map_option (restored s b) (objects ?w q)
                              else objects ?w q))"
    proof (rule Cons.IH)
      show "\<exists>f v. objects ?w p' = Some f \<and> ParseFlagValue (flag_type f) s' = Inr v"
        if m: "(p', k', s', b') \<in> set saved" "RegisteredFlagLock c p' k' ?w" for p' k' s' b'
      proof -
        have "p' \<noteq> p" using Cons.prems(1) m(1) by (force simp: e)
        then show ?thesis using Cons.prems(2) [of p' k' s' b'] m by simp
      qed
    qed (use Cons.prems in simp)
    then obtain w' where w': "destroy_ScopedFlags c saved ?w = Inr w'"
      "\<forall>q. objects w' q = (case map_of saved q of None \<Rightarrow> objects ?w q
        | Some (k, s, b) \<Rightarrow> if RegisteredFlagLock c q k ?w then map_option (restored s b) (objects ?w q)
                            else objects ?w q)" by blast
    have "objects w' q = (case map_of (e # saved) q of None \<Rightarrow> objects w q
        | Some (k, s, b) \<Rightarrow> if RegisteredFlagLock c q k w then map_option (restored s b) (objects w q)
                            else objects w q)" for q
      using w'(2) p f True by (cases "q = p") (auto simp: e split: option.splits)
    then show ?thesis using w'(1) True f(1) r by (intro exI [of _ w']) (simp add: e)
  qed
qed simp

definition saved_entry :: "process \<Rightarrow> nat \<Rightarrow> nat \<Rightarrow> nat \<times> string \<times> bool" where
  "saved_entry w c p = (the (registration_of (copies w c) p), CurrentValue (the (objects w p)),
     modified (the (objects w p)))"

lemma save_flags_eq:
  assumes ok: "process_ok w" and "\<And>n p. (n, p) \<in> set fs \<Longrightarrow> map_of (flags (copies w c)) n = Some p"
  shows "save_flags w (copies w c) fs = Inr (map (\<lambda>(n, p). (p, saved_entry w c p)) fs)"
  using assms(2)
proof (induction fs)
  case (Cons x fs)
  obtain n p where x: "x = (n, p)" by (cases x)
  have l: "map_of (flags (copies w c)) n = Some p" using Cons.prems x by simp
  obtain f e where "objects w p = Some f" "map_of (entries (copies w c)) p = Some e"
    using processD(1) [OF ok] l by (rule tables_flagD)
  then show ?case using Cons by (simp add: x saved_entry_def registration_of_def)
qed simp

lemma ScopedFlags_eq:
  assumes ok: "process_ok w"
  obtains saved where "ScopedFlags c w = Inr saved" "distinct (map fst saved)"
    "\<And>p e. (p, e) \<in> set saved \<longleftrightarrow> registration_of (copies w c) p \<noteq> None \<and> e = saved_entry w c p"
proof
  let ?fs = "flags (copies w c)"
  have om: "om_ok ?fs" using processD(1) [OF ok, of c] by (simp add: tables_ok_def)
  have l: "(n, p) \<in> set ?fs \<longleftrightarrow> map_of ?fs n = Some p" for n p
    by (rule map_of_eq_Some_iff [OF om_ok_distinct [OF om], symmetric])
  show "ScopedFlags c w = Inr (map (\<lambda>(n, p). (p, saved_entry w c p)) ?fs)"
    unfolding ScopedFlags_def using ok l by (intro save_flags_eq) auto
  have "inj_on snd (set ?fs)"
  proof (rule inj_onI)
    fix x y assume "x \<in> set ?fs" "y \<in> set ?fs" and s: "snd x = snd y"
    then have "map_of ?fs (fst x) = Some (snd y)" "map_of ?fs (fst y) = Some (snd y)"
      using l by (metis prod.collapse)+
    then have "fst x = fst y" using processD(1) [OF ok, of c] unfolding tables_ok_def by (metis option.inject)
    then show "x = y" using s by (simp add: prod_eq_iff)
  qed
  moreover have "distinct ?fs" using om_ok_distinct [OF om] by (simp add: distinct_map)
  ultimately show "distinct (map fst (map (\<lambda>(n, p). (p, saved_entry w c p)) ?fs))"
    by (simp add: comp_def case_prod_beta distinct_map)
  show "(p, e) \<in> set (map (\<lambda>(n, p). (p, saved_entry w c p)) ?fs)
      \<longleftrightarrow> registration_of (copies w c) p \<noteq> None \<and> e = saved_entry w c p" for p e
  proof -
    have "(\<exists>n. map_of ?fs n = Some p) \<longleftrightarrow> registration_of (copies w c) p \<noteq> None"
      using processD(1) [OF ok, of c] unfolding tables_ok_def registration_of_None [symmetric] by blast
    then show ?thesis by (auto simp: l)
  qed
qed

text \<open>
  C33. Whatever happens while a \<open>ScopedFlags<>\<close> exists, its destructor does not abort and does not access
  a destroyed flag: each flag that is still registered as it was gets back its value and whether it was
  set explicitly; a flag that was destroyed, replaced or registered later is left alone.
  File modes beyond the permission bits are excluded.
\<close>

theorem ScopedFlags_restore:
  assumes "flag_reachable env trusted w" and "ScopedFlags c w = Inr saved"
    and "(flag_step env trusted)\<^sup>*\<^sup>* w w'"
    and printable: "\<And>p f. objects w p = Some f \<Longrightarrow> registration_of (copies w c) p \<noteq> None \<Longrightarrow> value_ok (current f)"
  shows "\<exists>w''. destroy_ScopedFlags c saved w' = Inr w''
     \<and> (\<forall>p. if registration_of (copies w c) p \<noteq> None
               \<and> registration_of (copies w' c) p = registration_of (copies w c) p
            then \<exists>f g. objects w p = Some f \<and> objects w' p = Some g
               \<and> objects w'' p = Some (g\<lparr>current := current f, modified := modified f\<rparr>)
            else objects w'' p = objects w' p)"
proof -
  have ok: "process_ok w" using assms(1) by (rule reachable_ok)
  have ev: "flags_evolve c w w'" "process_ok w'" using flags_evolve_steps [OF assms(3) ok] by auto
  obtain s where s: "ScopedFlags c w = Inr s" "distinct (map fst s)"
    "\<And>p e. (p, e) \<in> set s \<longleftrightarrow> registration_of (copies w c) p \<noteq> None \<and> e = saved_entry w c p"
    using ScopedFlags_eq [OF ok, of c] by metis
  have sv: "s = saved" using s(1) assms(2) by simp
  have lock: "RegisteredFlagLock c p (the (registration_of (copies w c) p)) w'
      \<longleftrightarrow> registration_of (copies w' c) p = registration_of (copies w c) p"
    if "registration_of (copies w c) p \<noteq> None" for p
    using that registered_alive [OF ok]
    by (fastforce simp: RegisteredFlagLock_def registration_of_def split: option.splits)
  have same: "\<exists>f g. objects w p = Some f \<and> objects w' p = Some g \<and> same_flag f g
      \<and> ParseFlagValue (flag_type g) (CurrentValue f) = Inr (current f)"
    if r: "registration_of (copies w c) p \<noteq> None"
      "registration_of (copies w' c) p = registration_of (copies w c) p" for p
  proof -
    obtain k where k: "registration_of (copies w c) p = Some k" using r(1) by blast
    obtain f where f: "objects w p = Some f" "k < next_registration (copies w c)"
      using registered_alive [OF ok k] by blast
    then obtain g where g: "objects w' p = Some g" "same_flag f g"
      using ev(1) r(2) k unfolding flags_evolve_def by (metis option.inject)
    have "value_ok (current f)" "value_type (current f) = flag_type g"
      using printable [OF f(1) r(1)] processD(7) [OF ok f(1)] g(2) by (simp_all add: typed_flag_def same_flag_def)
    then show ?thesis using f g parse_printed [of "current f"] by (auto simp: CurrentValue_def)
  qed
  have "\<exists>w''. destroy_ScopedFlags c saved w' = Inr w''
     \<and> (\<forall>q. objects w'' q = (case map_of saved q of
          None \<Rightarrow> objects w' q
        | Some (k, s, b) \<Rightarrow> if RegisteredFlagLock c q k w' then map_option (restored s b) (objects w' q)
                            else objects w' q))"
  proof (rule destroy_ScopedFlags_ok)
    show "distinct (map fst saved)" using s(2) sv by simp
    fix p k t b assume m: "(p, k, t, b) \<in> set saved" and l: "RegisteredFlagLock c p k w'"
    then have r: "registration_of (copies w c) p \<noteq> None" "(k, t, b) = saved_entry w c p"
      using s(3) sv by auto
    then have "registration_of (copies w' c) p = registration_of (copies w c) p"
      using l lock [OF r(1)] by (simp add: saved_entry_def)
    then show "\<exists>f v. objects w' p = Some f \<and> ParseFlagValue (flag_type f) t = Inr v"
      using same [OF r(1)] r(2) by (auto simp: saved_entry_def)
  qed
  then obtain w'' where w'': "destroy_ScopedFlags c saved w' = Inr w''"
    "\<And>q. objects w'' q = (case map_of saved q of
          None \<Rightarrow> objects w' q
        | Some (k, s, b) \<Rightarrow> if RegisteredFlagLock c q k w' then map_option (restored s b) (objects w' q)
                            else objects w' q)" by blast
  have "map_of saved p = (if registration_of (copies w c) p = None then None else Some (saved_entry w c p))" for p
  proof (cases "registration_of (copies w c) p = None")
    case True
    then show ?thesis using s(3) [unfolded sv] by (cases "map_of saved p") (auto dest: map_of_SomeD)
  next
    case False
    then have "(p, saved_entry w c p) \<in> set saved" using s(3) [unfolded sv] by blast
    then show ?thesis using False s(2) [unfolded sv] by simp
  qed
  then have "if registration_of (copies w c) p \<noteq> None
               \<and> registration_of (copies w' c) p = registration_of (copies w c) p
            then \<exists>f g. objects w p = Some f \<and> objects w' p = Some g
               \<and> objects w'' p = Some (g\<lparr>current := current f, modified := modified f\<rparr>)
            else objects w'' p = objects w' p" for p
    using w''(2) [of p] lock [of p] same [of p]
    by (auto simp: saved_entry_def restored_def RestoreFromString_def Restore_def)
  then show ?thesis using w''(1) by blast
qed

lemma ScopedFlags_restore_witness:
  "\<exists>w''. destroy_ScopedFlags 0 [(7, 1, ''0'', False)]
      (set_object 7 (SetValue (VInt32 5) sample_flag) sample_process) = Inr w''
    \<and> objects w'' 7 = Some sample_flag"
proof -
  have reg: "registration_of (copies sample_process 0) p = (if p = 7 then Some 1 else None)" for p
    by (simp add: sample_process_def registration_of_def new_entry_def empty_registry_def)
  have obj: "objects sample_process p = (if p = 7 then Some sample_flag else None)" for p
    by (simp add: sample_process_def create_flag_def flag_start_def)
  have "ValueToString (VInt32 0) = ''0''" by code_simp
  then have s: "ScopedFlags 0 sample_process = Inr [(7, 1, ''0'', False)]"
    using obj [of 7] by (simp add: ScopedFlags_def sample_process_def sample_flag_def make_flag_def
        CurrentValue_def new_entry_def empty_registry_def)
  have "flag_step (\<lambda>_. None) True sample_process
      (set_object 7 (SetValue (VInt32 5) sample_flag) sample_process)"
    by (rule step_set) (simp_all add: obj, simp add: sample_flag_def make_flag_def)
  then have st: "(flag_step (\<lambda>_. None) True)\<^sup>*\<^sup>* sample_process
      (set_object 7 (SetValue (VInt32 5) sample_flag) sample_process)" by blast
  have "sample_flag\<lparr>current := VInt32 5, modified := True, current := VInt32 0, modified := False\<rparr> = sample_flag"
    by (simp add: sample_flag_def make_flag_def)
  moreover have "value_ok (current f)" if "objects sample_process p = Some f" for p f
    using that by (auto simp: obj sample_flag_def make_flag_def value_ok_def split: if_splits)
  ultimately show ?thesis
    using ScopedFlags_restore [OF sample_reachable s st] by (force simp: reg obj SetValue_def dest: spec [of _ 7])
qed

end
