(* ===== verification/ScopedArgsProps.thy ===== *)
theory ScopedArgsProps imports ScopedProps "HOL-Library.Multiset" begin

text \<open>
  \<open>MakeScopedFlags\<close> with several flags: C++ evaluates the arguments in an unspecified order, so the
  theorem is about every order. The values take effect in argument order and the values from before
  the first save come back.
\<close>

section \<open>Making the scopes\<close>

text \<open>What is common to all: the flags exist, and each lock succeeds.\<close>

definition lockable :: "nat \<Rightarrow> process \<Rightarrow> nat set \<Rightarrow> bool" where
  "lockable c w ps \<longleftrightarrow> (\<forall>p \<in> ps. objects w p \<noteq> None
     \<and> RegisteredFlagLock c p (FlagRegistration c p w) w)"

lemma FlagRegistration_copies [simp]: "FlagRegistration c p (set_object q f w) = FlagRegistration c p w"
  by (simp add: FlagRegistration_def)

lemma lock_current: "RegisteredFlagLock c p (FlagRegistration c p w) w"
  by (simp add: RegisteredFlagLock_def FlagRegistration_def split: option.splits)

text \<open>The lock depends on the tables of the copies only.\<close>

lemma lock_same_copies: "copies w' = copies w \<Longrightarrow> RegisteredFlagLock c p k w' = RegisteredFlagLock c p k w"
  by (simp add: RegisteredFlagLock_def)

lemma registration_same_copies: "copies w' = copies w \<Longrightarrow> FlagRegistration c p w' = FlagRegistration c p w"
  by (simp add: FlagRegistration_def)

definition scopes_made :: "nat \<Rightarrow> (nat \<times> flag_value) list \<Rightarrow> nat list \<Rightarrow> nat \<Rightarrow> process
    \<Rightarrow> (nat \<times> scoped) list \<Rightarrow> process \<Rightarrow> bool" where
  "scopes_made c args order n w ss w' \<longleftrightarrow> copies w' = copies w \<and> map fst ss = order
     \<and> map (scope_sequence \<circ> snd) ss = [n..<n + length order]
     \<and> (\<forall>(k, s) \<in> set ss. scoped_flag s = Some (fst (args ! k)) \<and> new_value s = snd (args ! k)
          \<and> scoped_registration s = FlagRegistration c (fst (args ! k)) w)
     \<and> (\<forall>p. p \<notin> (\<lambda>k. fst (args ! k)) ` set order \<longrightarrow> objects w' p = objects w p)
     \<and> (\<forall>p. objects w p \<noteq> None \<longrightarrow> objects w' p \<noteq> None)"

lemma make_scopes_ok:
  "(\<And>k. k \<in> set order \<Longrightarrow> objects w (fst (args ! k)) \<noteq> None) \<Longrightarrow>
   \<exists>ss w'. make_scopes c args order n w = Inr (ss, w') \<and> scopes_made c args order n w ss w'"
proof (induction order arbitrary: n w)
  case (Cons k order)
  let ?p = "fst (args ! k)" and ?v = "snd (args ! k)"
  obtain f where f: "objects w ?p = Some f" using Cons.prems [of k] by auto
  let ?w = "set_object ?p (SetValue ?v f) w"
  have "objects ?w (fst (args ! j)) \<noteq> None" if "j \<in> set order" for j
    using Cons.prems [of j] that by simp
  from Cons.IH [of ?w "n + 1", OF this]
  obtain ss w' where ss: "make_scopes c args order (n + 1) ?w = Inr (ss, w')"
    "scopes_made c args order (n + 1) ?w ss w'" by blast
  let ?s = "\<lparr>scoped_flag = Some ?p, scoped_registration = FlagRegistration c ?p w, old_value = current f,
             old_explicitly_set = modified f, scope_sequence = n, new_value = current (SetValue ?v f)\<rparr>"
  have "make_scopes c args (k # order) n w = Inr ((k, ?s) # ss, w')"
    using f ss(1) by (simp add: ScopedFlag_def Let_def)
  moreover have "scopes_made c args (k # order) n w ((k, ?s) # ss) w'"
    unfolding scopes_made_def
  proof (intro conjI)
    show "map (scope_sequence \<circ> snd) ((k, ?s) # ss) = [n..<n + length (k # order)]"
      using ss(2) by (simp add: scopes_made_def upt_conv_Cons del: upt_Suc)
    show "\<forall>(k, s) \<in> set ((k, ?s) # ss). scoped_flag s = Some (fst (args ! k))
        \<and> new_value s = snd (args ! k) \<and> scoped_registration s = FlagRegistration c (fst (args ! k)) w"
      using ss(2) by (simp add: scopes_made_def SetValue_def)
  qed (use ss(2) in \<open>simp_all add: scopes_made_def\<close>)
  ultimately show ?case by blast
qed (simp add: scopes_made_def)

section \<open>Undoing the scopes\<close>

lemma restore_all_append:
  "restore_all c (xs @ ys) w = (case restore_all c xs w of Inl e \<Rightarrow> Inl e | Inr w' \<Rightarrow> restore_all c ys w')"
  by (induction c xs w rule: restore_all.induct) (auto split: sum.splits)

text \<open>
  Undoing in reverse order of construction: each flag of the arguments gets what it had in \<open>w\<close>, the
  process before the first save. The process \<open>v\<close> is any later one with the same registrations.
\<close>

lemma restore_made:
  assumes "make_scopes c args order n w = Inr (ss, w')"
    and "copies v = copies w"
    and "\<And>k. k \<in> set order \<Longrightarrow> objects v (fst (args ! k)) \<noteq> None"
  shows "\<exists>v'. restore_all c (rev (map snd ss)) v = Inr v' \<and> copies v' = copies v
     \<and> (\<forall>p. objects v' p =
          (if p \<in> (\<lambda>k. fst (args ! k)) ` set order
           then map_option (\<lambda>g. Restore (current (the (objects w p))) (modified (the (objects w p))) g) (objects v p)
           else objects v p))"
  using assms
proof (induction order arbitrary: n w ss)
  case (Cons k order)
  let ?p = "fst (args ! k)" and ?v = "snd (args ! k)"
  obtain f where f: "objects w ?p = Some f"
    using Cons.prems(1) by (auto simp: ScopedFlag_def split: option.splits sum.splits)
  let ?w = "set_object ?p (SetValue ?v f) w"
  let ?s = "\<lparr>scoped_flag = Some ?p, scoped_registration = FlagRegistration c ?p w, old_value = current f,
             old_explicitly_set = modified f, scope_sequence = n, new_value = current (SetValue ?v f)\<rparr>"
  obtain ss' where ss: "make_scopes c args order (n + 1) ?w = Inr (ss', w')" "ss = (k, ?s) # ss'"
    using Cons.prems(1) f by (auto simp: ScopedFlag_def Let_def split: sum.splits)
  obtain v' where v': "restore_all c (rev (map snd ss')) v = Inr v'" "copies v' = copies v"
    "\<forall>p. objects v' p = (if p \<in> (\<lambda>k. fst (args ! k)) ` set order
       then map_option (\<lambda>g. Restore (current (the (objects ?w p))) (modified (the (objects ?w p))) g) (objects v p)
       else objects v p)"
    using Cons.IH [OF ss(1)] Cons.prems(2,3) by auto
  obtain g where g: "objects v ?p = Some g" using Cons.prems(3) [of k] by auto
  obtain h where h: "objects v' ?p = Some h" "Restore (current f) (modified f) h = Restore (current f) (modified f) g"
  proof -
    have "objects v' ?p = Some g \<or> (\<exists>b. objects v' ?p = Some (Restore ?v b g))"
      using v'(3) g by (auto simp: SetValue_def)
    then show ?thesis using that by (auto simp: Restore_def)
  qed
  have "RegisteredFlagLock c ?p (FlagRegistration c ?p w) v'"
    using lock_same_copies [of v' w] v'(2) Cons.prems(2) lock_current by simp
  then have r: "RestoreScoped c ?s v' = Inr (?s\<lparr>scoped_flag := None\<rparr>,
      set_object ?p (Restore (current f) (modified f) g) v')"
    using h by (simp add: RestoreScoped_def)
  have "restore_all c (rev (map snd ss)) v = Inr (set_object ?p (Restore (current f) (modified f) g) v')"
    by (simp add: ss(2) restore_all_append v'(1) r)
  then show ?case
    using v' f g by (intro exI [of _ "set_object ?p (Restore (current f) (modified f) g) v'"] conjI) auto
qed simp

lemma sort_key_unique:
  assumes "distinct (map f xs)" and "mset ys = mset xs" and "sorted (map f xs)"
  shows "sort_key f ys = xs"
proof (rule properties_for_sort_key)
  show "mset xs = mset ys" using assms(2) by simp
  show "sorted (map f xs)" by (rule assms(3))
  fix k assume "k \<in> set xs"
  have one: "filter (\<lambda>x. f k = f x) zs = [k]" if "distinct (map f zs)" "k \<in> set zs" for zs
    using that
  proof (induction zs)
    case (Cons z zs)
    show ?case
    proof (cases "z = k")
      case True
      then have "filter (\<lambda>x. f k = f x) zs = []" using Cons.prems(1) by (auto simp: filter_empty_conv)
      then show ?thesis using True by simp
    qed (use Cons in \<open>auto simp: image_iff\<close>)
  qed simp
  have "distinct (map f ys)"
    using assms(1,2) by (metis mset_eq_imp_distinct_iff mset_map)
  then show "filter (\<lambda>x. f k = f x) xs = filter (\<lambda>x. f k = f x) ys"
    using one [of xs] one [of ys] assms(1) \<open>k \<in> set xs\<close> mset_eq_setD [OF assms(2)] by simp
qed

text \<open>Sorting by sequence number brings back the order of construction.\<close>

lemma sequence_order:
  assumes "map (scope_sequence \<circ> snd) ss = [n..<m]"
  shows "sort_key scope_sequence (in_argument_order ss) = map snd ss"
proof (rule sort_key_unique)
  have "map scope_sequence (map snd ss) = [n..<m]" using assms by simp
  then show "distinct (map scope_sequence (map snd ss))" "sorted (map scope_sequence (map snd ss))"
    by simp_all
  show "mset (in_argument_order ss) = mset (map snd ss)" by (simp add: in_argument_order_def)
qed

section \<open>Applying the values\<close>

definition last_value :: "nat \<Rightarrow> (nat \<times> flag_value) list \<Rightarrow> flag_value option" where
  "last_value p args = map_of (rev args) p"

lemma reapply_ok:
  assumes "\<forall>s \<in> set ss. \<exists>p. scoped_flag s = Some p \<and> objects w p \<noteq> None
      \<and> RegisteredFlagLock c p (scoped_registration s) w"
  shows "\<exists>w'. ReapplyInOrder c ss w = Inr w' \<and> copies w' = copies w
     \<and> (\<forall>p. objects w' p = (case map_of (rev (map (\<lambda>s. (the (scoped_flag s), new_value s)) ss)) p of
          None \<Rightarrow> objects w p
        | Some v \<Rightarrow> map_option (SetValue v) (objects w p)))"
  using assms
proof (induction ss arbitrary: w)
  case (Cons s ss)
  obtain p where p: "scoped_flag s = Some p" "objects w p \<noteq> None"
    "RegisteredFlagLock c p (scoped_registration s) w" using Cons.prems by auto
  then obtain f where f: "objects w p = Some f" by blast
  let ?w = "set_object p (SetValue (new_value s) f) w"
  have "\<exists>p. scoped_flag t = Some p \<and> objects ?w p \<noteq> None
      \<and> RegisteredFlagLock c p (scoped_registration t) ?w" if t: "t \<in> set ss" for t
  proof -
    obtain q where "scoped_flag t = Some q" "objects w q \<noteq> None"
      "RegisteredFlagLock c q (scoped_registration t) w" using Cons.prems t by auto
    then show ?thesis by (intro exI [of _ q]) simp
  qed
  then have "\<forall>s \<in> set ss. \<exists>p. scoped_flag s = Some p \<and> objects ?w p \<noteq> None
      \<and> RegisteredFlagLock c p (scoped_registration s) ?w" by blast
  from Cons.IH [OF this] obtain w' where w': "ReapplyInOrder c ss ?w = Inr w'" "copies w' = copies ?w"
    "\<forall>q. objects w' q = (case map_of (rev (map (\<lambda>s. (the (scoped_flag s), new_value s)) ss)) q of
          None \<Rightarrow> objects ?w q | Some v \<Rightarrow> map_option (SetValue v) (objects ?w q))" by blast
  have "objects w' q = (case map_of (rev (map (\<lambda>s. (the (scoped_flag s), new_value s)) (s # ss))) q of
          None \<Rightarrow> objects w q | Some v \<Rightarrow> map_option (SetValue v) (objects w q))" for q
    using w'(3) p(1) f by (cases "q = p") (auto simp: map_add_def SetValue_def split: option.splits)
  then show ?case
    using w'(1,2) p f by (intro exI [of _ w']) (simp add: Reapply_def)
qed simp

lemma in_argument_order_args:
  assumes "map fst ss = order" and "mset order = mset [0..<length args]"
    and "\<forall>(k, s) \<in> set ss. scoped_flag s = Some (fst (args ! k)) \<and> new_value s = snd (args ! k)"
  shows "map (\<lambda>s. (the (scoped_flag s), new_value s)) (in_argument_order ss) = args"
proof -
  let ?t = "sort_key fst ss"
  have "mset (map fst ?t) = mset [0..<length args]" using assms(1,2) by (metis mset_map mset_sort)
  moreover have "sorted (map fst ?t)" by (rule sorted_sort_key)
  ultimately have t: "map fst ?t = [0..<length args]"
    by (metis properties_for_sort sorted_sort_id sorted_upt)
  have len: "length ?t = length args" using arg_cong [OF t, of length] by simp
  show ?thesis
  proof (rule nth_equalityI)
    fix i assume "i < length (map (\<lambda>s. (the (scoped_flag s), new_value s)) (in_argument_order ss))"
    then have i: "i < length args" using len by (simp add: in_argument_order_def)
    have "fst (?t ! i) = i" using t i len by (metis add_0 nth_map nth_upt)
    moreover have "?t ! i \<in> set ss" using i len by (metis nth_mem set_sort)
    ultimately have "scoped_flag (snd (?t ! i)) = Some (fst (args ! i))"
      "new_value (snd (?t ! i)) = snd (args ! i)"
      using assms(3) by (auto simp: case_prod_beta)
    then show "map (\<lambda>s. (the (scoped_flag s), new_value s)) (in_argument_order ss) ! i = args ! i"
      using i len by (simp add: in_argument_order_def)
  qed (use len in \<open>simp add: in_argument_order_def\<close>)
qed

section \<open>The property\<close>

text \<open>
  C34. \<open>MakeScopedFlags\<close> with any number of flags, some of them more than once, and in whatever order
  the arguments are evaluated: while the scope exists each flag has the last value given for it in
  argument order, and its destructor, run in a later process \<open>v\<close> where the flags still exist, gives each
  of them the value and the mark that it had before the first save and touches no other flag.
\<close>

theorem MakeScopedFlags_order:
  assumes "mset order = mset [0..<length args]"
    and "\<And>a. a \<in> set args \<Longrightarrow> objects w (fst a) \<noteq> None"
    and "copies v = copies w" and "\<And>a. a \<in> set args \<Longrightarrow> objects v (fst a) \<noteq> None"
  shows "\<exists>pairs w' v'. MakeScopedFlags c args order n w = Inr (pairs, w')
     \<and> (\<forall>p. case last_value p args of
            None \<Rightarrow> objects w' p = objects w p
          | Some x \<Rightarrow> \<exists>g. objects w' p = Some g \<and> current g = x \<and> modified g)
     \<and> RestoreInReverse c pairs v = Inr v'
     \<and> (\<forall>p. objects v' p = (if p \<in> fst ` set args
            then map_option (Restore (current (the (objects w p))) (modified (the (objects w p)))) (objects v p)
            else objects v p))"
proof -
  have ord: "set order = {0..<length args}" using assms(1) by (metis mset_eq_setD set_upt)
  have ps: "(\<lambda>k. fst (args ! k)) ` set order = fst ` set args"
  proof -
    have "set args = (!) args ` {0..<length args}" by (metis list.set_map map_nth set_upt)
    then show ?thesis unfolding ord by (simp add: image_image)
  qed
  have "objects w (fst (args ! k)) \<noteq> None" if "k \<in> set order" for k
    using assms(2) [of "args ! k"] that ord by simp
  from make_scopes_ok [of order w args c n, OF this]
  obtain ss w1 where mk: "make_scopes c args order n w = Inr (ss, w1)"
    and made: "scopes_made c args order n w ss w1" by blast
  have ss: "copies w1 = copies w" "map fst ss = order" "map (scope_sequence \<circ> snd) ss = [n..<n + length order]"
    "\<forall>(k, s) \<in> set ss. scoped_flag s = Some (fst (args ! k)) \<and> new_value s = snd (args ! k)
          \<and> scoped_registration s = FlagRegistration c (fst (args ! k)) w"
    "\<forall>p. p \<notin> (\<lambda>k. fst (args ! k)) ` set order \<longrightarrow> objects w1 p = objects w p"
    "\<forall>p. objects w p \<noteq> None \<longrightarrow> objects w1 p \<noteq> None"
    using made unfolding scopes_made_def by blast+
  let ?pairs = "in_argument_order ss"
  have args: "map (\<lambda>s. (the (scoped_flag s), new_value s)) ?pairs = args"
    using ss(2,4) assms(1) by (intro in_argument_order_args) auto
  have "\<exists>p. scoped_flag s = Some p \<and> objects w1 p \<noteq> None
      \<and> RegisteredFlagLock c p (scoped_registration s) w1" if "s \<in> set ?pairs" for s
  proof -
    obtain k where k: "(k, s) \<in> set ss" using \<open>s \<in> set ?pairs\<close> by (auto simp: in_argument_order_def)
    then have "k \<in> set order" using ss(2) by force
    then have "objects w1 (fst (args ! k)) \<noteq> None" using ss(6) assms(2) [of "args ! k"] ord by simp
    then show ?thesis
      using k ss(4) lock_current [of c "fst (args ! k)" w1] registration_same_copies [OF ss(1)] by auto
  qed
  then obtain w' where w': "ReapplyInOrder c ?pairs w1 = Inr w'"
    "\<forall>p. objects w' p = (case last_value p args of None \<Rightarrow> objects w1 p
        | Some x \<Rightarrow> map_option (SetValue x) (objects w1 p))"
    using reapply_ok [of ?pairs w1 c] unfolding args last_value_def by blast
  have run: "MakeScopedFlags c args order n w = Inr (?pairs, w')"
    using mk w'(1) by (simp add: MakeScopedFlags_def)
  have lv: "last_value p args = None \<longleftrightarrow> p \<notin> fst ` set args" for p
    by (simp add: last_value_def map_of_eq_None_iff)
  have vals: "case last_value p args of None \<Rightarrow> objects w' p = objects w p
      | Some x \<Rightarrow> \<exists>g. objects w' p = Some g \<and> current g = x \<and> modified g" for p
  proof (cases "last_value p args")
    case None
    then have "p \<notin> fst ` set args" using lv by simp
    then show ?thesis using None w'(2) ss(5) ps by simp
  next
    case (Some x)
    then have "p \<in> fst ` set args" using lv [of p] by (cases "p \<in> fst ` set args") simp_all
    then have "objects w1 p \<noteq> None" using assms(2) ss(6) by auto
    then show ?thesis using Some w'(2) by (auto simp: SetValue_def)
  qed
  have "\<exists>v'. restore_all c (rev (map snd ss)) v = Inr v' \<and> copies v' = copies v
     \<and> (\<forall>p. objects v' p = (if p \<in> (\<lambda>k. fst (args ! k)) ` set order
           then map_option (\<lambda>g. Restore (current (the (objects w p))) (modified (the (objects w p))) g) (objects v p)
           else objects v p))"
    using ord assms(4) by (intro restore_made [OF mk assms(3)]) simp
  then obtain v' where "RestoreInReverse c ?pairs v = Inr v'"
    "\<forall>p. objects v' p = (if p \<in> fst ` set args
        then map_option (Restore (current (the (objects w p))) (modified (the (objects w p)))) (objects v p)
        else objects v p)"
    unfolding RestoreInReverse_def sequence_order [OF ss(3)] ps by blast
  then show ?thesis using run vals by blast
qed

lemma MakeScopedFlags_order_witness:
  "\<exists>pairs w'. MakeScopedFlags 0 [(7, VInt32 1), (7, VInt32 2)] [1, 0] 5 sample_process = Inr (pairs, w')
     \<and> (\<exists>g. objects w' 7 = Some g \<and> current g = VInt32 2)"
proof -
  have "objects sample_process 7 \<noteq> None" by (simp add: sample_process_def create_flag_def)
  then have "\<And>a. a \<in> set [(7, VInt32 1), (7, VInt32 2)] \<Longrightarrow> objects sample_process (fst a) \<noteq> None"
    by auto
  note live = this
  have "mset [1, 0] = mset [0..<length [(7::nat, VInt32 1), (7, VInt32 2)]]" by (simp add: upt_rec)
  from MakeScopedFlags_order [OF this live refl live, of 0 5]
  obtain pairs w' where m: "MakeScopedFlags 0 [(7, VInt32 1), (7, VInt32 2)] [1, 0] 5 sample_process = Inr (pairs, w')"
      "\<forall>p. case last_value p [(7, VInt32 1), (7, VInt32 2)] of
            None \<Rightarrow> objects w' p = objects sample_process p
          | Some x \<Rightarrow> \<exists>g. objects w' p = Some g \<and> current g = x \<and> modified g" by blast
  then show ?thesis using spec [OF m(2), of 7] by (auto simp: last_value_def)
qed

end
