(* ===== verification/CommandLine.thy ===== *)
theory CommandLine imports FlagRegistry begin

text \<open>
  \<open>ParseCommandLineFlags\<close> of \<open>src/src/internal/flag_registry.cc\<close>. The arguments after \<open>argv[0]\<close> are a
  list, and the loop is a recursion on it: its state is \<open>end_of_flags\<close>, the number of flags parsed, the
  arguments that stay (the code moves them to the front of \<open>argv\<close>, which works because an argument is
  read before its place is written) and the process. The calls that end the process return its reason.
\<close>

section \<open>Modes and outcomes\<close>

datatype parsing_mode = kKeepFlags | kRemoveFlags

datatype unknown_mode = kError | kIgnore

datatype exit_reason =
    UnknownFlag string string string
  | HelpWithValue
  | CannotNegate string
  | NegatedWithValue string
  | MissingValue string
  | InvalidValue string string string parse_error string

datatype parse_outcome =
    Parsed nat "string list" process
  | ExitError exit_reason
  | ExitHelp process
  | Dangling nat

section \<open>One argument\<close>

definition option_name :: "string \<Rightarrow> string" where
  "option_name s = takeWhile (\<lambda>c. c \<noteq> CHR ''='') s"

definition option_value :: "string \<Rightarrow> string option" where
  "option_value s = (if CHR ''='' \<in> set s then Some (drop (length (option_name s) + 1) s) else None)"

definition is_long_option :: "string \<Rightarrow> bool" where
  "is_long_option a \<longleftrightarrow> starts_with ''--'' a"

definition is_single_dash :: "string \<Rightarrow> bool" where
  "is_single_dash a \<longleftrightarrow> at a 0 = CHR ''-'' \<and> at a 1 \<noteq> NUL"

text \<open>The flag that a name selects and whether the name negates it.\<close>

datatype selected = Selected nat bool | NotBoolean | Unknown

definition select_flag :: "process \<Rightarrow> nat \<Rightarrow> string \<Rightarrow> selected" where
  "select_flag w c name = (case FindFlagLocked (copies w c) name of
     Some p \<Rightarrow> Selected p False
   | None \<Rightarrow>
       if starts_with ''no'' name then
         (case FindFlagLocked (copies w c) (drop 2 name) of
            None \<Rightarrow> Unknown
          | Some p \<Rightarrow> if is_boolean w p then Selected p True else NotBoolean)
       else Unknown)"

definition suggestion_for_dash :: "process \<Rightarrow> nat \<Rightarrow> string \<Rightarrow> string" where
  "suggestion_for_dash w c name =
     (if IsLongOptionLocked w c name then name else FindClosestOptionLocked (copies w c) name)"

text \<open>\<open>flag->SetFromString\<close> and the report when it fails.\<close>

definition set_parsed :: "process \<Rightarrow> nat \<Rightarrow> string \<Rightarrow> parse_outcome + process" where
  "set_parsed w p value = (case objects w p of
     None \<Rightarrow> Inl (Dangling p)
   | Some f \<Rightarrow> (case SetFromString value f of
       Inl error \<Rightarrow> Inl (ExitError (InvalidValue (flag_name f) (TypeName (flag_type f)) value
         (error_details (flag_type f)) error))
     | Inr f' \<Rightarrow> Inr (set_object p f' w)))"

section \<open>The loop\<close>

fun parse_args :: "nat \<Rightarrow> parsing_mode \<Rightarrow> unknown_mode \<Rightarrow> bool \<Rightarrow> nat \<Rightarrow> string list \<Rightarrow> process
    \<Rightarrow> string list \<Rightarrow> parse_outcome" where
  "parse_args c mode unknown end_of_flags n kept w [] = Parsed n kept w"
| "parse_args c mode unknown end_of_flags n kept w (a # args) =
     (if \<not> end_of_flags \<and> a = ''--'' then
        parse_args c mode unknown True n
          (if mode = kRemoveFlags \<and> unknown = kIgnore then kept @ [a] else kept) w args
      else if end_of_flags \<or> \<not> is_long_option a then
        (if \<not> end_of_flags \<and> is_single_dash a \<and> unknown = kError
         then ExitError (UnknownFlag ''-'' (option_name (drop 1 a))
                (suggestion_for_dash w c (option_name (drop 1 a))))
         else parse_args c mode unknown end_of_flags n
                (if mode = kRemoveFlags then kept @ [a] else kept) w args)
      else let name = option_name (drop 2 a); given = option_value (drop 2 a) in
        if name = ''help'' then (if given \<noteq> None then ExitError HelpWithValue else ExitHelp w)
        else case select_flag w c name of
          NotBoolean \<Rightarrow> ExitError (CannotNegate name)
        | Unknown \<Rightarrow>
            (if unknown = kIgnore
             then parse_args c mode unknown end_of_flags n
                    (if mode = kRemoveFlags then kept @ [a] else kept) w args
             else ExitError (UnknownFlag ''--'' name (FindClosestOptionLocked (copies w c) name)))
        | Selected p negated \<Rightarrow>
            if negated then
              (if given \<noteq> None then ExitError (NegatedWithValue name)
               else case set_parsed w p ''false'' of
                   Inl e \<Rightarrow> e
                 | Inr w' \<Rightarrow> parse_args c mode unknown end_of_flags (n + 1) kept w' args)
            else (case given of
              Some value \<Rightarrow> (case set_parsed w p value of
                  Inl e \<Rightarrow> e
                | Inr w' \<Rightarrow> parse_args c mode unknown end_of_flags (n + 1) kept w' args)
            | None \<Rightarrow>
                if is_boolean w p then
                  (case set_parsed w p ''true'' of
                     Inl e \<Rightarrow> e
                   | Inr w' \<Rightarrow> parse_args c mode unknown end_of_flags (n + 1) kept w' args)
                else (case args of
                    [] \<Rightarrow> ExitError (MissingValue name)
                  | value # rest \<Rightarrow> (case set_parsed w p value of
                        Inl e \<Rightarrow> e
                      | Inr w' \<Rightarrow> parse_args c mode unknown end_of_flags (n + 1) kept w' rest))))"

text \<open>
  The result: the number of flags parsed and the arguments after \<open>argv[0]\<close>. The count is a 32-bit number
  in the code; it is at most the number of arguments, which is an \<open>int\<close>.
\<close>

definition ParseCommandLineFlags ::
    "nat \<Rightarrow> parsing_mode \<Rightarrow> unknown_mode \<Rightarrow> process \<Rightarrow> string list \<Rightarrow> parse_outcome" where
  "ParseCommandLineFlags c mode unknown w args = (case parse_args c mode unknown False 0 [] w args of
     Parsed n kept w' \<Rightarrow> Parsed n (if mode = kRemoveFlags then kept else args) w'
   | e \<Rightarrow> e)"

end
