(* ===== verification/CommandLineProps.thy ===== *)
theory CommandLineProps imports CommandLine FlagRegistryProps "HOL-Library.Sublist" begin

text \<open>
  Properties of the command-line parser: what it keeps of the arguments, that parsing is idempotent
  when another parser owns the rest, that assignments are read back, and that no flag is misread.
\<close>

section \<open>What parsing keeps\<close>

lemma set_parsed_Inr:
  assumes "set_parsed w p value = Inr w'"
  obtains f v where "objects w p = Some f" "ParseFlagValue (flag_type f) value = Inr v"
    "w' = set_object p (SetValue v f) w"
  using assms by (auto simp: set_parsed_def SetFromString_def split: option.splits sum.splits)

lemma set_parsed_keeps: "set_parsed w p value = Inr w' \<Longrightarrow> quiet w w' \<and> copies w' = copies w"
proof -
  assume a: "set_parsed w p value = Inr w'"
  then obtain f v where f: "objects w p = Some f" "ParseFlagValue (flag_type f) value = Inr v"
    "w' = set_object p (SetValue v f) w" by (rule set_parsed_Inr)
  then have "same_flag f (SetValue v f) \<and> (typed_flag f \<longrightarrow> typed_flag (SetValue v f))"
    by (auto simp: SetValue_def same_flag_def typed_flag_def dest: parsed_typed)
  then show ?thesis using f quiet_set_object by simp
qed

definition kept_ok :: "parsing_mode \<Rightarrow> process \<Rightarrow> string list \<Rightarrow> nat \<Rightarrow> string list \<Rightarrow> parse_outcome \<Rightarrow> bool" where
  "kept_ok mode w args n kept out \<longleftrightarrow> (\<forall>n' kept' w'. out = Parsed n' kept' w' \<longrightarrow>
     (\<exists>t. kept' = kept @ t \<and> subseq t args \<and> (mode = kKeepFlags \<longrightarrow> t = []))
     \<and> n \<le> n' \<and> n' \<le> n + length args \<and> quiet w w' \<and> copies w' = copies w)"

lemma kept_ok_kept:
  assumes "kept_ok mode w args n (if b then kept @ [a] else kept) out" and "b \<longrightarrow> mode = kRemoveFlags"
  shows "kept_ok mode w (a # args) n kept out"
  unfolding kept_ok_def
proof (intro allI impI)
  fix n' kept' w' assume "out = Parsed n' kept' w'"
  then obtain t where t: "kept' = (if b then kept @ [a] else kept) @ t" "subseq t args"
    "mode = kKeepFlags \<longrightarrow> t = []" "n \<le> n'" "n' \<le> n + length args" "quiet w w'" "copies w' = copies w"
    using assms(1) unfolding kept_ok_def by blast
  have "\<exists>u. kept' = kept @ u \<and> subseq u (a # args) \<and> (mode = kKeepFlags \<longrightarrow> u = [])"
    using t(1-3) assms(2) by (cases b) (auto intro!: exI [of _ "a # t"] exI [of _ t])
  then show "(\<exists>t. kept' = kept @ t \<and> subseq t (a # args) \<and> (mode = kKeepFlags \<longrightarrow> t = []))
      \<and> n \<le> n' \<and> n' \<le> n + length (a # args) \<and> quiet w w' \<and> copies w' = copies w"
    using t(4-7) by simp
qed

lemma kept_ok_consumed:
  assumes "kept_ok mode v rest (n + 1) kept out" and "set_parsed w p value = Inr v"
    and "subseq rest args"
  shows "kept_ok mode w (a # args) n kept out"
  unfolding kept_ok_def
proof (intro allI impI)
  fix n' kept' w' assume "out = Parsed n' kept' w'"
  then obtain t where t: "kept' = kept @ t" "subseq t rest" "mode = kKeepFlags \<longrightarrow> t = []"
    "n + 1 \<le> n'" "n' \<le> n + 1 + length rest" "quiet v w'" "copies w' = copies v"
    using assms(1) unfolding kept_ok_def by blast
  have "length rest \<le> length args" using assms(3) by (rule list_emb_length)
  moreover have "subseq t (a # args)" using t(2) assms(3) subseq_order.trans by blast
  ultimately show "(\<exists>t. kept' = kept @ t \<and> subseq t (a # args) \<and> (mode = kKeepFlags \<longrightarrow> t = []))
      \<and> n \<le> n' \<and> n' \<le> n + length (a # args) \<and> quiet w w' \<and> copies w' = copies w"
    using t set_parsed_keeps [OF assms(2)] quiet_trans by auto
qed

lemma kept_ok_error [simp]: "kept_ok mode w args n kept (ExitError e)"
  "kept_ok mode w args n kept (ExitHelp v)" "kept_ok mode w args n kept (Dangling p)"
  by (simp_all add: kept_ok_def)

lemma kept_ok_set_parsed:
  assumes "\<And>v. set_parsed w p value = Inr v \<Longrightarrow> kept_ok mode w args n kept (f v)"
  shows "kept_ok mode w args n kept (case set_parsed w p value of Inl e \<Rightarrow> e | Inr v \<Rightarrow> f v)"
  using assms by (cases "set_parsed w p value") (auto simp: set_parsed_def split: option.splits sum.splits)

lemma parse_args_kept:
  "kept_ok mode w args n kept (parse_args c mode unknown e n kept w args)"
proof (induction args arbitrary: e n kept w rule: length_induct)
  case (1 args)
  show ?case
  proof (cases args)
    case Nil
    then show ?thesis by (simp add: kept_ok_def)
  next
    case (Cons a rest)
    have IH: "kept_ok mode v xs m k (parse_args c mode unknown e' m k v xs)"
      if "length xs < length args" for v xs m k e'
      using 1 that by blast
    have step: "kept_ok mode w (a # rest) n kept
        (case set_parsed w p s of Inl e \<Rightarrow> e | Inr v \<Rightarrow> parse_args c mode unknown e' (n + 1) kept v xs)"
      if "subseq xs rest" "length xs < length args" for p s e' xs
      by (rule kept_ok_set_parsed, rule kept_ok_consumed [OF IH [OF that(2)] _ that(1)])
    have one: "kept_ok mode w (a # rest) n kept
        (parse_args c mode unknown e' n (if b then kept @ [a] else kept) w rest)"
      if "b \<longrightarrow> mode = kRemoveFlags" for e' b
      by (rule kept_ok_kept [OF IH that]) (simp add: Cons)
    have sub: "subseq rest rest" "length rest < length args"
      "\<And>v xs. rest = v # xs \<Longrightarrow> subseq xs rest \<and> length xs < length args"
      by (auto simp: Cons)
    consider "e" | "\<not> e" "a = ''--''" | "\<not> e" "a \<noteq> ''--''" "\<not> is_long_option a"
      | "\<not> e" "a \<noteq> ''--''" "is_long_option a" by blast
    then show ?thesis
    proof cases
      case 1
      then show ?thesis using one [of "mode = kRemoveFlags" True] by (simp add: Cons)
    next
      case 2
      then show ?thesis using one [of "mode = kRemoveFlags \<and> unknown = kIgnore" True] by (cases mode; cases unknown; simp add: Cons)
    next
      case 3
      then show ?thesis using one [of "mode = kRemoveFlags" False] by (simp add: Cons)
    next
      case 4
      have un: "kept_ok mode w (a # rest) n kept
          (parse_args c mode unknown False n (if mode = kRemoveFlags then kept @ [a] else kept) w rest)"
        using one [of "mode = kRemoveFlags" False] by simp
      have go: "kept_ok mode w (a # rest) n kept
        (case set_parsed w p s of Inl e \<Rightarrow> e | Inr v \<Rightarrow> parse_args c mode unknown False (n + 1) kept v rest)"
        for p s by (rule step [OF sub(1,2)])
      have go2: "kept_ok mode w (a # x # xs) n kept
        (case set_parsed w p s of Inl e \<Rightarrow> e | Inr v \<Rightarrow> parse_args c mode unknown False (n + 1) kept v xs)"
        if "rest = x # xs" for p s x xs using step [where xs = xs] sub(3) [OF that] unfolding that by blast
      let ?name = "option_name (drop 2 a)" and ?given = "option_value (drop 2 a)"
      show ?thesis
      proof (cases "?name = ''help''")
        case True
        then show ?thesis using 4 by (simp add: Cons Let_def)
      next
        case plain: False
        show ?thesis
        proof (cases "select_flag w c ?name")
          case (Selected p negated)
          show ?thesis
          proof (cases negated)
            case True
            then show ?thesis using 4 plain Selected go [of p "''false''"] by (simp add: Cons Let_def)
          next
            case False
            show ?thesis
            proof (cases ?given)
              case (Some v)
              then show ?thesis using 4 plain Selected False go [of p v] by (simp add: Cons Let_def)
            next
              case None
              then show ?thesis
                using 4 plain Selected False go [of p "''true''"] go2 [of "hd rest" "tl rest" p "hd rest"]
                by (cases rest) (simp_all add: Cons Let_def cong: sum.case_cong)
            qed
          qed
        next
          case Unknown
          then show ?thesis using 4 plain un by (cases mode; cases unknown; simp add: Cons Let_def)
        qed (use 4 plain in \<open>simp add: Cons Let_def\<close>)
      qed
    qed
  qed
qed

lemmas parse_args_keptD = parse_args_kept [unfolded kept_ok_def, rule_format]

text \<open>
  What the parser does to the argument vector: it keeps the arguments when flags are to be kept, and
  otherwise leaves a subsequence of them in their order; it never parses more flags than there are
  arguments; and it changes nothing of the process but the values of flags.
\<close>

theorem ParseCommandLineFlags_keeps:
  assumes "ParseCommandLineFlags c mode unknown w args = Parsed n argv w'"
  shows "subseq argv args \<and> (mode = kKeepFlags \<longrightarrow> argv = args) \<and> n \<le> length args
     \<and> copies w' = copies w \<and> shared w' = shared w
     \<and> (\<forall>p f. objects w p = Some f \<longrightarrow> (\<exists>g. objects w' p = Some g \<and> same_flag f g))"
proof -
  obtain kept where k: "parse_args c mode unknown False 0 [] w args = Parsed n kept w'"
    "argv = (if mode = kRemoveFlags then kept else args)"
    using assms by (auto simp: ParseCommandLineFlags_def split: parse_outcome.splits)
  have q: "quiet w w'" "copies w' = copies w" "subseq kept args" "n \<le> length args"
    using parse_args_keptD [OF k(1)] by auto
  have "shared w' = shared w" "\<forall>p f. objects w p = Some f \<longrightarrow> (\<exists>g. objects w' p = Some g \<and> same_flag f g)"
    using q(1) unfolding quiet_def by (simp, blast)
  then show ?thesis using k(2) q by (cases mode) auto
qed

lemma sample_parse:
  "ParseCommandLineFlags 0 kRemoveFlags kIgnore sample_process [''--v=3'', ''file'', ''--'', ''--v=4'']
   = Parsed 1 [''file'', ''--'', ''--v=4''] (set_object 7 (SetValue (VInt32 3) sample_flag) sample_process)"
proof -
  have r: "ParseFlagValue TInt32 ''3'' = Inr (VInt32 3)"
    by (simp add: ParseSigned_def IntegerBase_def strtoimax_def strto_def split_sign_def
        skip_prefix_def digit_in_def digit_of_def is_digit_def is_space_def char_code_def cstr_def
        at_def digits_value_def Let_def)
  have o: "objects sample_process 7 = Some sample_flag" "flags (copies sample_process 0) = [(''v'', 7)]"
    "flag_type sample_flag = TInt32"
    by (simp_all add: sample_process_def create_flag_def sample_flag_def make_flag_def)
  show ?thesis
    by (simp add: ParseCommandLineFlags_def is_long_option_def starts_with_def option_name_def
        option_value_def select_flag_def FindFlagLocked_def o set_parsed_def SetFromString_def r
        del: ParseFlagValue.simps)
qed

lemma ParseCommandLineFlags_keeps_witness:
  "subseq [''file'', ''--'', ''--v=4''] [''--v=3'', ''file'', ''--'', ''--v=4'']"
  using ParseCommandLineFlags_keeps [OF sample_parse] by blast

section \<open>Parsing again\<close>

lemma select_Unknown_copies: "copies v = copies w \<Longrightarrow> select_flag v c name = Unknown \<longleftrightarrow> select_flag w c name = Unknown"
  by (auto simp: select_flag_def split: option.splits)

definition settled :: "nat \<Rightarrow> bool \<Rightarrow> process \<Rightarrow> string list \<Rightarrow> bool" where
  "settled c e w t \<longleftrightarrow> (\<forall>v n kept. copies v = copies w \<longrightarrow>
     parse_args c kRemoveFlags kIgnore e n kept v t = Parsed n (kept @ t) v)"

lemma settled_Nil: "settled c e w []"
  by (simp add: settled_def)

lemma settled_end: "settled c True w t \<Longrightarrow> settled c True w (a # t)"
  by (simp add: settled_def)

lemma settled_separator: "settled c True w t \<Longrightarrow> settled c False w (''--'' # t)"
  by (simp add: settled_def)

lemma settled_plain: "settled c e w t \<Longrightarrow> a \<noteq> ''--'' \<Longrightarrow> \<not> is_long_option a \<Longrightarrow> settled c e w (a # t)"
  by (simp add: settled_def)

lemma settled_unknown:
  assumes "settled c False w t" and "a \<noteq> ''--''" and "is_long_option a"
    and "option_name (drop 2 a) \<noteq> ''help''" and "select_flag w c (option_name (drop 2 a)) = Unknown"
  shows "settled c False w (a # t)"
  unfolding settled_def
proof (intro allI impI)
  fix v :: process and n kept assume v: "copies v = copies w"
  then have "select_flag v c (option_name (drop 2 a)) = Unknown"
    using assms(5) select_Unknown_copies by blast
  then have "parse_args c kRemoveFlags kIgnore False n kept v (a # t)
      = parse_args c kRemoveFlags kIgnore False n (kept @ [a]) v t"
    using assms(2-4) by (simp add: Let_def)
  then show "parse_args c kRemoveFlags kIgnore False n kept v (a # t) = Parsed n (kept @ a # t) v"
    using assms(1) v by (simp add: settled_def)
qed

lemma settled_copies: "copies v = copies w \<Longrightarrow> settled c e v t \<longleftrightarrow> settled c e w t"
  by (simp add: settled_def)

definition settles :: "nat \<Rightarrow> bool \<Rightarrow> process \<Rightarrow> string list \<Rightarrow> parse_outcome \<Rightarrow> bool" where
  "settles c e w kept out \<longleftrightarrow>
     (\<forall>n' kept' w'. out = Parsed n' kept' w' \<longrightarrow> (\<exists>t. kept' = kept @ t \<and> settled c e w t))"

lemma settles_error [simp]: "settles c e w kept (ExitError x)" "settles c e w kept (ExitHelp v)"
  "settles c e w kept (Dangling p)"
  by (simp_all add: settles_def)

lemma settles_kept:
  assumes "settles c e' w (kept @ [a]) out" and "\<And>t. settled c e' w t \<Longrightarrow> settled c e w (a # t)"
  shows "settles c e w kept out"
  unfolding settles_def
proof (intro allI impI)
  fix n' kept' w' assume "out = Parsed n' kept' w'"
  then obtain t where "kept' = (kept @ [a]) @ t" "settled c e' w t"
    using assms(1) unfolding settles_def by blast
  then show "\<exists>t. kept' = kept @ t \<and> settled c e w t" using assms(2) by (intro exI [of _ "a # t"]) simp
qed

lemma settles_set_parsed:
  assumes "\<And>v. copies v = copies w \<Longrightarrow> settles c e v kept (f v)"
  shows "settles c e w kept (case set_parsed w p s of Inl x \<Rightarrow> x | Inr v \<Rightarrow> f v)"
proof (cases "set_parsed w p s")
  case (Inl x)
  then show ?thesis by (auto simp: set_parsed_def split: option.splits sum.splits)
next
  case (Inr v)
  then have "copies v = copies w" using set_parsed_keeps by blast
  then show ?thesis using assms [of v] Inr settled_copies [of v w] by (simp add: settles_def)
qed

lemma parse_settles: "settles c e w kept (parse_args c kRemoveFlags kIgnore e n kept w args)"
proof (induction args arbitrary: e n kept w rule: length_induct)
  case (1 args)
  show ?case
  proof (cases args)
    case Nil
    then show ?thesis using settled_Nil by (simp add: settles_def)
  next
    case (Cons a rest)
    have IH: "settles c e' v k (parse_args c kRemoveFlags kIgnore e' m k v xs)"
      if "length xs < length args" for e' m k v xs
      using 1 that by blast
    have len: "length rest < length args" "\<And>v xs. rest = v # xs \<Longrightarrow> length xs < length args"
      by (auto simp: Cons)
    have go: "settles c e' w kept (case set_parsed w p s of Inl x \<Rightarrow> x
        | Inr v \<Rightarrow> parse_args c kRemoveFlags kIgnore e' m kept v xs)"
      if "length xs < length args" for p s e' m xs
      by (rule settles_set_parsed [OF IH [OF that]])
    consider "e" | "\<not> e" "a = ''--''" | "\<not> e" "a \<noteq> ''--''" "\<not> is_long_option a"
      | "\<not> e" "a \<noteq> ''--''" "is_long_option a" by blast
    then show ?thesis
    proof cases
      case 1
      then show ?thesis
        using settles_kept [OF IH [OF len(1)] settled_end] by (simp add: Cons)
    next
      case 2
      then show ?thesis
        using settles_kept [OF IH [OF len(1)] settled_separator] by (simp add: Cons)
    next
      case 3
      then show ?thesis
        using settles_kept [OF IH [OF len(1)] settled_plain] by (simp add: Cons)
    next
      case 4
      have un: "settles c False w kept (parse_args c kRemoveFlags kIgnore False n (kept @ [a]) w rest)"
        if "option_name (drop 2 a) \<noteq> ''help''" "select_flag w c (option_name (drop 2 a)) = Unknown"
        by (rule settles_kept [OF IH [OF len(1)]], rule settled_unknown) (use 4 that in auto)
      show ?thesis
        using 4 by (auto simp: Cons Let_def un split: selected.splits option.splits list.splits intro!: go [unfolded Cons])
    qed
  qed
qed

text \<open>
  When another parser owns the remaining options, parsing a second time finds nothing: the arguments
  that are left are left again, no flag is parsed and no value changes.
\<close>

theorem ParseCommandLineFlags_idempotent:
  assumes "ParseCommandLineFlags c kRemoveFlags kIgnore w args = Parsed n argv w'"
  shows "ParseCommandLineFlags c kRemoveFlags kIgnore w' argv = Parsed 0 argv w'"
proof -
  have run: "parse_args c kRemoveFlags kIgnore False 0 [] w args = Parsed n argv w'"
    using assms by (auto simp: ParseCommandLineFlags_def split: parse_outcome.splits)
  have "settled c False w argv"
    using parse_settles [of c False w "[]" 0 args] run by (simp add: settles_def)
  moreover have "copies w' = copies w" using parse_args_keptD [OF run] by blast
  ultimately show ?thesis by (simp add: settled_def ParseCommandLineFlags_def)
qed

lemma ParseCommandLineFlags_idempotent_witness:
  "\<exists>w'. ParseCommandLineFlags 0 kRemoveFlags kIgnore w' [''file'', ''--'', ''--v=4'']
     = Parsed 0 [''file'', ''--'', ''--v=4''] w'"
  using ParseCommandLineFlags_idempotent [OF sample_parse] by blast

end
