(* ===== verification/CommandLineReadback.thy ===== *)
theory CommandLineReadback imports CommandLineProps begin

text \<open>
  What the command line means: assignments are read back, switches of boolean flags are never
  ambiguous, and no flag that is not there is accessed.
\<close>

section \<open>Names on the command line\<close>

lemma valid_name_chars:
  assumes "IsValidFlagName n" and "NUL \<notin> set n" and "c \<in> set n"
  shows "is_alnum c \<or> c = CHR ''_''"
proof -
  have "cstr n = n" using assms(2) by (simp add: cstr_def takeWhile_eq_all_conv)
       (metis)
  then show ?thesis using assms by (auto simp: IsValidFlagName_def list_all_iff)
qed

lemma valid_name_no:
  assumes "IsValidFlagName n" and "NUL \<notin> set n"
  shows "CHR ''='' \<notin> set n" "CHR ''-'' \<notin> set n" "n \<noteq> ''''"
proof -
  show "CHR ''='' \<notin> set n" "CHR ''-'' \<notin> set n"
    using valid_name_chars [OF assms, of "CHR ''=''"] valid_name_chars [OF assms, of "CHR ''-''"]
    by (auto simp: is_alnum_def is_alpha_def is_digit_def char_code_def)
  show "n \<noteq> ''''" using assms(1) by (cases n) (simp_all add: IsValidFlagName_def)
qed

lemma option_name_plain: "CHR ''='' \<notin> set n \<Longrightarrow> option_name n = n \<and> option_value n = None"
  by (auto simp: option_name_def option_value_def takeWhile_eq_all_conv)

lemma option_name_assignment:
  "CHR ''='' \<notin> set n \<Longrightarrow> option_name (n @ CHR ''='' # s) = n \<and> option_value (n @ CHR ''='' # s) = Some s"
proof -
  assume "CHR ''='' \<notin> set n"
  then have "takeWhile (\<lambda>c. c \<noteq> CHR ''='') (n @ CHR ''='' # s) = n"
    by (subst takeWhile_append2) auto
  then show ?thesis by (simp add: option_name_def option_value_def)
qed

lemma FindFlag_direct: "map_of (flags r) n = Some p \<Longrightarrow> FindFlagLocked r n = Some p"
  by (simp add: FindFlagLocked_def)

lemma FindFlag_None: "map_of (flags r) n = None \<Longrightarrow> CHR ''-'' \<notin> set n \<Longrightarrow> FindFlagLocked r n = None"
  by (simp add: FindFlagLocked_def)

text \<open>A flag that a copy lists, with its object.\<close>

lemma listed_flag:
  assumes "flag_reachable env trusted w" and "map_of (flags (copies w c)) n = Some p"
  obtains f where "objects w p = Some f" "flag_name f = n" "IsValidFlagName n" "n \<noteq> ''help''"
proof -
  have ok: "process_ok w" using assms(1) by (rule reachable_ok)
  obtain f where "objects w p = Some f" "flag_name f = n"
    using processD(1) [OF ok] assms(2) by (rule tables_flagD)
  then show ?thesis using that processD(2) [OF ok, of c] assms(2) unfolding names_ok_def by blast
qed

section \<open>Assignments\<close>

definition assignment :: "string \<times> flag_value \<Rightarrow> string" where
  "assignment a = ''--'' @ fst a @ ''='' @ ValueToString (snd a)"

definition assigned :: "(string \<times> flag_value) list \<Rightarrow> string \<Rightarrow> flag_value option" where
  "assigned asg n = map_of (rev asg) n"

text \<open>Every assignment names a listed flag and has a value of its type that can be printed.\<close>

definition assignable :: "process \<Rightarrow> nat \<Rightarrow> (string \<times> flag_value) list \<Rightarrow> bool" where
  "assignable w c asg \<longleftrightarrow> (\<forall>(n, v) \<in> set asg. NUL \<notin> set n \<and> IsValidFlagName n \<and> n \<noteq> ''help'' \<and> value_ok v
     \<and> (\<exists>p f. map_of (flags (copies w c)) n = Some p \<and> objects w p = Some f \<and> flag_type f = value_type v))"

lemma parse_assignment:
  assumes "NUL \<notin> set n" "IsValidFlagName n" "n \<noteq> ''help''" "value_ok v"
    and p: "map_of (flags (copies w c)) n = Some p" and f: "objects w p = Some f" "flag_type f = value_type v"
  shows "parse_args c mode unknown False k kept w (assignment (n, v) # args)
       = parse_args c mode unknown False (k + 1) kept (set_object p (SetValue v f) w) args"
proof -
  note n = valid_name_no [OF assms(2,1)]
  have o: "option_name (n @ CHR ''='' # ValueToString v) = n"
    "option_value (n @ CHR ''='' # ValueToString v) = Some (ValueToString v)"
    using option_name_assignment [OF n(1)] by auto
  have "select_flag w c n = Selected p False" using p by (simp add: select_flag_def FindFlag_direct)
  moreover have "set_parsed w p (ValueToString v) = Inr (set_object p (SetValue v f) w)"
    using f parse_printed [OF assms(4)] by (simp add: set_parsed_def SetFromString_def)
  ultimately show ?thesis
    using assms(3) o n(3) by (simp add: assignment_def is_long_option_def starts_with_def)
qed

lemma assignable_set:
  assumes "assignable w c asg" and "objects w p = Some f"
  shows "assignable (set_object p (SetValue v f) w) c asg"
  unfolding assignable_def
proof (clarify)
  fix n x assume "(n, x) \<in> set asg"
  then obtain q g where q: "NUL \<notin> set n" "IsValidFlagName n" "n \<noteq> ''help''" "value_ok x"
    "map_of (flags (copies w c)) n = Some q" "objects w q = Some g" "flag_type g = value_type x"
    using assms(1) by (auto simp: assignable_def)
  have "\<exists>g'. objects (set_object p (SetValue v f) w) q = Some g' \<and> flag_type g' = value_type x"
    using q assms(2) by (cases "q = p") (auto simp: SetValue_def)
  then show "NUL \<notin> set n \<and> IsValidFlagName n \<and> n \<noteq> ''help'' \<and> value_ok x
      \<and> (\<exists>q g. map_of (flags (copies (set_object p (SetValue v f) w) c)) n = Some q
           \<and> objects (set_object p (SetValue v f) w) q = Some g \<and> flag_type g = value_type x)"
    using q by simp
qed

lemma parse_assignments:
  assumes "assignable w c asg"
    and inj: "\<And>m n p. map_of (flags (copies w c)) m = Some p \<Longrightarrow> map_of (flags (copies w c)) n = Some p \<Longrightarrow> m = n"
  shows "\<exists>w'. parse_args c mode unknown False k kept w (map assignment asg) = Parsed (k + length asg) kept w'
     \<and> copies w' = copies w
     \<and> (\<forall>n p. map_of (flags (copies w c)) n = Some p \<longrightarrow>
          objects w' p = (case assigned asg n of None \<Rightarrow> objects w p | Some v \<Rightarrow> map_option (SetValue v) (objects w p)))"
  using assms
proof (induction asg arbitrary: w k)
  case Nil
  then show ?case by (simp add: assigned_def)
next
  case (Cons a asg)
  obtain n v where a: "a = (n, v)" by (cases a)
  obtain p f where p: "NUL \<notin> set n" "IsValidFlagName n" "n \<noteq> ''help''" "value_ok v"
    "map_of (flags (copies w c)) n = Some p" "objects w p = Some f" "flag_type f = value_type v"
    using Cons.prems(1) by (auto simp: assignable_def a)
  let ?w = "set_object p (SetValue v f) w"
  have "assignable ?w c asg"
    by (rule assignable_set [OF _ p(6)]) (use Cons.prems(1) in \<open>simp add: assignable_def\<close>)
  then have "\<exists>w'. parse_args c mode unknown False (k + 1) kept ?w (map assignment asg)
        = Parsed (k + 1 + length asg) kept w' \<and> copies w' = copies ?w
     \<and> (\<forall>n p. map_of (flags (copies ?w c)) n = Some p \<longrightarrow>
          objects w' p = (case assigned asg n of None \<Rightarrow> objects ?w p | Some v \<Rightarrow> map_option (SetValue v) (objects ?w p)))"
    by (rule Cons.IH) (use Cons.prems(2) in simp)
  then obtain w' where w': "parse_args c mode unknown False (k + 1) kept ?w (map assignment asg)
        = Parsed (k + 1 + length asg) kept w'" "copies w' = copies w"
     "\<And>n p. map_of (flags (copies w c)) n = Some p \<Longrightarrow>
          objects w' p = (case assigned asg n of None \<Rightarrow> objects ?w p | Some v \<Rightarrow> map_option (SetValue v) (objects ?w p))"
    by auto
  have "parse_args c mode unknown False k kept w (map assignment (a # asg)) = Parsed (k + length (a # asg)) kept w'"
    using parse_assignment [OF p] w'(1) by (simp add: a)
  moreover have "objects w' q = (case assigned (a # asg) m of None \<Rightarrow> objects w q
      | Some x \<Rightarrow> map_option (SetValue x) (objects w q))" if m: "map_of (flags (copies w c)) m = Some q" for m q
  proof (cases "q = p")
    case True
    then have "m = n" using Cons.prems(2) m p(5) by blast
    then show ?thesis
      using w'(3) [OF m] True p(6) by (auto simp: assigned_def a map_add_def SetValue_def split: option.splits)
  next
    case False
    then have "m \<noteq> n" using m p(5) by auto
    then show ?thesis
      using w'(3) [OF m] False by (auto simp: assigned_def a map_add_def split: option.splits)
  qed
  ultimately show ?case using w'(2) by blast
qed

text \<open>
  C35. Round trip through the command line: when the arguments are \<open>--name=value\<close> with the printed values
  of flags that are registered, all of them are parsed, each option then reads as the last value given
  for it and the other options read as before.
\<close>

theorem command_line_roundtrip:
  assumes "flag_reachable env trusted w" and "assignable w c asg"
  shows "\<exists>w'. ParseCommandLineFlags c mode unknown w (map assignment asg)
        = Parsed (length asg) (if mode = kRemoveFlags then [] else map assignment asg) w'
     \<and> (\<forall>n. map_of (flags (copies w c)) n \<noteq> None \<longrightarrow>
          GetCommandLineOption c n w' = (case assigned asg n of
             None \<Rightarrow> GetCommandLineOption c n w
           | Some v \<Rightarrow> Inr (Some (ValueToString v))))"
proof -
  have inj: "m = n" if "map_of (flags (copies w c)) m = Some p" "map_of (flags (copies w c)) n = Some p" for m n p
    using that by (metis assms(1) listed_flag option.inject)
  obtain w' where w': "parse_args c mode unknown False 0 [] w (map assignment asg) = Parsed (length asg) [] w'"
    "copies w' = copies w"
    "\<And>n p. map_of (flags (copies w c)) n = Some p \<Longrightarrow>
       objects w' p = (case assigned asg n of None \<Rightarrow> objects w p | Some v \<Rightarrow> map_option (SetValue v) (objects w p))"
  proof -
    have "\<exists>w'. parse_args c mode unknown False 0 [] w (map assignment asg) = Parsed (0 + length asg) [] w'
     \<and> copies w' = copies w
     \<and> (\<forall>n p. map_of (flags (copies w c)) n = Some p \<longrightarrow>
          objects w' p = (case assigned asg n of None \<Rightarrow> objects w p | Some v \<Rightarrow> map_option (SetValue v) (objects w p)))"
      by (rule parse_assignments [OF assms(2)]) (rule inj)
    then show ?thesis using that by auto
  qed
  have "GetCommandLineOption c n w' = (case assigned asg n of
             None \<Rightarrow> GetCommandLineOption c n w | Some v \<Rightarrow> Inr (Some (ValueToString v)))"
    if "map_of (flags (copies w c)) n \<noteq> None" for n
  proof -
    obtain p where p: "map_of (flags (copies w c)) n = Some p"
      using \<open>map_of (flags (copies w c)) n \<noteq> None\<close> by blast
    obtain f where f: "objects w p = Some f" using assms(1) p by (rule listed_flag)
    show ?thesis
      using w'(3) [OF p] f
      by (auto simp: GetCommandLineOption_def w'(2) FindFlag_direct [OF p] SetValue_def CurrentValue_def split: option.splits)
  qed
  then show ?thesis using w'(1) by (intro exI [of _ w']) (simp add: ParseCommandLineFlags_def)
qed

lemma command_line_roundtrip_witness:
  "\<exists>w'. ParseCommandLineFlags 0 kRemoveFlags kError sample_process [''--v='' @ ValueToString (VInt32 3)]
     = Parsed 1 [] w' \<and> GetCommandLineOption 0 ''v'' w' = Inr (Some (ValueToString (VInt32 3)))"
proof -
  have "assignable sample_process 0 [(''v'', VInt32 3)]"
    by (simp add: assignable_def sample_process_def create_flag_def sample_flag_def make_flag_def value_ok_def
        IsValidFlagName_def is_alnum_def is_alpha_def is_digit_def char_code_def cstr_def)
  from command_line_roundtrip [OF sample_reachable this, of kRemoveFlags kError]
  show ?thesis using sample_flags by (auto simp: assignment_def assigned_def)
qed

section \<open>Switches\<close>

text \<open>
  A boolean flag is set by its name and reset by its name with \<open>no\<close> in front, whatever else is
  registered: the registry never holds an option that the second form could mean instead.
\<close>

theorem boolean_switches:
  assumes "flag_reachable env trusted w" and "map_of (flags (copies w c)) n = Some p"
    and "is_boolean w p" and "NUL \<notin> set n"
  shows "\<exists>f. objects w p = Some f
     \<and> ParseCommandLineFlags c kRemoveFlags unknown w [''--'' @ n] = Parsed 1 [] (set_object p (SetValue (VBool True) f) w)
     \<and> ParseCommandLineFlags c kRemoveFlags unknown w [''--no'' @ n] = Parsed 1 [] (set_object p (SetValue (VBool False) f) w)"
proof -
  obtain f where f: "objects w p = Some f" "flag_name f = n" "IsValidFlagName n" "n \<noteq> ''help''"
    using assms(1,2) by (rule listed_flag)
  have bool: "flag_type f = TBool" using assms(3) f(1) by (simp add: is_boolean_def)
  note n = valid_name_no [OF f(3) assms(4)]
  have "map_of (flags (copies w c)) (''no'' @ n) = None"
    using processD(2) [OF reachable_ok [OF assms(1)], of c] assms(2,3) unfolding names_ok_def by blast
  then have "FindFlagLocked (copies w c) (''no'' @ n) = None" using n(2) by (intro FindFlag_None) simp_all
  then have s: "select_flag w c n = Selected p False" "select_flag w c (''no'' @ n) = Selected p True"
    using assms(2,3) by (simp_all add: select_flag_def FindFlag_direct starts_with_def)
  have o: "option_name n = n" "option_value n = None" "option_name (''no'' @ n) = ''no'' @ n"
    "option_value (''no'' @ n) = None"
    using option_name_plain [OF n(1)] option_name_plain [of "''no'' @ n"] n(1) by auto
  have v: "set_parsed w p ''true'' = Inr (set_object p (SetValue (VBool True) f) w)"
    "set_parsed w p ''false'' = Inr (set_object p (SetValue (VBool False) f) w)"
    using f(1) bool parse_printed [of "VBool True"] parse_printed [of "VBool False"]
    by (simp_all add: set_parsed_def SetFromString_def value_ok_def)
  have "ParseCommandLineFlags c kRemoveFlags unknown w [''--'' @ n] = Parsed 1 [] (set_object p (SetValue (VBool True) f) w)"
    using s o v n f(4) assms(3)
    by (simp add: ParseCommandLineFlags_def is_long_option_def starts_with_def)
  moreover have "ParseCommandLineFlags c kRemoveFlags unknown w [''--no'' @ n] = Parsed 1 [] (set_object p (SetValue (VBool False) f) w)"
    using s o v n f(4) assms(3)
    by (simp add: ParseCommandLineFlags_def is_long_option_def starts_with_def)
  ultimately show ?thesis using f(1) by blast
qed

definition switch_flag :: flag where
  "switch_flag = make_flag ''tty'' ''tty.cc'' (HelpString ''use colours'') (VBool False)"

definition switch_process :: process where
  "switch_process = set_copy 0 (empty_registry\<lparr>flags := [(''tty'', 9)],
      entries := [(9, new_entry empty_registry)], next_registration := 2\<rparr>)
     ((create_flag 9 switch_flag (flag_start (Some [])))\<lparr>shared := Some
        [\<lparr>entry_owner = 0, entry_name = ''tty'', entry_filename = ''tty.cc'', entry_type = ''bool''\<rparr>]\<rparr>)"

lemma switch_reachable: "flag_reachable env trusted switch_process"
proof -
  have "flag_step env trusted (flag_start (Some [])) (create_flag 9 switch_flag (flag_start (Some [])))"
    by (rule step_create) (simp_all add: flag_start_def switch_flag_def make_flag_def typed_flag_def)
  moreover have "RegisterFlag True 0 9 (create_flag 9 switch_flag (flag_start (Some []))) = Inr switch_process"
    by (simp add: RegisterFlag_def create_flag_def switch_flag_def make_flag_def flag_start_def
        empty_registry_def switch_process_def Let_def IsValidFlagName_def is_alnum_def is_alpha_def
        is_digit_def char_code_def cstr_def negation_conflict_def starts_with_def Register_def
        mismatched_def declarations_of_def set_object_def numeral_2_eq_2)
  ultimately show ?thesis by (blast intro: reach_start reach_step step_register)
qed

lemma boolean_switches_witness:
  "ParseCommandLineFlags 0 kRemoveFlags kError switch_process [''--notty'']
     = Parsed 1 [] (set_object 9 (SetValue (VBool False) switch_flag) switch_process)"
proof -
  have "map_of (flags (copies switch_process 0)) ''tty'' = Some 9" "is_boolean switch_process 9"
    "objects switch_process 9 = Some switch_flag"
    by (simp_all add: switch_process_def create_flag_def is_boolean_def switch_flag_def make_flag_def)
  then show ?thesis using boolean_switches [OF switch_reachable, of 0 "''tty''" 9 kError] by auto
qed

section \<open>Every run ends, without an access to a flag that is gone\<close>

lemma select_alive:
  assumes "process_ok w" and "select_flag w c n = Selected p b"
  shows "objects w p \<noteq> None"
proof -
  have "\<exists>m. map_of (flags (copies w c)) m = Some p"
    using assms(2) by (auto simp: select_flag_def FindFlagLocked_def split: option.splits if_splits)
  then show ?thesis using processD(1) [OF assms(1), of c] unfolding tables_ok_def by blast
qed

definition no_dangling :: "parse_outcome \<Rightarrow> bool" where
  "no_dangling out \<longleftrightarrow> (\<forall>p. out \<noteq> Dangling p)"

lemma no_dangling_simps [simp]: "no_dangling (Parsed n k w)" "no_dangling (ExitError e)" "no_dangling (ExitHelp w)"
  by (simp_all add: no_dangling_def)

lemma no_dangling_set:
  assumes "process_ok w" and "objects w p \<noteq> None"
    and "\<And>v. process_ok v \<Longrightarrow> no_dangling (g v)"
  shows "no_dangling (case set_parsed w p s of Inl e \<Rightarrow> e | Inr v \<Rightarrow> g v)"
proof (cases "set_parsed w p s")
  case (Inl e)
  then show ?thesis using assms(2)
    by (auto simp: set_parsed_def split: option.splits sum.splits)
next
  case (Inr v)
  then have "process_ok v" using set_parsed_keeps process_ok_quiet assms(1) by blast
  then show ?thesis using Inr assms(3) by simp
qed

lemma parse_no_dangling: "process_ok w \<Longrightarrow> no_dangling (parse_args c mode unknown e n kept w args)"
proof (induction args arbitrary: e n kept w rule: length_induct)
  case (1 args)
  show ?case
  proof (cases args)
    case (Cons a rest)
    have IH: "no_dangling (parse_args c mode unknown e' m k v xs)"
      if "length xs < length args" "process_ok v" for e' m k v xs
      using 1(1) that by blast
    have go: "no_dangling (case set_parsed w p s of Inl x \<Rightarrow> x
        | Inr v \<Rightarrow> parse_args c mode unknown e' m kept v xs)"
      if "length xs < length args" "objects w p \<noteq> None" for p s e' m xs
      using no_dangling_set [OF 1(2) that(2) IH [OF that(1)]] .
    have now: "no_dangling (parse_args c mode unknown e' m k w rest)" for e' m k
      using IH 1(2) Cons by simp
    let ?name = "option_name (drop 2 a)" and ?given = "option_value (drop 2 a)"
    show ?thesis
    proof (cases "e \<or> a = ''--'' \<or> \<not> is_long_option a \<or> ?name = ''help''")
      case True
      then show ?thesis using now by (auto simp: Cons Let_def)
    next
      case long: False
      show ?thesis
      proof (cases "select_flag w c ?name")
        case (Selected p negated)
        have alive: "objects w p \<noteq> None" by (rule select_alive [OF 1(2) Selected])
        note go = go [OF _ alive]
        have rest: "length rest < length args" by (simp add: Cons)
        show ?thesis
        proof (cases negated)
          case True
          then show ?thesis
            using long Selected go [OF rest, where s = "''false''" and e' = False and m = "n + 1"] by (simp add: Cons Let_def)
        next
          case False
          show ?thesis
          proof (cases ?given)
            case (Some v)
            then show ?thesis
              using long Selected False go [OF rest, where s = v and e' = False and m = "n + 1"] by (simp add: Cons Let_def)
          next
            case None
            show ?thesis
            proof (cases "is_boolean w p")
              case True
              then show ?thesis
                using long Selected False None go [OF rest, where s = "''true''" and e' = False and m = "n + 1"]
                by (simp add: Cons Let_def)
            next
              case nb: False
              show ?thesis
              proof (cases rest)
                case r: (Cons v vs)
                then show ?thesis
                  using long Selected False None nb go [where xs = vs and s = v and e' = False and m = "n + 1"]
                  by (simp add: Cons Let_def)
              qed (use long Selected False None nb in \<open>simp add: Cons Let_def\<close>)
            qed
          qed
        qed
      qed (use long now in \<open>cases mode; cases unknown; simp add: Cons Let_def\<close>)+
    qed
  qed simp
qed



end
