(* ===== verification/Vlog.thy ===== *)
theory Vlog imports Prelude begin

text \<open>
  Verbose logging (\<open>src/vlog_is_on.cc\<close>, \<open>ng-log/vlog_is_on.h\<close>): the wildcard matcher,
  the list of module levels with \<open>--vmodule\<close> and \<open>SetVLOGLevel\<close>, the cache of each
  \<open>VLOG\<close> site and the lock-free reads of it.

  Nodes of \<open>vmodule_list\<close> are never freed, so a pointer to one is its index in the
  list of all nodes; the \<open>next\<close> pointers of the two linked lists are lists of
  indices and of sites. A level is an \<open>std::int32_t\<close>, read with \<open>sint\<close>.
\<close>

section \<open>The matcher\<close>

text \<open>\<open>pattern + p, patt_len - p\<close> and \<open>str + s, str_len - s\<close> are the rests of the
  two strings. The second function is the \<open>do\<close> loop over the positions of the string.\<close>

function SafeFNMatch :: "string \<Rightarrow> string \<Rightarrow> bool"
  and star_loop :: "string \<Rightarrow> string \<Rightarrow> bool" where
  "SafeFNMatch [] [] = True"
| "SafeFNMatch [] (c # s) = False"
| "SafeFNMatch (q # p) [] = (p = [] \<and> q = CHR ''*'')"
| "SafeFNMatch (q # p) (c # s) =
     (if q = c \<or> q = CHR ''?'' then SafeFNMatch p s
      else if q = CHR ''*'' then p = [] \<or> star_loop p (c # s)
      else False)"
| "star_loop p [] = False"
| "star_loop p (c # s) =
     (if SafeFNMatch p (c # s) then True else if s \<noteq> [] then star_loop p s else False)"
  by pat_completeness auto

termination
  by (relation "inv_image (less_than <*lex*> less_than <*lex*> less_than)
        (\<lambda>x. case x of Inl (p, s) \<Rightarrow> (length p, length s, 0) | Inr (p, s) \<Rightarrow> (length p, length s, 1::nat))")
     auto

section \<open>Levels of modules and the caches of the sites\<close>

type_synonym int32 = "32 word"

record VModuleInfo =
  module_pattern :: string
  vlog_level :: int32

text \<open>\<open>level\<close> points to a node, \<open>default_level\<close> to a flag of type \<open>std::int32_t\<close>, here
  by its name.\<close>

record SiteFlag =
  level :: "nat option"
  default_level :: "string option"
  initialized :: bool
  base_name :: "string option"
  base_len :: nat

definition nglog_vlog_site :: SiteFlag where
  "nglog_vlog_site = \<lparr>level = None, default_level = None, initialized = False,
     base_name = None, base_len = 0\<rparr>"

record vlog =
  infos :: "VModuleInfo list"
  vmodule_list :: "nat list"
  cached_site_list :: "nat list"
  inited_vmodule :: bool
  sites :: "nat \<Rightarrow> SiteFlag"
  int_flags :: "string \<Rightarrow> int32"
  FLAGS_vmodule :: string

abbreviation node_pattern :: "vlog \<Rightarrow> nat \<Rightarrow> string" where
  "node_pattern st i \<equiv> module_pattern (infos st ! i)"

abbreviation node_level :: "vlog \<Rightarrow> nat \<Rightarrow> int32" where
  "node_level st i \<equiv> vlog_level (infos st ! i)"

subsection \<open>Reading \<open>--vmodule\<close>\<close>

text \<open>\<open>strchr\<close>: the C string from the first occurrence of a character on.\<close>

definition strchr :: "string \<Rightarrow> char \<Rightarrow> string option" where
  "strchr s c = (case dropWhile (\<lambda>d. d \<noteq> c) s of [] \<Rightarrow> None | r \<Rightarrow> Some r)"

definition is_space :: "char \<Rightarrow> bool" where
  "is_space c \<longleftrightarrow> c \<in> set [CHR '' '', CHR 0x09, CHR 0x0A, CHR 0x0B, CHR 0x0C, CHR 0x0D]"

definition is_digit :: "char \<Rightarrow> bool" where
  "is_digit c \<longleftrightarrow> 48 \<le> (of_char c :: nat) \<and> (of_char c :: nat) \<le> 57"

text \<open>\<open>sscanf(sep, "=%d", ..)\<close>. The C standard does not define the result for a
  number that an \<open>int\<close> cannot represent: it is the parameter \<open>wide\<close>.\<close>

definition sscanf_level :: "(int \<Rightarrow> int32) \<Rightarrow> string \<Rightarrow> int32 option" where
  "sscanf_level wide sep = (case sep of
     [] \<Rightarrow> None
   | e # rest \<Rightarrow>
       let text = dropWhile is_space rest;
           negative = (text \<noteq> [] \<and> hd text = CHR ''-'');
           unsigned = (if text \<noteq> [] \<and> hd text \<in> {CHR ''-'', CHR ''+''} then tl text else text);
           digits = takeWhile is_digit unsigned;
           n = (if negative then - int (read_nat digits) else int (read_nat digits))
       in if e \<noteq> CHR ''='' \<or> digits = [] then None
          else if - (2 ^ 31) \<le> n \<and> n < 2 ^ 31 then Some (word_of_int n)
          else Some (wide n))"

text \<open>The loop over the entries: a pattern is everything before the next \<open>=\<close>, and
  what follows the number up to the next comma is skipped.\<close>

lemma strchr_shorter:
  assumes "strchr s c = Some r"
  shows "length r \<le> length s" and "r \<noteq> []"
proof -
  have r: "r = dropWhile (\<lambda>d. d \<noteq> c) s \<and> r \<noteq> []"
    using assms by (auto simp: strchr_def split: list.splits)
  then show "length r \<le> length s"
    by (simp add: length_dropWhile_le)
  show "r \<noteq> []"
    using r by blast
qed

function vmodule_entries :: "(int \<Rightarrow> int32) \<Rightarrow> string \<Rightarrow> VModuleInfo list" where
  "vmodule_entries wide vmodule = (case strchr vmodule (CHR ''='') of
     None \<Rightarrow> []
   | Some sep \<Rightarrow>
       let pattern = take (length vmodule - length sep) vmodule;
           new = (case sscanf_level wide sep of
                    Some module_level \<Rightarrow> [\<lparr>module_pattern = pattern, vlog_level = module_level\<rparr>]
                  | None \<Rightarrow> [])
       in (case strchr sep (CHR '','') of
             None \<Rightarrow> new
           | Some rest \<Rightarrow> new @ vmodule_entries wide (tl rest)))"
  by pat_completeness auto

termination
proof (relation "measure (length \<circ> snd)", goal_cases)
  case 1
  then show ?case by simp
next
  case (2 wide vmodule sep pattern new rest)
  then show ?case
    using strchr_shorter [of vmodule "CHR ''=''" sep] strchr_shorter [of sep "CHR '',''" rest]
    by (cases rest) auto
qed

declare vmodule_entries.simps [simp del]

definition VLOG2Initializer :: "(int \<Rightarrow> int32) \<Rightarrow> vlog \<Rightarrow> vlog" where
  "VLOG2Initializer wide st =
     (let new = vmodule_entries wide (cstr (FLAGS_vmodule st));
          n = length (infos st)
      in st\<lparr>infos := infos st @ new,
            vmodule_list := [n..<n + length new] @ vmodule_list st,
            inited_vmodule := True\<rparr>)"

subsection \<open>\<open>SetVLOGLevel\<close>\<close>

text \<open>The loop over \<open>vmodule_list\<close>: the previous level, whether one was found and
  whether an entry has exactly this pattern.\<close>

fun set_exact_levels ::
  "string \<Rightarrow> int32 \<Rightarrow> nat list \<Rightarrow> vlog \<Rightarrow> int32 \<Rightarrow> bool \<Rightarrow> bool \<Rightarrow> vlog \<times> int32 \<times> bool \<times> bool" where
  "set_exact_levels pattern log_level [] st result found found_exact =
     (st, result, found, found_exact)"
| "set_exact_levels pattern log_level (i # is) st result found found_exact =
     (if node_pattern st i = pattern then
        set_exact_levels pattern log_level is
          (st\<lparr>infos := (infos st)[i := (infos st ! i)\<lparr>vlog_level := log_level\<rparr>]\<rparr>)
          (if found then result else node_level st i) True True
      else if \<not> found \<and> SafeFNMatch (node_pattern st i) pattern then
        set_exact_levels pattern log_level is st (node_level st i) True found_exact
      else set_exact_levels pattern log_level is st result found found_exact)"

definition site_module :: "SiteFlag \<Rightarrow> string" where
  "site_module site = (case base_name site of None \<Rightarrow> [] | Some b \<Rightarrow> take (base_len site) b)"

text \<open>The loop over the cached sites: those that match follow the new entry and
  leave the list.\<close>

fun redirect_sites :: "string \<Rightarrow> nat \<Rightarrow> nat list \<Rightarrow> (nat \<Rightarrow> SiteFlag) \<Rightarrow> nat list \<times> (nat \<Rightarrow> SiteFlag)" where
  "redirect_sites pattern info [] m = ([], m)"
| "redirect_sites pattern info (item # items) m =
     (if SafeFNMatch pattern (site_module (m item)) then
        redirect_sites pattern info items (m(item := (m item)\<lparr>level := Some info\<rparr>))
      else
        (case redirect_sites pattern info items m of (rest, m') \<Rightarrow> (item # rest, m')))"

definition add_entry :: "string \<Rightarrow> int32 \<Rightarrow> vlog \<Rightarrow> vlog" where
  "add_entry pattern log_level st =
     (let info = length (infos st);
          (rest, m) = redirect_sites pattern info (cached_site_list st) (sites st)
      in st\<lparr>infos := infos st @ [\<lparr>module_pattern = pattern, vlog_level = log_level\<rparr>],
            vmodule_list := info # vmodule_list st,
            cached_site_list := rest,
            sites := m\<rparr>)"

definition SetVLOGLevel :: "(int \<Rightarrow> int32) \<Rightarrow> string \<Rightarrow> int32 \<Rightarrow> vlog \<Rightarrow> int32 \<times> vlog" where
  "SetVLOGLevel wide pattern log_level st =
     (let st1 = (if inited_vmodule st then st else VLOG2Initializer wide st);
          (st2, result, found, found_exact) =
            set_exact_levels pattern log_level (vmodule_list st1) st1
              (int_flags st ''v'') False False
      in (result, if found_exact then st2 else add_entry pattern log_level st2))"

subsection \<open>The module of a file\<close>

definition file_base :: "string \<Rightarrow> string" where
  "file_base fname = rev (takeWhile (\<lambda>c. c \<noteq> CHR ''/'') (rev fname))"

definition base_length :: "string \<Rightarrow> nat" where
  "base_length base =
     (let n = length (takeWhile (\<lambda>c. c \<noteq> CHR ''.'') base)
      in if 4 \<le> n \<and> take 4 (drop (n - 4) base) = ''-inl'' then n - 4 else n)"

definition file_module :: "string \<Rightarrow> string" where
  "file_module fname = take (base_length (file_base fname)) (file_base fname)"

subsection \<open>A site\<close>

definition find_entry :: "vlog \<Rightarrow> string \<Rightarrow> nat option" where
  "find_entry st base = List.find (\<lambda>i. SafeFNMatch (node_pattern st i) base) (vmodule_list st)"

text \<open>\<open>InitializeVLOG3\<close>, which runs with \<open>vmodule_mutex\<close> held. The result is \<open>None\<close>
  when the code reads through a null \<open>default_level\<close>.\<close>

definition InitializeVLOG3 ::
  "(int \<Rightarrow> int32) \<Rightarrow> nat \<Rightarrow> string \<Rightarrow> string \<Rightarrow> int32 \<Rightarrow> vlog \<Rightarrow> bool option \<times> vlog" where
  "InitializeVLOG3 wide s level_default fname verbose_level st =
     (if initialized (sites st s) then
        (case level (sites st s) of
           None \<Rightarrow> (case default_level (sites st s) of
               None \<Rightarrow> None
             | Some flag \<Rightarrow> Some (sint verbose_level \<le> sint (int_flags st flag)))
         | Some i \<Rightarrow> Some (sint verbose_level \<le> sint (node_level st i)), st)
      else
        let read_vmodule_flag = inited_vmodule st;
            st1 = (if read_vmodule_flag then st else VLOG2Initializer wide st);
            base = file_base fname;
            len = base_length base;
            site_flag_value = find_entry st1 (take len base);
            site = (sites st1 s)\<lparr>
              default_level := (if site_flag_value = None then Some level_default else None),
              level := site_flag_value\<rparr>;
            listed = (site_flag_value = None \<and> base_name site = None);
            site = (if listed then site\<lparr>base_name := Some base, base_len := len\<rparr> else site);
            st2 = (if read_vmodule_flag then
                     st1\<lparr>sites := (sites st1)(s := site\<lparr>initialized := True\<rparr>),
                         cached_site_list := (if listed then s # cached_site_list st1
                                              else cached_site_list st1)\<rparr>
                   else st1)
        in (Some (case site_flag_value of
                    None \<Rightarrow> sint verbose_level \<le> sint (int_flags st1 level_default)
                  | Some i \<Rightarrow> sint verbose_level \<le> sint (node_level st1 i)), st2))"

text \<open>\<open>IsVLogOn\<close> reads \<open>level\<close>, then \<open>initialized\<close>, without the lock; other threads can
  run between the two reads, so that each of them is a step of the calling
  thread. \<open>Returned None\<close> is the read through a null pointer.\<close>

datatype pc =
    Idle
  | LevelWasNull nat int32
  | NotInitialized nat int32
  | Returned "bool option"

definition load_level :: "vlog \<Rightarrow> nat \<Rightarrow> int32 \<Rightarrow> pc" where
  "load_level st s verbose_level = (case level (sites st s) of
     Some i \<Rightarrow> Returned (Some (sint verbose_level \<le> sint (node_level st i)))
   | None \<Rightarrow> LevelWasNull s verbose_level)"

definition load_initialized :: "vlog \<Rightarrow> nat \<Rightarrow> int32 \<Rightarrow> pc" where
  "load_initialized st s verbose_level =
     (if initialized (sites st s) then
        Returned (case default_level (sites st s) of
            None \<Rightarrow> None
          | Some flag \<Rightarrow> Some (sint verbose_level \<le> sint (int_flags st flag)))
      else NotInitialized s verbose_level)"

fun advance :: "(int \<Rightarrow> int32) \<Rightarrow> (nat \<Rightarrow> string) \<Rightarrow> pc \<Rightarrow> vlog \<Rightarrow> pc \<times> vlog" where
  "advance wide file Idle st = (Idle, st)"
| "advance wide file (LevelWasNull s v) st = (load_initialized st s v, st)"
| "advance wide file (NotInitialized s v) st =
     (case InitializeVLOG3 wide s ''v'' (file s) v st of (r, st') \<Rightarrow> (Returned r, st'))"
| "advance wide file (Returned r) st = (Returned r, st)"

text \<open>The whole call when no other thread comes in between.\<close>

definition IsVLogOn ::
  "(int \<Rightarrow> int32) \<Rightarrow> (nat \<Rightarrow> string) \<Rightarrow> nat \<Rightarrow> int32 \<Rightarrow> vlog \<Rightarrow> bool option \<times> vlog" where
  "IsVLogOn wide file s verbose_level st =
     (case level (sites st s) of
        Some i \<Rightarrow> (Some (sint verbose_level \<le> sint (node_level st i)), st)
      | None \<Rightarrow>
          if initialized (sites st s) then
            (case default_level (sites st s) of
               None \<Rightarrow> None
             | Some flag \<Rightarrow> Some (sint verbose_level \<le> sint (int_flags st flag)), st)
          else InitializeVLOG3 wide s ''v'' (file s) verbose_level st)"

end
