(* ===== verification/VlogProps.thy ===== *)
theory VlogProps imports Vlog begin

text \<open>
  Correctness of verbose logging: the matcher against the meaning of a wildcard
  pattern, the invariant that ties the caches of the sites to the list of modules
  in every interleaving of the threads, what \<open>IsVLogOn\<close> and \<open>SetVLOGLevel\<close> decide,
  and the one interleaving in which a site reads through a null pointer.
\<close>

section \<open>The matcher\<close>

text \<open>A pattern matches a string that splits into one part per character of the
  pattern: anything for \<open>*\<close>, any single character for \<open>?\<close>, itself for any other.\<close>

definition part_ok :: "char \<Rightarrow> string \<Rightarrow> bool" where
  "part_ok q w \<longleftrightarrow> q = CHR ''*'' \<or> (\<exists>c. w = [c] \<and> (q = CHR ''?'' \<or> q = c))"

definition glob :: "string \<Rightarrow> string \<Rightarrow> bool" where
  "glob p s \<longleftrightarrow> (\<exists>parts. list_all2 part_ok p parts \<and> concat parts = s)"

lemma glob_Nil [simp]: "glob [] s \<longleftrightarrow> s = []"
  by (auto simp: glob_def)

lemma glob_Cons: "glob (q # p) s \<longleftrightarrow> (\<exists>w r. s = w @ r \<and> part_ok q w \<and> glob p r)"
proof
  assume "glob (q # p) s"
  then obtain parts where "list_all2 part_ok (q # p) parts" and "concat parts = s"
    by (auto simp: glob_def)
  then obtain w ws where "part_ok q w" "list_all2 part_ok p ws" "s = w @ concat ws"
    by (auto simp: list_all2_Cons1)
  then show "\<exists>w r. s = w @ r \<and> part_ok q w \<and> glob p r"
    by (auto simp: glob_def)
next
  assume "\<exists>w r. s = w @ r \<and> part_ok q w \<and> glob p r"
  then obtain w ws where "s = w @ concat ws" "part_ok q w" "list_all2 part_ok p ws"
    by (auto simp: glob_def)
  then have "list_all2 part_ok (q # p) (w # ws) \<and> concat (w # ws) = s"
    by simp
  then show "glob (q # p) s"
    unfolding glob_def by blast
qed

lemma glob_star: "glob (CHR ''*'' # p) s \<longleftrightarrow> (\<exists>w r. s = w @ r \<and> glob p r)"
  by (simp add: glob_Cons part_ok_def)

lemma glob_char:
  "q \<noteq> CHR ''*'' \<Longrightarrow>
   glob (q # p) s \<longleftrightarrow> (\<exists>c r. s = c # r \<and> (q = CHR ''?'' \<or> q = c) \<and> glob p r)"
proof -
  assume "q \<noteq> CHR ''*''"
  then have "glob (q # p) s \<longleftrightarrow> (\<exists>r c. s = [c] @ r \<and> (q = CHR ''?'' \<or> q = c) \<and> glob p r)"
    unfolding glob_Cons part_ok_def by blast
  then show ?thesis by auto
qed

lemma glob_empty: "glob p [] \<longleftrightarrow> set p \<subseteq> {CHR ''*''}"
proof (induction p)
  case (Cons q p)
  then show ?case
    by (cases "q = CHR ''*''") (simp_all add: glob_star glob_char)
qed simp

lemma split_Cons:
  "(\<exists>w r. c # s = w @ r \<and> Q r) \<longleftrightarrow> Q (c # s) \<or> (\<exists>w r. s = w @ r \<and> Q r)"
proof -
  have "(\<exists>w. c # s = w @ r) \<longleftrightarrow> r = c # s \<or> (\<exists>w. s = w @ r)" for r
    by (auto simp: Cons_eq_append_conv)
  then have "(\<exists>r. (\<exists>w. c # s = w @ r) \<and> Q r) \<longleftrightarrow> (\<exists>r. (r = c # s \<or> (\<exists>w. s = w @ r)) \<and> Q r)"
    by simp
  then show ?thesis by (auto simp del: append_eq_Cons_conv)
qed

lemma star_loop_iff:
  "star_loop p s \<longleftrightarrow> (\<exists>w r. s = w @ r \<and> r \<noteq> [] \<and> SafeFNMatch p r)"
proof (induction s)
  case (Cons c s)
  have "star_loop p (c # s) \<longleftrightarrow> SafeFNMatch p (c # s) \<or> star_loop p s"
    by (cases s) simp_all
  also have "\<dots> \<longleftrightarrow> (\<exists>w r. c # s = w @ r \<and> r \<noteq> [] \<and> SafeFNMatch p r)"
    unfolding Cons.IH split_Cons by simp
  finally show ?case .
qed simp

lemma SafeFNMatch_sound: "SafeFNMatch p s \<Longrightarrow> glob p s"
proof (induction p arbitrary: s)
  case Nil
  then show ?case by (cases s) simp_all
next
  case (Cons q p)
  show ?case
  proof (cases s)
    case Nil
    with Cons.prems show ?thesis by (simp add: glob_empty)
  next
    case (Cons c r)
    consider "q = c \<or> q = CHR ''?''" "SafeFNMatch p r" | "q = CHR ''*''" "p = []"
      | "q = CHR ''*''" "star_loop p (c # r)"
      using Cons.prems Cons by (auto split: if_splits)
    then show ?thesis
    proof cases
      case 1
      then have "part_ok q [c] \<and> glob p r"
        using Cons.IH by (auto simp: part_ok_def)
      then have "s = [c] @ r \<and> part_ok q [c] \<and> glob p r"
        using Cons by simp
      then show ?thesis
        unfolding glob_Cons by blast
    next
      case 2
      then show ?thesis by (simp add: glob_star)
    next
      case 3
      then show ?thesis
        using Cons.IH Cons by (auto simp: glob_star star_loop_iff)
    qed
  qed
qed

text \<open>Two stars at the end of a pattern are the only patterns that the code treats
  differently, and a star in the string is the only character.\<close>

definition trailing_stars :: "string \<Rightarrow> bool" where
  "trailing_stars p \<longleftrightarrow> (\<exists>q. p = q @ ''**'')"

lemma trailing_stars_Cons: "\<not> trailing_stars (q # p) \<Longrightarrow> \<not> trailing_stars p"
  by (auto simp: trailing_stars_def)

lemma only_stars:
  "set p \<subseteq> {CHR ''*''} \<Longrightarrow> \<not> trailing_stars (CHR ''*'' # p) \<Longrightarrow> p = []"
proof (cases p rule: rev_cases)
  case (snoc ys y)
  assume stars: "set p \<subseteq> {CHR ''*''}" and no: "\<not> trailing_stars (CHR ''*'' # p)"
  have "CHR ''*'' # p = replicate (Suc (length p)) (CHR ''*'')"
    using stars by (auto intro!: replicate_eqI)
  also have "\<dots> = replicate (length ys) (CHR ''*'') @ ''**''"
    using snoc by (simp add: replicate_app_Cons_same)
  finally show ?thesis
    using no by (auto simp: trailing_stars_def)
qed

lemma SafeFNMatch_complete:
  "glob p s \<Longrightarrow> \<not> trailing_stars p \<Longrightarrow> CHR ''*'' \<notin> set s \<Longrightarrow> SafeFNMatch p s"
proof (induction p arbitrary: s)
  case (Cons q p)
  note no = trailing_stars_Cons [OF Cons.prems(2)]
  show ?case
  proof (cases s)
    case Nil
    with Cons.prems only_stars [of p] show ?thesis by (auto simp: glob_empty)
  next
    case (Cons c r)
    show ?thesis
    proof (cases "q = CHR ''*''")
      case False
      with Cons Cons.prems no Cons.IH [of r] show ?thesis by (auto simp: glob_char)
    next
      case star: True
      then obtain w u where s: "c # r = w @ u" and u: "glob p u"
        using Cons.prems(1) Cons by (auto simp: glob_star)
      have "q \<noteq> c"
        using Cons.prems(3) Cons star by auto
      moreover have "p = [] \<or> star_loop p (c # r)"
      proof (cases "u = []")
        case True
        with u only_stars Cons.prems(2) star show ?thesis by (simp add: glob_empty)
      next
        case False
        have "CHR ''*'' \<notin> set u"
          using Cons.prems(3) Cons s by auto
        then show ?thesis
          using Cons.IH [OF u no] False s unfolding star_loop_iff by blast
      qed
      ultimately show ?thesis
        using star Cons by simp
    qed
  qed
qed simp

lemma SafeFNMatch_refl: "SafeFNMatch p p"
  by (induction p) simp_all

text \<open>C23. \<open>SafeFNMatch_\<close> decides the meaning of a wildcard pattern: it accepts only
  strings that the pattern stands for, and all of them unless the pattern ends with
  two stars or the string itself contains a star.\<close>

theorem SafeFNMatch_glob:
  shows "(SafeFNMatch p s \<longrightarrow> glob p s) \<and>
    (\<not> trailing_stars p \<and> CHR ''*'' \<notin> set s \<longrightarrow> SafeFNMatch p s = glob p s)"
  using SafeFNMatch_sound SafeFNMatch_complete by blast

theorem SafeFNMatch_glob_witness:
  "glob ''l?g*n*'' ''logging'' \<and> \<not> glob ''l?g*x'' ''logging''"
proof -
  have "\<not> trailing_stars ''l?g*x''"
    by (auto simp: trailing_stars_def append_eq_Cons_conv Cons_eq_append_conv)
  then show ?thesis
    using SafeFNMatch_glob [of "''l?g*n*''" "''logging''"] SafeFNMatch_glob [of "''l?g*x''" "''logging''"]
    by simp
qed

text \<open>The two restrictions are needed: the code does not match \<open>a**\<close> with \<open>a\<close>, and
  it does not match the pattern \<open>*\<close> with a text that begins with a star, which
  \<open>SetVLOGLevel\<close> passes when its argument is a wildcard.\<close>

lemma SafeFNMatch_misses:
  "glob ''a**'' ''a'' \<and> \<not> SafeFNMatch ''a**'' ''a'' \<and>
   glob ''*'' ''*_test'' \<and> \<not> SafeFNMatch ''*'' ''*_test''"
proof -
  have "list_all2 part_ok ''a**'' [''a'', '''', ''''] \<and> concat [''a'', '''', ''''] = ''a''"
    by (simp add: part_ok_def)
  moreover have "list_all2 part_ok ''*'' [''*_test''] \<and> concat [''*_test''] = ''*_test''"
    by (simp add: part_ok_def)
  ultimately have "glob ''a**'' ''a'' \<and> glob ''*'' ''*_test''"
    unfolding glob_def by blast
  then show ?thesis by simp
qed

section \<open>The caches agree with the list of modules\<close>

text \<open>What a site that has been executed follows, and what a fresh one finds.\<close>

definition site_ok :: "(nat \<Rightarrow> string) \<Rightarrow> vlog \<Rightarrow> nat \<Rightarrow> bool" where
  "site_ok file st s \<longleftrightarrow>
     (case level (sites st s) of
        Some i \<Rightarrow> initialized (sites st s) \<and> i \<in> set (vmodule_list st) \<and>
          s \<notin> set (cached_site_list st) \<and>
          SafeFNMatch (node_pattern st i) (file_module (file s))
      | None \<Rightarrow>
          if initialized (sites st s) then
            default_level (sites st s) = Some ''v'' \<and> s \<in> set (cached_site_list st) \<and>
            site_module (sites st s) = file_module (file s) \<and>
            find_entry st (file_module (file s)) = None
          else s \<notin> set (cached_site_list st) \<and> base_name (sites st s) = None)"

definition vlog_ok :: "(nat \<Rightarrow> string) \<Rightarrow> vlog \<Rightarrow> bool" where
  "vlog_ok file st \<longleftrightarrow>
     (\<forall>s. site_ok file st s) \<and> distinct (cached_site_list st) \<and>
     distinct (vmodule_list st) \<and> (\<forall>i\<in>set (vmodule_list st). i < length (infos st)) \<and>
     (inited_vmodule st \<or> (\<forall>s. \<not> initialized (sites st s)))"

lemma vlog_okD:
  assumes "vlog_ok file st"
  shows "site_ok file st s" and "distinct (cached_site_list st)" and "distinct (vmodule_list st)"
    and "i \<in> set (vmodule_list st) \<Longrightarrow> i < length (infos st)"
    and "initialized (sites st s) \<Longrightarrow> inited_vmodule st"
  using assms by (auto simp: vlog_ok_def)

lemma no_entry:
  "find_entry st m = None \<longleftrightarrow> (\<forall>i\<in>set (vmodule_list st). \<not> SafeFNMatch (node_pattern st i) m)"
  by (auto simp: find_entry_def find_None_iff)

lemma entry_found:
  "find_entry st m = Some i \<Longrightarrow> i \<in> set (vmodule_list st) \<and> SafeFNMatch (node_pattern st i) m"
  by (auto simp: find_entry_def find_Some_iff)

text \<open>Changes of levels and flags alone keep the invariant.\<close>

definition same_shape :: "vlog \<Rightarrow> vlog \<Rightarrow> bool" where
  "same_shape st st' \<longleftrightarrow>
     map module_pattern (infos st') = map module_pattern (infos st) \<and>
     vmodule_list st' = vmodule_list st \<and> cached_site_list st' = cached_site_list st \<and>
     inited_vmodule st' = inited_vmodule st \<and> sites st' = sites st"

lemma same_shape_refl [simp]: "same_shape st st"
  by (simp add: same_shape_def)

lemma same_shape_trans: "same_shape a b \<Longrightarrow> same_shape b c \<Longrightarrow> same_shape a c"
  by (simp add: same_shape_def)

lemma same_shape_pattern:
  assumes "same_shape st st'"
  shows "length (infos st') = length (infos st)"
    and "i < length (infos st) \<Longrightarrow> node_pattern st' i = node_pattern st i"
proof -
  have eq: "map module_pattern (infos st') = map module_pattern (infos st)"
    using assms by (simp add: same_shape_def)
  then show len: "length (infos st') = length (infos st)"
    by (metis length_map)
  show "node_pattern st' i = node_pattern st i" if "i < length (infos st)"
    using arg_cong [OF eq, of "\<lambda>xs. xs ! i"] that len by simp
qed

lemma find_cong: "(\<And>x. x \<in> set xs \<Longrightarrow> P x = Q x) \<Longrightarrow> List.find P xs = List.find Q xs"
  by (induction xs) auto

lemma same_shape_find:
  assumes "vlog_ok file st" and "same_shape st st'"
  shows "find_entry st' m = find_entry st m"
proof -
  have "vmodule_list st' = vmodule_list st"
    using assms(2) by (simp add: same_shape_def)
  then show ?thesis
    unfolding find_entry_def
    using vlog_okD(4) [OF assms(1)] same_shape_pattern(2) [OF assms(2)] by (auto intro!: find_cong)
qed

lemma same_shape_ok:
  assumes ok: "vlog_ok file st" and same: "same_shape st st'"
  shows "vlog_ok file st'"
proof -
  have "site_ok file st' s" for s
    using vlog_okD(1) [OF ok, of s] same_shape_find [OF ok same] same_shape_pattern(2) [OF same]
      vlog_okD(4) [OF ok] same
    by (auto simp: site_ok_def same_shape_def split: option.splits)
  then show ?thesis
    using ok same same_shape_pattern(1) [OF same] by (simp add: vlog_ok_def same_shape_def)
qed

subsection \<open>Reading the flag\<close>

lemma VLOG2Initializer_ok:
  assumes ok: "vlog_ok file st" and "\<not> inited_vmodule st"
  shows "vlog_ok file (VLOG2Initializer wide st)"
proof -
  have "\<not> initialized (sites st s)" for s
    using vlog_okD(5) [OF ok] assms(2) by blast
  then have "site_ok file (VLOG2Initializer wide st) s" for s
    using vlog_okD(1) [OF ok, of s]
    by (auto simp: site_ok_def VLOG2Initializer_def Let_def split: option.splits)
  moreover have "distinct (vmodule_list (VLOG2Initializer wide st))"
    using vlog_okD(3,4) [OF ok] by (fastforce simp: VLOG2Initializer_def Let_def)
  ultimately show ?thesis
    using vlog_okD(2,4) [OF ok] by (fastforce simp: vlog_ok_def VLOG2Initializer_def Let_def)
qed

definition initialized_list :: "(int \<Rightarrow> int32) \<Rightarrow> vlog \<Rightarrow> vlog" where
  "initialized_list wide st = (if inited_vmodule st then st else VLOG2Initializer wide st)"

lemma initialized_list_ok: "vlog_ok file st \<Longrightarrow> vlog_ok file (initialized_list wide st)"
  by (simp add: initialized_list_def VLOG2Initializer_ok)

lemma initialized_list_simps [simp]:
  "inited_vmodule (initialized_list wide st)"
  "sites (initialized_list wide st) = sites st"
  "int_flags (initialized_list wide st) = int_flags st"
  "cached_site_list (initialized_list wide st) = cached_site_list st"
  "inited_vmodule st \<Longrightarrow> initialized_list wide st = st"
  "initialized_list wide (initialized_list wide st) = initialized_list wide st"
  by (simp_all add: initialized_list_def VLOG2Initializer_def Let_def)

lemma initialized_list_level:
  assumes ok: "vlog_ok file st" and "level (sites st s) = Some i"
  shows "initialized_list wide st = st"
  using vlog_okD(1) [OF ok, of s] vlog_okD(5) [OF ok, of s] assms(2)
  by (auto simp: site_ok_def initialized_list_def)

subsection \<open>A call of \<open>IsVLogOn\<close>\<close>

text \<open>The level that decides for a site: the entry it follows, else the first entry that
  matches its module, else the flag \<open>--v\<close>.\<close>

definition site_level :: "(int \<Rightarrow> int32) \<Rightarrow> (nat \<Rightarrow> string) \<Rightarrow> vlog \<Rightarrow> nat \<Rightarrow> int32" where
  "site_level wide file st s =
     (case level (sites st s) of
        Some i \<Rightarrow> node_level st i
      | None \<Rightarrow>
          (case find_entry (initialized_list wide st) (file_module (file s)) of
             Some i \<Rightarrow> node_level (initialized_list wide st) i
           | None \<Rightarrow> int_flags st ''v''))"

lemma take_base [simp]: "take (base_length (file_base f)) (file_base f) = file_module f"
  by (simp add: file_module_def)

text \<open>The two cases of \<open>InitializeVLOG3\<close> for a site that is not initialized.\<close>

definition cached_site :: "string \<Rightarrow> vlog \<Rightarrow> nat \<Rightarrow> vlog" where
  "cached_site fname st s =
     (case find_entry st (file_module fname) of
        Some i \<Rightarrow> st\<lparr>sites := (sites st)(s := (sites st s)\<lparr>default_level := None,
            level := Some i, initialized := True\<rparr>)\<rparr>
      | None \<Rightarrow> st\<lparr>sites := (sites st)(s := (sites st s)\<lparr>default_level := Some ''v'',
            level := None, base_name := Some (file_base fname),
            base_len := base_length (file_base fname), initialized := True\<rparr>),
          cached_site_list := s # cached_site_list st\<rparr>)"

lemma InitializeVLOG3_fresh:
  assumes ok: "vlog_ok file st" and fresh: "\<not> initialized (sites st s)"
  shows "InitializeVLOG3 wide s ''v'' (file s) v st =
    (Some (sint v \<le> sint (site_level wide file st s)),
     if inited_vmodule st then cached_site (file s) st s else initialized_list wide st)"
proof -
  have site: "level (sites st s) = None" "base_name (sites st s) = None"
    using vlog_okD(1) [OF ok, of s] fresh by (auto simp: site_ok_def split: option.splits)
  show ?thesis
  proof (cases "inited_vmodule st")
    case True
    with site fresh show ?thesis
      by (cases "find_entry st (file_module (file s))")
        (simp_all add: InitializeVLOG3_def Let_def site_level_def cached_site_def)
  next
    case False
    have "initialized_list wide st = VLOG2Initializer wide st" 
      using False by (simp add: initialized_list_def)
    then have "VLOG2Initializer wide st = initialized_list wide st" by simp
    with False site fresh show ?thesis
      by (cases "find_entry (initialized_list wide st) (file_module (file s))")
        (simp_all add: InitializeVLOG3_def Let_def site_level_def)
  qed
qed

lemma InitializeVLOG3_initialized:
  assumes ok: "vlog_ok file st" and init: "initialized (sites st s)"
  shows "InitializeVLOG3 wide s ''v'' (file s) v st =
    (Some (sint v \<le> sint (site_level wide file st s)), st)"
proof -
  have "inited_vmodule st"
    using vlog_okD(5) [OF ok init] .
  then show ?thesis
    using vlog_okD(1) [OF ok, of s] init
    by (auto simp: InitializeVLOG3_def site_level_def site_ok_def split: option.splits)
qed

lemma cached_site_find [simp]: "find_entry (cached_site f st s) m = find_entry st m"
  by (auto simp: cached_site_def find_entry_def split: option.splits)

lemma cached_site_simps [simp]:
  "infos (cached_site f st s) = infos st"
  "vmodule_list (cached_site f st s) = vmodule_list st"
  "inited_vmodule (cached_site f st s) = inited_vmodule st"
  "int_flags (cached_site f st s) = int_flags st"
  "t \<noteq> s \<Longrightarrow> sites (cached_site f st s) t = sites st t"
  by (simp_all add: cached_site_def split: option.splits)

lemma cached_site_ok:
  assumes ok: "vlog_ok file st" and fresh: "\<not> initialized (sites st s)" and "inited_vmodule st"
  shows "vlog_ok file (cached_site (file s) st s)"
proof -
  have new: "s \<notin> set (cached_site_list st)"
    using vlog_okD(1) [OF ok, of s] fresh by (auto simp: site_ok_def split: option.splits)
  have "site_ok file (cached_site (file s) st s) t" for t
  proof (cases "t = s")
    case True
    have "find_entry st (file_module (file s)) = Some i \<Longrightarrow>
        i \<in> set (vmodule_list st) \<and> SafeFNMatch (node_pattern st i) (file_module (file s))" for i
      using entry_found by blast
    with True new show ?thesis
      by (cases "find_entry st (file_module (file s))")
        (simp_all add: site_ok_def cached_site_def site_module_def find_entry_def)
  next
    case False
    have "set (cached_site_list (cached_site (file s) st s)) - {s} = set (cached_site_list st) - {s}"
      using new by (auto simp: cached_site_def split: option.splits)
    then have "t \<in> set (cached_site_list (cached_site (file s) st s)) \<longleftrightarrow> t \<in> set (cached_site_list st)"
      using False by blast
    moreover have "sites (cached_site (file s) st s) t = sites st t"
      using False by simp
    ultimately show ?thesis
      using vlog_okD(1) [OF ok, of t] by (auto simp: site_ok_def split: option.splits)
  qed
  moreover have "distinct (cached_site_list (cached_site (file s) st s))"
    using new vlog_okD(2) [OF ok] by (auto simp: cached_site_def split: option.splits)
  ultimately show ?thesis
    using ok assms(3) by (simp add: vlog_ok_def)
qed

subsection \<open>A call of \<open>SetVLOGLevel\<close>\<close>

text \<open>What the loop over the entries computes: the level of the first entry that
  matches the argument, and the new level in every entry with this very pattern.\<close>

lemma same_shape_set_level:
  "same_shape st (st\<lparr>infos := (infos st)[i := (infos st ! i)\<lparr>vlog_level := l\<rparr>]\<rparr>)"
proof -
  have "map module_pattern ((infos st)[i := (infos st ! i)\<lparr>vlog_level := l\<rparr>]) =
      map module_pattern ((infos st)[i := infos st ! i])"
    by (simp only: map_update) simp
  then show ?thesis
    by (simp add: same_shape_def)
qed

definition exact_entry :: "vlog \<Rightarrow> string \<Rightarrow> nat list \<Rightarrow> bool" where
  "exact_entry st pattern is \<longleftrightarrow> (\<exists>i\<in>set is. node_pattern st i = pattern)"

definition first_level :: "vlog \<Rightarrow> string \<Rightarrow> nat list \<Rightarrow> int32 \<Rightarrow> int32" where
  "first_level st pattern is other =
     (case List.find (\<lambda>i. SafeFNMatch (node_pattern st i) pattern) is of
        Some i \<Rightarrow> node_level st i | None \<Rightarrow> other)"

lemma set_exact_levels_loop:
  assumes "set_exact_levels pattern l is st result found exact = (st', result', found', exact')"
    and "distinct is" and "\<forall>i\<in>set is. i < length (infos st)"
  shows "same_shape st st' \<and> int_flags st' = int_flags st \<and>
    (\<forall>i. node_level st' i = (if i \<in> set is \<and> node_pattern st i = pattern then l else node_level st i)) \<and>
    exact' = (exact \<or> exact_entry st pattern is) \<and>
    result' = (if found then result else first_level st pattern is result)"
  using assms
proof (induction pattern l "is" st result found exact rule: set_exact_levels.induct)
  case (1 pattern l st result found exact)
  then show ?case by (simp add: exact_entry_def first_level_def)
next
  case (2 pattern l i "is" st result found exact)
  let ?st = "st\<lparr>infos := (infos st)[i := (infos st ! i)\<lparr>vlog_level := l\<rparr>]\<rparr>"
  have i: "i < length (infos st)" "i \<notin> set is"
    using 2(5,6) by simp_all
  consider (exact) "node_pattern st i = pattern"
    | (wild) "node_pattern st i \<noteq> pattern" "\<not> found" "SafeFNMatch (node_pattern st i) pattern"
    | (other) "node_pattern st i \<noteq> pattern" "\<not> (\<not> found \<and> SafeFNMatch (node_pattern st i) pattern)"
    by blast
  then show ?case
  proof cases
    case exact
    have IH: "same_shape ?st st' \<and> int_flags st' = int_flags ?st \<and>
        (\<forall>j. node_level st' j = (if j \<in> set is \<and> node_pattern ?st j = pattern then l else node_level ?st j)) \<and>
        exact' = (True \<or> exact_entry ?st pattern is) \<and>
        result' = (if found then result else node_level st i)"
      using 2(1) [OF exact] 2(4-6) exact by simp
    have "node_pattern ?st j = node_pattern st j" for j
      using i by (cases "i = j") simp_all
    then have "\<forall>j. node_level st' j =
        (if j \<in> set (i # is) \<and> node_pattern st j = pattern then l else node_level st j)"
      using IH i exact by (simp add: nth_list_update)
    moreover have "same_shape st st'"
      using IH same_shape_set_level same_shape_trans by blast
    ultimately show ?thesis
      using IH exact by (simp add: exact_entry_def first_level_def SafeFNMatch_refl)
  next
    case wild
    then show ?thesis
      using 2(2) [OF wild(1)] 2(4-6) i
      by (simp add: exact_entry_def first_level_def)
  next
    case other
    have nowild: "\<not> found \<longrightarrow> \<not> SafeFNMatch (node_pattern st i) pattern"
      using other by blast
    show ?thesis
      using 2(3) [OF other] 2(4-6) i other nowild
      by (simp add: exact_entry_def first_level_def)
  qed
qed

text \<open>The loop over the cached sites.\<close>

lemma redirect_sites_loop:
  assumes "redirect_sites pattern info items m = (rest, m')" and "distinct items"
  shows "rest = filter (\<lambda>s. \<not> SafeFNMatch pattern (site_module (m s))) items \<and>
    (\<forall>s. m' s = (if s \<in> set items \<and> SafeFNMatch pattern (site_module (m s))
                 then (m s)\<lparr>level := Some info\<rparr> else m s))"
  using assms
proof (induction pattern info items m arbitrary: rest m' rule: redirect_sites.induct)
  case (2 pattern info item items m)
  show ?case
  proof (cases "SafeFNMatch pattern (site_module (m item))")
    case True
    let ?m = "m(item := (m item)\<lparr>level := Some info\<rparr>)"
    have "item \<notin> set items" using 2(4) by simp
    then have same: "filter (\<lambda>s. \<not> SafeFNMatch pattern (site_module (?m s))) items =
        filter (\<lambda>s. \<not> SafeFNMatch pattern (site_module (m s))) items"
      by (auto intro!: filter_cong)
    have call: "redirect_sites pattern info items ?m = (rest, m')" and "distinct items"
      using 2(3,4) True by simp_all
    have IH: "rest = filter (\<lambda>s. \<not> SafeFNMatch pattern (site_module (?m s))) items \<and>
        (\<forall>s. m' s = (if s \<in> set items \<and> SafeFNMatch pattern (site_module (?m s))
                     then (?m s)\<lparr>level := Some info\<rparr> else ?m s))"
      using 2(1) [OF True call] \<open>distinct items\<close> .
    have "m' s = (if s \<in> set (item # items) \<and> SafeFNMatch pattern (site_module (m s))
        then (m s)\<lparr>level := Some info\<rparr> else m s)" for s
      using IH \<open>item \<notin> set items\<close> True by (cases "s = item") simp_all
    then show ?thesis
      using IH same True by simp
  next
    case False
    then obtain r where "redirect_sites pattern info items m = (r, m')" and "rest = item # r"
      using 2(3) by (auto split: prod.splits)
    with 2(2) [OF False, of r m'] 2(4) False show ?thesis by auto
  qed
qed simp

lemma add_entry_sites:
  assumes ok: "vlog_ok file st"
  shows "sites (add_entry pattern l st) s =
    (if initialized (sites st s) \<and> level (sites st s) = None \<and>
        SafeFNMatch pattern (file_module (file s))
     then (sites st s)\<lparr>level := Some (length (infos st))\<rparr> else sites st s)"
    and "cached_site_list (add_entry pattern l st) =
      filter (\<lambda>s. \<not> SafeFNMatch pattern (file_module (file s))) (cached_site_list st)"
proof -
  obtain rest m where eq: "redirect_sites pattern (length (infos st)) (cached_site_list st) (sites st) = (rest, m)"
    by (cases "redirect_sites pattern (length (infos st)) (cached_site_list st) (sites st)")
  note loop = redirect_sites_loop [OF eq vlog_okD(2) [OF ok]]
  have module: "site_module (sites st s) = file_module (file s)" if "s \<in> set (cached_site_list st)" for s
    using vlog_okD(1) [OF ok, of s] that by (auto simp: site_ok_def split: option.splits if_splits)
  have cached: "s \<in> set (cached_site_list st) \<longleftrightarrow> initialized (sites st s) \<and> level (sites st s) = None"
    using vlog_okD(1) [OF ok, of s] by (auto simp: site_ok_def split: option.splits if_splits)
  show "sites (add_entry pattern l st) s =
    (if initialized (sites st s) \<and> level (sites st s) = None \<and>
        SafeFNMatch pattern (file_module (file s))
     then (sites st s)\<lparr>level := Some (length (infos st))\<rparr> else sites st s)"
    using loop module [of s] cached by (auto simp: add_entry_def eq)
  have "filter (\<lambda>s. \<not> SafeFNMatch pattern (site_module (sites st s))) (cached_site_list st) =
      filter (\<lambda>s. \<not> SafeFNMatch pattern (file_module (file s))) (cached_site_list st)"
    using module by (auto intro!: filter_cong)
  then show "cached_site_list (add_entry pattern l st) =
      filter (\<lambda>s. \<not> SafeFNMatch pattern (file_module (file s))) (cached_site_list st)"
    using loop by (simp add: add_entry_def eq)
qed

lemma add_entry_simps [simp]:
  "infos (add_entry pattern l st) = infos st @ [\<lparr>module_pattern = pattern, vlog_level = l\<rparr>]"
  "vmodule_list (add_entry pattern l st) = length (infos st) # vmodule_list st"
  "inited_vmodule (add_entry pattern l st) = inited_vmodule st"
  "int_flags (add_entry pattern l st) = int_flags st"
  by (simp_all add: add_entry_def Let_def split: prod.splits)

lemma add_entry_find:
  assumes ok: "vlog_ok file st"
  shows "find_entry (add_entry pattern l st) m =
    (if SafeFNMatch pattern m then Some (length (infos st)) else find_entry st m)"
proof -
  have "List.find (\<lambda>i. SafeFNMatch (node_pattern (add_entry pattern l st) i) m) (vmodule_list st) =
      find_entry st m"
    unfolding find_entry_def using vlog_okD(4) [OF ok] by (auto simp: nth_append intro!: find_cong)
  then show ?thesis
    by (simp add: find_entry_def)
qed

lemma add_entry_ok:
  assumes ok: "vlog_ok file st"
  shows "vlog_ok file (add_entry pattern l st)"
proof -
  have bound: "i < length (infos st)" if "i \<in> set (vmodule_list st)" for i
    using vlog_okD(4) [OF ok that] .
  have "site_ok file (add_entry pattern l st) s" for s
    using vlog_okD(1) [OF ok, of s] bound
    by (auto simp: site_ok_def add_entry_sites [OF ok] add_entry_find [OF ok] nth_append site_module_def
        split: option.splits if_splits)
  moreover have "length (infos st) \<notin> set (vmodule_list st)"
    using bound by blast
  ultimately show ?thesis
    using ok bound by (fastforce simp: vlog_ok_def add_entry_sites [OF ok])
qed

text \<open>The list that \<open>SetVLOGLevel\<close> works on, after the loop over its entries.\<close>

lemma SetVLOGLevel_loop:
  assumes ok: "vlog_ok file st" and call: "SetVLOGLevel wide pattern l st = (r, st')"
  obtains st2 where "same_shape (initialized_list wide st) st2" and "int_flags st2 = int_flags st"
    and "\<And>i. node_level st2 i = (if i \<in> set (vmodule_list st2) \<and> node_pattern st2 i = pattern
                                then l else node_level (initialized_list wide st) i)"
    and "r = first_level (initialized_list wide st) pattern
               (vmodule_list (initialized_list wide st)) (int_flags st ''v'')"
    and "st' = (if exact_entry st2 pattern (vmodule_list st2) then st2 else add_entry pattern l st2)"
proof -
  let ?st = "initialized_list wide st"
  obtain st2 r2 f e where loop: "set_exact_levels pattern l (vmodule_list ?st) ?st
      (int_flags st ''v'') False False = (st2, r2, f, e)"
    by (cases "set_exact_levels pattern l (vmodule_list ?st) ?st (int_flags st ''v'') False False")
  note ok1 = initialized_list_ok [OF ok]
  have bound: "\<forall>i\<in>set (vmodule_list ?st). i < length (infos ?st)"
    using vlog_okD(4) [OF ok1] by blast
  note facts = set_exact_levels_loop [OF loop vlog_okD(3) [OF ok1] bound]
  have shape: "same_shape ?st st2"
    using facts by blast
  have lists: "vmodule_list st2 = vmodule_list ?st"
    using shape by (simp add: same_shape_def)
  have patterns: "node_pattern st2 i = node_pattern ?st i" if "i \<in> set (vmodule_list ?st)" for i
    using same_shape_pattern(2) [OF shape] bound that by blast
  have exact: "exact_entry st2 pattern (vmodule_list st2) = exact_entry ?st pattern (vmodule_list ?st)"
    using patterns by (auto simp: exact_entry_def lists)
  show thesis
  proof (rule that [of st2])
    show "node_level st2 i = (if i \<in> set (vmodule_list st2) \<and> node_pattern st2 i = pattern
        then l else node_level ?st i)" for i
      using facts patterns [of i] by (auto simp: lists)
    show "st' = (if exact_entry st2 pattern (vmodule_list st2) then st2 else add_entry pattern l st2)"
      using call loop facts exact
      by (auto simp: SetVLOGLevel_def Let_def initialized_list_def split: if_splits)
    show "r = first_level ?st pattern (vmodule_list ?st) (int_flags st ''v'')"
      using call loop facts by (auto simp: SetVLOGLevel_def Let_def initialized_list_def split: if_splits)
  qed (use shape facts in simp_all)
qed

lemma SetVLOGLevel_ok:
  assumes ok: "vlog_ok file st" and call: "SetVLOGLevel wide pattern l st = (r, st')"
  shows "vlog_ok file st'"
proof -
  obtain st2 where "same_shape (initialized_list wide st) st2"
    and st': "st' = (if exact_entry st2 pattern (vmodule_list st2) then st2 else add_entry pattern l st2)"
    using SetVLOGLevel_loop [OF ok call] by metis
  then have "vlog_ok file st2"
    using same_shape_ok initialized_list_ok [OF ok] by blast
  then show ?thesis
    using st' add_entry_ok by simp
qed

section \<open>Threads\<close>

text \<open>Any number of threads: a thread starts a call of \<open>IsVLogOn\<close> at a site, takes its
  next step, sets a level, or somebody sets one of the two flags.\<close>

type_synonym vlog_config = "(nat \<Rightarrow> pc) \<times> vlog"

inductive vlog_step :: "(int \<Rightarrow> int32) \<Rightarrow> (nat \<Rightarrow> string) \<Rightarrow> vlog_config \<Rightarrow> vlog_config \<Rightarrow> bool"
  for wide :: "int \<Rightarrow> int32" and site_file :: "nat \<Rightarrow> string" where
  call: "pcs t = Idle \<or> pcs t = Returned (Some b) \<Longrightarrow>
    vlog_step wide site_file (pcs, st) (pcs(t := load_level st s v), st)"
| advance: "advance wide site_file (pcs t) st = (pc', st') \<Longrightarrow>
    vlog_step wide site_file (pcs, st) (pcs(t := pc'), st')"
| set_level: "SetVLOGLevel wide pattern l st = (r, st') \<Longrightarrow>
    vlog_step wide site_file (pcs, st) (pcs, st')"
| set_flag: "vlog_step wide site_file (pcs, st) (pcs, st\<lparr>int_flags := (int_flags st)(name := l)\<rparr>)"
| set_vmodule: "vlog_step wide site_file (pcs, st) (pcs, st\<lparr>FLAGS_vmodule := val\<rparr>)"

definition vlog_start :: "(string \<Rightarrow> int32) \<Rightarrow> string \<Rightarrow> vlog" where
  "vlog_start flags vmodule = \<lparr>infos = [], vmodule_list = [], cached_site_list = [],
     inited_vmodule = False, sites = (\<lambda>s. nglog_vlog_site), int_flags = flags, FLAGS_vmodule = vmodule\<rparr>"

definition vlog_reachable ::
  "(int \<Rightarrow> int32) \<Rightarrow> (nat \<Rightarrow> string) \<Rightarrow> vlog_config \<Rightarrow> bool" where
  "vlog_reachable wide site_file c \<longleftrightarrow>
     (\<exists>flags vmodule. (vlog_step wide site_file)\<^sup>*\<^sup>* (\<lambda>t. Idle, vlog_start flags vmodule) c)"

lemma vlog_start_ok: "vlog_ok f (vlog_start flags vmodule)"
  by (simp add: vlog_ok_def vlog_start_def site_ok_def nglog_vlog_site_def)

lemma InitializeVLOG3_ok:
  assumes ok: "vlog_ok f st" and call: "InitializeVLOG3 wide s ''v'' (f s) v st = (r, st')"
  shows "vlog_ok f st'"
proof (cases "initialized (sites st s)")
  case True
  then show ?thesis
    using InitializeVLOG3_initialized [OF ok True] call ok by simp
next
  case False
  then show ?thesis
    using InitializeVLOG3_fresh [OF ok False] call ok cached_site_ok [OF ok False]
      initialized_list_ok [OF ok]
    by (auto split: if_splits)
qed

lemma vlog_step_ok: "vlog_step wide f c c' \<Longrightarrow> vlog_ok f (snd c) \<Longrightarrow> vlog_ok f (snd c')"
proof (induction rule: vlog_step.induct)
  case (advance pcs t st pc' st')
  then show ?case
    using InitializeVLOG3_ok by (cases "pcs t") (auto split: prod.splits)
next
  case (set_flag pcs st name l)
  have "same_shape st (st\<lparr>int_flags := (int_flags st)(name := l)\<rparr>)"
    by (simp add: same_shape_def)
  with set_flag show ?case
    using same_shape_ok by fastforce
next
  case (set_vmodule pcs st val)
  have "same_shape st (st\<lparr>FLAGS_vmodule := val\<rparr>)"
    by (simp add: same_shape_def)
  with set_vmodule show ?case
    using same_shape_ok by fastforce
qed (auto dest: SetVLOGLevel_ok)

lemma vlog_reachable_ok:
  assumes "vlog_reachable wide f (pcs, st)"
  shows "vlog_ok f st"
proof -
  have "(vlog_step wide f)\<^sup>*\<^sup>* c c' \<Longrightarrow> vlog_ok f (snd c) \<Longrightarrow> vlog_ok f (snd c')" for c c'
    by (induction rule: rtranclp_induct) (auto dest: vlog_step_ok)
  then show ?thesis
    using assms vlog_start_ok by (fastforce simp: vlog_reachable_def)
qed

lemma vlog_reachable_step:
  "vlog_reachable wide f c \<Longrightarrow> vlog_step wide f c c' \<Longrightarrow> vlog_reachable wide f c'"
  unfolding vlog_reachable_def by (meson rtranclp.rtrancl_into_rtrancl)

lemma vlog_reachable_start: "vlog_reachable wide f (\<lambda>t. Idle, vlog_start flags vmodule)"
  unfolding vlog_reachable_def by blast

section \<open>What the calls decide\<close>

text \<open>\<open>IsVLogOn\<close> is its steps with no other thread in between.\<close>

lemma IsVLogOn_steps:
  "IsVLogOn wide f s v st =
    (case load_level st s v of
       Returned b \<Rightarrow> (b, st)
     | pc1 \<Rightarrow> (case advance wide f pc1 st of
          (Returned b, st1) \<Rightarrow> (b, st1)
        | (pc2, st1) \<Rightarrow> (case advance wide f pc2 st1 of
             (Returned b, st2) \<Rightarrow> (b, st2)
           | (pc3, st2) \<Rightarrow> (None, st2))))"
  by (auto simp: IsVLogOn_def load_level_def load_initialized_def split: option.splits prod.splits)

lemma site_level_initialized_list:
  assumes ok: "vlog_ok f st"
  shows "site_level wide f (initialized_list wide st) t = site_level wide f st t"
  using initialized_list_level [OF ok, of t]
  by (auto simp: site_level_def split: option.splits)

lemma site_level_cached_site:
  assumes ok: "vlog_ok f st" and fresh: "\<not> initialized (sites st s)" and init: "inited_vmodule st"
  shows "site_level wide f (cached_site (f s) st s) t = site_level wide f st t"
proof (cases "t = s")
  case True
  have "level (sites st s) = None"
    using vlog_okD(1) [OF ok, of s] fresh by (auto simp: site_ok_def split: option.splits)
  moreover have "level (sites (cached_site (f s) st s) s) = find_entry st (file_module (f s))"
    by (simp add: cached_site_def split: option.splits)
  ultimately show ?thesis
    using True init by (simp add: site_level_def split: option.splits)
next
  case False
  then show ?thesis
    using init by (simp add: site_level_def split: option.splits)
qed

lemma IsVLogOn_call:
  assumes ok: "vlog_ok f st"
  obtains st' where "IsVLogOn wide f s v st = (Some (sint v \<le> sint (site_level wide f st s)), st')"
    and "\<And>t. site_level wide f st' t = site_level wide f st t"
proof (cases "initialized (sites st s)")
  case True
  have "inited_vmodule st"
    using vlog_okD(5) [OF ok True] .
  then have "IsVLogOn wide f s v st = (Some (sint v \<le> sint (site_level wide f st s)), st)"
    using vlog_okD(1) [OF ok, of s] True
    by (auto simp: IsVLogOn_def site_level_def site_ok_def split: option.splits)
  then show thesis
    using that by blast
next
  case False
  have "level (sites st s) = None"
    using vlog_okD(1) [OF ok, of s] False by (auto simp: site_ok_def split: option.splits)
  then have "IsVLogOn wide f s v st = InitializeVLOG3 wide s ''v'' (f s) v st"
    using False by (simp add: IsVLogOn_def)
  then show thesis
    using InitializeVLOG3_fresh [OF ok False] site_level_initialized_list [OF ok]
      site_level_cached_site [OF ok False] that
    by (cases "inited_vmodule st") auto
qed

text \<open>C20. In every reachable interleaving the caches agree with the list of modules: a
  site that follows an entry matches its pattern; an initialized site that follows
  none has a default flag, is in the list of sites that \<open>SetVLOGLevel\<close> searches, and no
  entry matches it; the other sites are not in that list.\<close>

theorem vlog_invariant:
  assumes "vlog_reachable wide site_file (pcs, st)"
  shows "vlog_ok site_file st"
  using assms by (rule vlog_reachable_ok)

theorem vlog_invariant_witness:
  "vlog_ok (\<lambda>s. ''dir/a.cc'')
     (snd (SetVLOGLevel (\<lambda>n. 0) ''a'' 2 (vlog_start (\<lambda>n. 0) ''b=1,a*=3'')))"
proof -
  let ?st = "vlog_start (\<lambda>n. 0) ''b=1,a*=3''"
  have "vlog_step (\<lambda>n. 0) (\<lambda>s. ''dir/a.cc'') (\<lambda>t. Idle, ?st) (\<lambda>t. Idle, snd (SetVLOGLevel (\<lambda>n. 0) ''a'' 2 ?st))"
    by (rule vlog_step.set_level) (simp add: prod_eq_iff)
  then show ?thesis
    using vlog_invariant vlog_reachable_step vlog_reachable_start by blast
qed

text \<open>An undisturbed first execution of a site.\<close>

lemma site_executed:
  assumes reach: "vlog_reachable wide f (pcs, st)" and idle: "pcs t = Idle"
    and fresh: "level (sites st s) = None" "\<not> initialized (sites st s)"
  shows "vlog_reachable wide f
    (pcs(t := Returned (fst (InitializeVLOG3 wide s ''v'' (f s) v st))),
     snd (InitializeVLOG3 wide s ''v'' (f s) v st))"
proof -
  have "vlog_step wide f (pcs, st) (pcs(t := load_level st s v), st)"
    using idle by (auto intro: vlog_step.call)
  then have "vlog_reachable wide f (pcs(t := LevelWasNull s v), st)"
    using reach vlog_reachable_step fresh by (fastforce simp: load_level_def)
  moreover have "vlog_step wide f (pcs(t := LevelWasNull s v), st)
      ((pcs(t := LevelWasNull s v))(t := NotInitialized s v), st)"
    using fresh by (intro vlog_step.advance) (simp add: load_initialized_def)
  ultimately have "vlog_reachable wide f (pcs(t := NotInitialized s v), st)"
    using vlog_reachable_step by fastforce
  moreover have "vlog_step wide f (pcs(t := NotInitialized s v), st)
      ((pcs(t := NotInitialized s v))(t := Returned (fst (InitializeVLOG3 wide s ''v'' (f s) v st))),
       snd (InitializeVLOG3 wide s ''v'' (f s) v st))"
    by (rule vlog_step.advance) (simp split: prod.splits)
  ultimately show ?thesis
    using vlog_reachable_step by fastforce
qed

text \<open>A list with two entries and a site that follows none of them.\<close>

definition sample_vlog :: vlog where
  "sample_vlog =
     snd (InitializeVLOG3 (\<lambda>n. 0) 0 ''v'' ''dir/a-inl.cc'' 1
       (snd (SetVLOGLevel (\<lambda>n. 0) ''b'' 1 (vlog_start (\<lambda>n. 0) ''x=4,c*=-3 ''))))"

lemma sample_vlog_reachable:
  "\<exists>pcs. vlog_reachable (\<lambda>n. 0) (\<lambda>s. ''dir/a-inl.cc'') (pcs, sample_vlog)"
proof -
  let ?file = "\<lambda>s::nat. ''dir/a-inl.cc''" and ?start = "vlog_start (\<lambda>n. 0) ''x=4,c*=-3 ''"
  let ?st = "snd (SetVLOGLevel (\<lambda>n. 0) ''b'' 1 ?start)"
  have "vlog_step (\<lambda>n. 0) ?file (\<lambda>t. Idle, ?start) (\<lambda>t. Idle, ?st)"
    by (rule vlog_step.set_level) (simp add: prod_eq_iff)
  then have "vlog_reachable (\<lambda>n. 0) ?file (\<lambda>t. Idle, ?st)"
    using vlog_reachable_start vlog_reachable_step by blast
  moreover have "level (sites ?st 0) = None \<and> \<not> initialized (sites ?st 0)"
    by code_simp
  ultimately show ?thesis
    using site_executed [of "\<lambda>n. 0" ?file "\<lambda>t. Idle" ?st 0 0 1] by (auto simp: sample_vlog_def)
qed

text \<open>C21. A call of \<open>IsVLogOn\<close> that is not interrupted never reads through a null
  pointer and compares with the level that controls the site: the entry that the
  site follows, else the first entry that matches its module, else \<open>--v\<close>; and it
  changes that level for no site.\<close>

theorem IsVLogOn_decides:
  assumes "vlog_reachable wide site_file (pcs, st)"
    and "IsVLogOn wide site_file s verbose_level st = (r, st')"
  shows "r = Some (sint verbose_level \<le> sint (site_level wide site_file st s)) \<and>
    (\<forall>t. site_level wide site_file st' t = site_level wide site_file st t)"
  using IsVLogOn_call [OF vlog_reachable_ok [OF assms(1)], of wide s verbose_level] assms(2)
  by (metis prod.inject)

text \<open>The sites that have been executed, after a call of \<open>SetVLOGLevel\<close>.\<close>

lemma SetVLOGLevel_follower:
  assumes ok: "vlog_ok f st" and call: "SetVLOGLevel wide pattern l st = (r, st')"
    and level: "level (sites st s) = Some i"
  shows "site_level wide f st' s = (if node_pattern st i = pattern then l else node_level st i)"
proof -
  have list: "initialized_list wide st = st"
    using initialized_list_level [OF ok level] .
  obtain st2 where shape: "same_shape st st2"
    and levels: "\<And>i. node_level st2 i = (if i \<in> set (vmodule_list st2) \<and> node_pattern st2 i = pattern
                                then l else node_level st i)"
    and st': "st' = (if exact_entry st2 pattern (vmodule_list st2) then st2 else add_entry pattern l st2)"
    using SetVLOGLevel_loop [OF ok call] unfolding list by metis
  have ok2: "vlog_ok f st2"
    using same_shape_ok [OF ok shape] .
  have i: "i \<in> set (vmodule_list st)" "i < length (infos st)"
    using vlog_okD(1) [OF ok, of s] vlog_okD(4) [OF ok] level by (auto simp: site_ok_def)
  have same: "vmodule_list st2 = vmodule_list st" "sites st2 = sites st"
    "length (infos st2) = length (infos st)" "node_pattern st2 i = node_pattern st i"
    using shape same_shape_pattern [OF shape] i by (simp_all add: same_shape_def)
  then have "level (sites st' s) = Some i \<and> node_level st' i = node_level st2 i"
    using level i by (simp add: st' add_entry_sites [OF ok2] nth_append)
  then show ?thesis
    using levels [of i] i same by (simp add: site_level_def)
qed

lemma SetVLOGLevel_other:
  assumes ok: "vlog_ok f st" and call: "SetVLOGLevel wide pattern l st = (r, st')"
    and site: "initialized (sites st s)" "level (sites st s) = None"
  shows "site_level wide f st' s =
    (if SafeFNMatch pattern (file_module (f s)) then l else int_flags st ''v'')"
proof -
  have init: "inited_vmodule st"
    using vlog_okD(5) [OF ok site(1)] .
  then have list: "initialized_list wide st = st" by simp
  obtain st2 where shape: "same_shape st st2" and flags: "int_flags st2 = int_flags st"
    and st': "st' = (if exact_entry st2 pattern (vmodule_list st2) then st2 else add_entry pattern l st2)"
    using SetVLOGLevel_loop [OF ok call] unfolding list by metis
  have ok2: "vlog_ok f st2"
    using same_shape_ok [OF ok shape] .
  have same: "sites st2 = sites st" "inited_vmodule st2"
    using shape init by (simp_all add: same_shape_def)
  have none: "find_entry st2 (file_module (f s)) = None"
    using vlog_okD(1) [OF ok2, of s] site same by (simp add: site_ok_def)
  show ?thesis
  proof (cases "SafeFNMatch pattern (file_module (f s))")
    case True
    then have "\<not> exact_entry st2 pattern (vmodule_list st2)"
      using none by (auto simp: exact_entry_def no_entry)
    then have "st' = add_entry pattern l st2"
      using st' by simp
    then show ?thesis
      using True site same by (simp add: site_level_def add_entry_sites [OF ok2])
  next
    case False
    then show ?thesis
      using none site same flags
      by (simp add: st' site_level_def add_entry_sites [OF ok2] add_entry_find [OF ok2])
  qed
qed

theorem IsVLogOn_decides_witness:
  "fst (IsVLogOn (\<lambda>n. 0) (\<lambda>s. ''dir/a-inl.cc'') 0 0 sample_vlog) = Some True"
proof -
  obtain pcs where reach: "vlog_reachable (\<lambda>n. 0) (\<lambda>s. ''dir/a-inl.cc'') (pcs, sample_vlog)"
    using sample_vlog_reachable by blast
  obtain r st' where call: "IsVLogOn (\<lambda>n. 0) (\<lambda>s. ''dir/a-inl.cc'') 0 0 sample_vlog = (r, st')"
    by (cases "IsVLogOn (\<lambda>n. 0) (\<lambda>s. ''dir/a-inl.cc'') 0 0 sample_vlog")
  have "site_level (\<lambda>n. 0) (\<lambda>s. ''dir/a-inl.cc'') sample_vlog 0 = 0"
    by code_simp
  then show ?thesis
    using IsVLogOn_decides [OF reach call] call by simp
qed

text \<open>\<open>SetVLOGLevel\<close> returns the level of the first entry that matches its argument,
  else \<open>--v\<close>, and decides for every site that has been executed: one that follows an
  entry changes only if its pattern is exactly the argument, one that follows none
  takes the new level if the argument matches its module.\<close>

theorem SetVLOGLevel_sites:
  assumes "vlog_reachable wide site_file (pcs, st)"
    and "SetVLOGLevel wide pattern log_level st = (r, st')"
  shows "r = (case find_entry (initialized_list wide st) pattern of
                Some i \<Rightarrow> node_level (initialized_list wide st) i
              | None \<Rightarrow> int_flags st ''v'') \<and>
    (\<forall>s. initialized (sites st s) \<longrightarrow>
       site_level wide site_file st' s =
         (case level (sites st s) of
            Some i \<Rightarrow> if node_pattern st i = pattern then log_level else node_level st i
          | None \<Rightarrow> if SafeFNMatch pattern (file_module (site_file s)) then log_level
                    else int_flags st ''v''))"
proof -
  have ok: "vlog_ok site_file st"
    using vlog_reachable_ok [OF assms(1)] .
  have "r = first_level (initialized_list wide st) pattern
      (vmodule_list (initialized_list wide st)) (int_flags st ''v'')"
    using SetVLOGLevel_loop [OF ok assms(2)] by metis
  then show ?thesis
    using SetVLOGLevel_follower [OF ok assms(2)] SetVLOGLevel_other [OF ok assms(2)]
    by (auto simp: first_level_def find_entry_def split: option.splits)
qed

theorem SetVLOGLevel_sites_witness:
  "case SetVLOGLevel (\<lambda>n. 0) ''a*'' 7 sample_vlog of
     (r, st') \<Rightarrow> r = 0 \<and> site_level (\<lambda>n. 0) (\<lambda>s. ''dir/a-inl.cc'') st' 0 = 7"
proof -
  obtain pcs where reach: "vlog_reachable (\<lambda>n. 0) (\<lambda>s. ''dir/a-inl.cc'') (pcs, sample_vlog)"
    using sample_vlog_reachable by blast
  obtain r st' where call: "SetVLOGLevel (\<lambda>n. 0) ''a*'' 7 sample_vlog = (r, st')"
    by (cases "SetVLOGLevel (\<lambda>n. 0) ''a*'' 7 sample_vlog")
  have "find_entry (initialized_list (\<lambda>n. 0) sample_vlog) ''a*'' = None"
    by code_simp
  moreover have "initialized (sites sample_vlog 0) \<and> level (sites sample_vlog 0) = None \<and>
      SafeFNMatch ''a*'' (file_module ''dir/a-inl.cc'') \<and> int_flags sample_vlog ''v'' = 0"
    by code_simp
  ultimately show ?thesis
    using SetVLOGLevel_sites [OF reach call] call by simp
qed

text \<open>An exact entry behind a wildcard that matches it as well: the call changes the
  exact entry, and a site of that module that is executed later still follows the
  wildcard.\<close>

lemma SetVLOGLevel_shadowed:
  "(case SetVLOGLevel (\<lambda>n. 0) ''foo'' 5 (vlog_start (\<lambda>n. 0) ''f*=1,foo=2'') of
      (r, st') \<Rightarrow> r = 1 \<and> site_level (\<lambda>n. 0) (\<lambda>s. ''foo.cc'') st' 0 = 1)"
  by code_simp

text \<open>The race on the two reads of a site.\<close>

lemma advance_null:
  assumes ok: "vlog_ok f st" and step: "advance wide f pc st = (Returned None, st')"
    and "pc \<noteq> Returned None"
  shows "\<exists>s v. pc = LevelWasNull s v \<and> level (sites st s) \<noteq> None"
proof (cases pc)
  case (LevelWasNull s v)
  then have "initialized (sites st s)" "default_level (sites st s) = None"
    using step by (auto simp: load_initialized_def split: if_splits option.splits)
  then have "level (sites st s) \<noteq> None"
    using vlog_okD(1) [OF ok, of s] by (auto simp: site_ok_def split: option.splits)
  with LevelWasNull show ?thesis by blast
next
  case (NotInitialized s v)
  then show ?thesis
    using step InitializeVLOG3_initialized [OF ok, of s wide v] InitializeVLOG3_fresh [OF ok, of s wide v]
    by (cases "initialized (sites st s)") simp_all
qed (use assms in simp_all)

lemma null_race:
  "\<exists>pcs st pcs' st'. vlog_reachable wide (\<lambda>s. ''a.cc'') (pcs, st) \<and>
     vlog_step wide (\<lambda>s. ''a.cc'') (pcs, st) (pcs', st') \<and>
     pcs 0 \<noteq> Returned None \<and> pcs' 0 = Returned None"
proof -
  let ?file = "\<lambda>s::nat. ''a.cc''" and ?start = "vlog_start (\<lambda>n. 0) ''''"
  let ?st = "snd (SetVLOGLevel wide ''a'' 1 ?start)"
  let ?st' = "snd (InitializeVLOG3 wide 0 ''v'' ''a.cc'' 1 ?st)"
  have st: "?st = ?start\<lparr>infos := [\<lparr>module_pattern = ''a'', vlog_level = 1\<rparr>],
      vmodule_list := [0], inited_vmodule := True\<rparr>"
    by (simp add: SetVLOGLevel_def VLOG2Initializer_def vlog_start_def Let_def cstr_def
        vmodule_entries.simps strchr_def add_entry_def)
  have fresh: "level (sites ?st s) = None \<and> \<not> initialized (sites ?st s)" for s
    unfolding st by (simp add: vlog_start_def nglog_vlog_site_def)
  have "vlog_step wide ?file (\<lambda>t. Idle, ?start) (\<lambda>t. Idle, ?st)"
    by (rule vlog_step.set_level) (simp add: prod_eq_iff)
  then have "vlog_reachable wide ?file (\<lambda>t. Idle, ?st)"
    using vlog_reachable_start vlog_reachable_step by blast
  moreover have "vlog_step wide ?file (\<lambda>t. Idle, ?st) ((\<lambda>t. Idle)(0 := LevelWasNull 0 1), ?st)"
    using vlog_step.call [of "\<lambda>t. Idle" 0 True wide ?file ?st 0 1] fresh by (simp add: load_level_def)
  ultimately have "vlog_reachable wide ?file ((\<lambda>t. Idle)(0 := LevelWasNull 0 1), ?st)"
    using vlog_reachable_step by blast
  then obtain pcs where reach: "vlog_reachable wide ?file (pcs, ?st')" and "pcs 0 = LevelWasNull 0 1"
    using site_executed [of wide ?file _ ?st 1 0 1] fresh by fastforce
  have null: "initialized (sites ?st' 0) \<and> default_level (sites ?st' 0) = None"
    unfolding st by (simp add: InitializeVLOG3_def vlog_start_def nglog_vlog_site_def find_entry_def Let_def
        file_base_def base_length_def)
  have "vlog_step wide ?file (pcs, ?st') (pcs(0 := Returned None), ?st')"
    using null \<open>pcs 0 = LevelWasNull 0 1\<close> by (intro vlog_step.advance) (simp add: load_initialized_def)
  moreover have "pcs 0 \<noteq> Returned None" "(pcs(0 := Returned None)) 0 = Returned None"
    using \<open>pcs 0 = LevelWasNull 0 1\<close> by simp_all
  ultimately show ?thesis
    using reach by blast
qed

text \<open>C22. The only way to read through the null \<open>default_level\<close> of a site: between the
  two reads of a thread another one initializes the site and finds an entry. And this
  happens: both threads execute a site for the first time.\<close>

theorem null_default_level:
  "(\<forall>pcs st pcs' st' t. vlog_reachable wide site_file (pcs, st) \<and>
      vlog_step wide site_file (pcs, st) (pcs', st') \<and>
      pcs t \<noteq> Returned None \<and> pcs' t = Returned None \<longrightarrow>
      (\<exists>s v. pcs t = LevelWasNull s v \<and> level (sites st s) \<noteq> None)) \<and>
   (\<exists>pcs st. vlog_reachable wide (\<lambda>s. ''a.cc'') (pcs, st) \<and> pcs 0 = Returned None)"
proof (intro conjI allI impI, goal_cases)
  case (1 pcs st pcs' st' t)
  then have ok: "vlog_ok site_file st" and step: "vlog_step wide site_file (pcs, st) (pcs', st')"
    and t: "pcs t \<noteq> Returned None" "pcs' t = Returned None"
    using vlog_reachable_ok by auto
  from step show ?case
  proof (cases rule: vlog_step.cases)
    case (call t' b s v)
    then show ?thesis
      using t by (auto simp: load_level_def split: if_splits option.splits)
  next
    case (advance t' pc')
    then show ?thesis
      using advance_null [OF ok, of wide "pcs t"] t by (auto split: if_splits)
  qed (use t in auto)
next
  case 2
  show ?case
    using null_race [of wide] vlog_reachable_step by blast
qed

theorem null_default_level_witness:
  "\<exists>pcs st s v. vlog_reachable (\<lambda>n. 0) (\<lambda>s. ''a.cc'') (pcs, st) \<and>
     pcs 0 = LevelWasNull s v \<and> level (sites st s) \<noteq> None"
  using null_race [of "\<lambda>n. 0"] null_default_level [of "\<lambda>n. 0" "\<lambda>s. ''a.cc''"] by meson

end
