(* ===== verification/Utf8.thy ===== *)
theory Utf8 imports LogMessage begin

text \<open>
  UTF-8 (\<open>ng-log/internal/utf8_encoder.h\<close>, \<open>src/internal/utf8.cc\<close>): the encoder of wide
  text that takes one code unit at a time, the check of UTF-8 text, the writer that
  encodes wide text in chunks, and \<open>AppendWide\<close> of \<open>src/logging.cc\<close>, which puts the
  encoding into the stream of a message.

  A byte is an \<open>8 word\<close>. A \<open>wchar_t\<close> is the \<open>32 word\<close> of its unsigned value; where
  \<open>wchar_t\<close> has 16 bits (\<open>kWideCharIsUtf16\<close>) the values are below \<open>0x10000\<close>. The bytes
  that a function writes to \<open>output\<close> are its result.
\<close>

unbundle bit_operations_syntax

type_synonym byte = "8 word"
type_synonym wide_char = "32 word"

section \<open>Encoding\<close>

definition ContinuationByte :: "32 word \<Rightarrow> nat \<Rightarrow> byte" where
  "ContinuationByte code_point shift = ucast (0x80 OR (drop_bit shift code_point AND 0x3f))"

definition EncodeCodePoint :: "32 word \<Rightarrow> byte list" where
  "EncodeCodePoint code_point =
     (if code_point < 0x80 then [ucast code_point]
      else if code_point < 0x800 then
        [ucast (0xc0 OR drop_bit 6 code_point), ContinuationByte code_point 0]
      else if code_point < 0x10000 then
        [ucast (0xe0 OR drop_bit (2 * 6) code_point),
         ContinuationByte code_point 6, ContinuationByte code_point 0]
      else
        [ucast (0xf0 OR drop_bit (3 * 6) code_point),
         ContinuationByte code_point (2 * 6), ContinuationByte code_point 6,
         ContinuationByte code_point 0])"

definition kReplacementCharacter :: "32 word" where
  "kReplacementCharacter = 0xfffd"

definition is_scalar_value :: "32 word \<Rightarrow> bool" where
  "is_scalar_value code \<longleftrightarrow> (code < 0xd800 \<or> code > 0xdfff) \<and> code \<le> 0x10ffff"

text \<open>The member \<open>high_surrogate_\<close> of \<open>Utf8Encoder\<close>, zero when there is none, is the
  state of the encoder.\<close>

definition Put :: "bool \<Rightarrow> wide_char \<Rightarrow> 32 word \<Rightarrow> byte list \<times> 32 word" where
  "Put kWideCharIsUtf16 unit high_surrogate =
     (if high_surrogate \<noteq> 0 \<and> 0xdc00 \<le> unit \<and> unit \<le> 0xdfff then
        (EncodeCodePoint (0x10000 + push_bit 10 (high_surrogate - 0xd800) + (unit - 0xdc00)), 0)
      else
        let pending = (if high_surrogate \<noteq> 0 then EncodeCodePoint kReplacementCharacter else [])
        in if kWideCharIsUtf16 \<and> 0xd800 \<le> unit \<and> unit \<le> 0xdbff then (pending, unit)
           else (pending @ EncodeCodePoint
                   (if is_scalar_value unit then unit else kReplacementCharacter), 0))"

definition Finish :: "32 word \<Rightarrow> byte list \<times> 32 word" where
  "Finish high_surrogate =
     (if high_surrogate = 0 then ([], 0) else (EncodeCodePoint kReplacementCharacter, 0))"

section \<open>Writing wide text in chunks\<close>

definition kMaximumLength :: nat where
  "kMaximumLength = 6"

definition kMaximumUtf8ChunkLength :: nat where
  "kMaximumUtf8ChunkLength = 1024"

text \<open>The writer is a callback with a state of its own, the \<open>context\<close>. The loop carries
  the bytes in the buffer and the encoder.\<close>

type_synonym 'c writer = "byte list \<Rightarrow> 'c \<Rightarrow> bool \<times> 'c"

definition reserve :: "'c writer \<Rightarrow> byte list \<Rightarrow> 'c \<Rightarrow> bool \<times> byte list \<times> 'c" where
  "reserve writer buffer ctx =
     (if kMaximumUtf8ChunkLength - length buffer < kMaximumLength then
        (case writer buffer ctx of
           (False, context') \<Rightarrow> (False, buffer, context')
         | (True, context') \<Rightarrow> (True, [], context'))
      else (True, buffer, ctx))"

fun write_units ::
  "bool \<Rightarrow> 'c writer \<Rightarrow> wide_char list \<Rightarrow> byte list \<Rightarrow> 32 word \<Rightarrow> 'c \<Rightarrow> bool \<times> byte list \<times> 32 word \<times> 'c" where
  "write_units utf16 writer [] buffer encoder ctx = (True, buffer, encoder, ctx)"
| "write_units utf16 writer (unit # units) buffer encoder ctx =
     (case reserve writer buffer ctx of
        (False, buffer', context') \<Rightarrow> (False, buffer', encoder, context')
      | (True, buffer', context') \<Rightarrow>
          (case Put utf16 unit encoder of
             (bytes, encoder') \<Rightarrow>
               write_units utf16 writer units (buffer' @ bytes) encoder' context'))"

text \<open>A null input with a length is \<open>None\<close>, a null writer too.\<close>

definition WriteWideAsUtf8 ::
  "bool \<Rightarrow> wide_char list option \<Rightarrow> 'c writer option \<Rightarrow> 'c \<Rightarrow> bool \<times> 'c" where
  "WriteWideAsUtf8 utf16 input writer ctx =
     (case (input, writer) of
        (Some units, Some write) \<Rightarrow>
          (case write_units utf16 write units [] 0 ctx of
             (False, buffer, encoder, context') \<Rightarrow> (False, context')
           | (True, buffer, encoder, context') \<Rightarrow>
               let buffer' = buffer @ fst (Finish encoder)
               in if buffer' = [] then (True, context') else write buffer' context')
      | _ \<Rightarrow> (False, ctx))"

section \<open>Checking UTF-8\<close>

record Utf8Analysis =
  is_valid :: bool
  is_ascii :: bool
  has_null :: bool

definition IsContinuation :: "byte \<Rightarrow> bool" where
  "IsContinuation b \<longleftrightarrow> 0x80 \<le> b \<and> b \<le> 0xbf"

definition valid_second3 :: "byte \<Rightarrow> byte \<Rightarrow> bool" where
  "valid_second3 first second \<longleftrightarrow>
     (first = 0xe0 \<and> 0xa0 \<le> second \<and> second \<le> 0xbf) \<or>
     (first = 0xed \<and> 0x80 \<le> second \<and> second \<le> 0x9f) \<or>
     (first \<noteq> 0xe0 \<and> first \<noteq> 0xed \<and> IsContinuation second)"

definition valid_second4 :: "byte \<Rightarrow> byte \<Rightarrow> bool" where
  "valid_second4 first second \<longleftrightarrow>
     (first = 0xf0 \<and> 0x90 \<le> second \<and> second \<le> 0xbf) \<or>
     (first = 0xf4 \<and> 0x80 \<le> second \<and> second \<le> 0x8f) \<or>
     (first \<noteq> 0xf0 \<and> first \<noteq> 0xf4 \<and> IsContinuation second)"

text \<open>The loop over \<open>index\<close>, on the rest of the input.\<close>

function analyze_loop :: "byte list \<Rightarrow> bool \<Rightarrow> bool \<Rightarrow> Utf8Analysis" where
  "analyze_loop [] ascii null = \<lparr>is_valid = True, is_ascii = ascii, has_null = null\<rparr>"
| "analyze_loop (first # rest) ascii null =
     (let null = (null \<or> first = 0)
      in if first \<le> 0x7f then analyze_loop rest ascii null
      else if 0xc2 \<le> first \<and> first \<le> 0xdf then
        (if length rest < 1 \<or> \<not> IsContinuation (rest ! 0)
         then \<lparr>is_valid = False, is_ascii = False, has_null = null\<rparr>
         else analyze_loop (drop 1 rest) False null)
      else if 0xe0 \<le> first \<and> first \<le> 0xef then
        (if length rest < 2 \<or> \<not> valid_second3 first (rest ! 0) \<or> \<not> IsContinuation (rest ! 1)
         then \<lparr>is_valid = False, is_ascii = False, has_null = null\<rparr>
         else analyze_loop (drop 2 rest) False null)
      else if 0xf0 \<le> first \<and> first \<le> 0xf4 then
        (if length rest < 3 \<or> \<not> valid_second4 first (rest ! 0) \<or> \<not> IsContinuation (rest ! 1)
            \<or> \<not> IsContinuation (rest ! 2)
         then \<lparr>is_valid = False, is_ascii = False, has_null = null\<rparr>
         else analyze_loop (drop 3 rest) False null)
      else \<lparr>is_valid = False, is_ascii = False, has_null = null\<rparr>)"
  by pat_completeness auto
termination
  by (relation "measure (\<lambda>(bs, a, n). length bs)") auto

definition AnalyzeUtf8 :: "byte list \<Rightarrow> Utf8Analysis" where
  "AnalyzeUtf8 input = analyze_loop input True False"

definition IsValidUtf8 :: "byte list \<Rightarrow> bool" where
  "IsValidUtf8 input = is_valid (AnalyzeUtf8 input)"

section \<open>Wide text in a message\<close>

definition byte_char :: "byte \<Rightarrow> char" where
  "byte_char b = char_of (unat b)"

text \<open>The members \<open>wide_text_\<close>, \<open>wide_length_\<close>, \<open>wide_begin_\<close> and \<open>wide_end_\<close> of a message;
  the length is that of the text.\<close>

record wide_span =
  wide_text :: "wide_char list"
  wide_begin :: nat
  wide_end :: nat

text \<open>The callback writes to the stream and adds up the lengths.\<close>

definition append_chunk :: "(message_data \<times> nat) writer" where
  "append_chunk bytes = (\<lambda>(d, n). (True, stream_append (map byte_char bytes) d, n + length bytes))"

definition AppendWide ::
  "bool \<Rightarrow> wide_char list \<Rightarrow> message_data \<times> wide_span option \<Rightarrow> message_data \<times> wide_span option" where
  "AppendWide utf16 units = (\<lambda>(d, span).
     case WriteWideAsUtf8 utf16 (Some units) (Some append_chunk) (d, 0) of
       (ok, d', appended) \<Rightarrow>
         (d', if pcount d' - pcount d = appended
              then Some \<lparr>wide_text = units, wide_begin = pcount d, wide_end = pcount d'\<rparr>
              else span))"

end
