(* ===== verification/Utf8Props.thy ===== *)
theory Utf8Props imports Utf8 LogMessageProps begin

text \<open>
  Correctness of the UTF-8 functions against the definition of UTF-8: an encoding of
  the code points by arithmetic. \<open>AnalyzeUtf8\<close> accepts exactly the encodings of Unicode
  scalar values; wide text is written in chunks that fit the buffer and are each the
  encoding of whole code points; \<open>AppendWide\<close> records the span exactly when the whole
  encoding went into the message.
\<close>

unbundle bit_operations_syntax

section \<open>The definition of UTF-8\<close>

definition scalar :: "nat \<Rightarrow> bool" where
  "scalar n \<longleftrightarrow> n \<le> 0x10ffff \<and> \<not> (0xd800 \<le> n \<and> n \<le> 0xdfff)"

definition utf8 :: "nat \<Rightarrow> nat list" where
  "utf8 n =
     (if n < 0x80 then [n]
      else if n < 0x800 then [0xc0 + n div 64, 0x80 + n mod 64]
      else if n < 0x10000 then [0xe0 + n div 4096, 0x80 + n div 64 mod 64, 0x80 + n mod 64]
      else [0xf0 + n div 262144, 0x80 + n div 4096 mod 64, 0x80 + n div 64 mod 64, 0x80 + n mod 64])"

definition utf8_text :: "nat list \<Rightarrow> nat list" where
  "utf8_text cs = concat (map utf8 cs)"

lemma utf8_text_simps [simp]:
  "utf8_text [] = []" "utf8_text (c # cs) = utf8 c @ utf8_text cs"
  "utf8_text (as @ bs) = utf8_text as @ utf8_text bs"
  by (simp_all add: utf8_text_def)

text \<open>The code points of wide text: surrogates pair up where \<open>wchar_t\<close> holds UTF-16, and
  what is not a scalar value becomes U+FFFD.\<close>

definition replaced :: "nat \<Rightarrow> nat" where
  "replaced n = (if scalar n then n else 0xfffd)"

fun code_points :: "bool \<Rightarrow> nat list \<Rightarrow> nat list" where
  "code_points utf16 [] = []"
| "code_points utf16 [u] = [replaced u]"
| "code_points utf16 (u # v # us) =
     (if utf16 \<and> 0xd800 \<le> u \<and> u \<le> 0xdbff \<and> 0xdc00 \<le> v \<and> v \<le> 0xdfff
      then (0x10000 + (u - 0xd800) * 1024 + (v - 0xdc00)) # code_points utf16 us
      else replaced u # code_points utf16 (v # us))"

section \<open>Bytes as numbers\<close>

lemma or_add: "b < 2 ^ k \<Longrightarrow> a * 2 ^ k OR b = a * 2 ^ k + b" for a b :: nat
proof -
  assume "b < 2 ^ k"
  then have b: "take_bit k b = b"
    by (simp add: take_bit_nat_eq_self)
  have "\<not> bit (push_bit k a) n \<or> \<not> bit b n" for n
    using b bit_take_bit_iff [of k b n] by (auto simp: bit_push_bit_iff)
  then have "push_bit k a + b = push_bit k a OR b"
    by (rule disjunctive_add)
  then show ?thesis
    by (simp add: push_bit_eq_mult)
qed

lemma unat_ucast_byte: "unat (x :: 32 word) < 256 \<Longrightarrow> unat (ucast x :: byte) = unat x"
  by (simp add: unsigned_ucast_eq take_bit_nat_eq_self)

lemma unat_or_small:
  assumes "unat (y :: 32 word) < 2 ^ k" and "unat (x :: 32 word) = a * 2 ^ k" and "a * 2 ^ k + 2 ^ k \<le> 256"
  shows "unat (ucast (x OR y) :: byte) = a * 2 ^ k + unat y"
proof -
  have "unat (x OR y) = a * 2 ^ k + unat y"
    using assms or_add by (simp add: unsigned_or_eq)
  then show ?thesis
    using assms by (subst unat_ucast_byte) simp_all
qed

lemma unat_drop_32: "unat (drop_bit k (x :: 32 word)) = unat x div 2 ^ k"
  by (simp only: unat_drop_bit_eq) (simp add: drop_bit_eq_div)

lemma unat_ContinuationByte:
  "unat (ContinuationByte c k) = 0x80 + unat c div 2 ^ k mod 64"
proof -
  have "drop_bit k c AND 0x3f = take_bit 6 (drop_bit k c)"
    by (simp add: take_bit_eq_mask mask_numeral)
  then have "unat (drop_bit k c AND 0x3f) = unat c div 2 ^ k mod 64"
    by (simp add: take_bit_eq_mod unat_mod_distrib unat_drop_32)
  then show ?thesis
    unfolding ContinuationByte_def by (subst unat_or_small [where k = 6 and a = 2]) simp_all
qed

lemma EncodeCodePoint_utf8:
  assumes "unat c \<le> 0x10ffff"
  shows "map unat (EncodeCodePoint c) = utf8 (unat c)"
proof -
  have limits: "c < 0x80 \<longleftrightarrow> unat c < 0x80" "c < 0x800 \<longleftrightarrow> unat c < 0x800"
    "c < 0x10000 \<longleftrightarrow> unat c < 0x10000"
    by (simp_all add: word_less_nat_alt)
  consider "unat c < 0x80" | "\<not> unat c < 0x80" "unat c < 0x800"
    | "\<not> unat c < 0x800" "unat c < 0x10000" | "\<not> unat c < 0x10000"
    by linarith
  then show ?thesis
  proof cases
    case 1
    then show ?thesis
      by (simp add: EncodeCodePoint_def utf8_def limits unat_ucast_byte)
  next
    case 2
    have "unat (ucast (0xc0 OR drop_bit 6 c) :: byte) = 6 * 2 ^ 5 + unat (drop_bit 6 c)"
      using 2 by (intro unat_or_small) (simp_all add: unat_drop_32)
    with 2 show ?thesis
      by (simp add: EncodeCodePoint_def utf8_def limits unat_drop_32 unat_ContinuationByte)
  next
    case 3
    have "unat (ucast (0xe0 OR drop_bit 12 c) :: byte) = 14 * 2 ^ 4 + unat (drop_bit 12 c)"
      using 3 by (intro unat_or_small) (simp_all add: unat_drop_32)
    with 3 show ?thesis
      by (simp add: EncodeCodePoint_def utf8_def limits unat_drop_32 unat_ContinuationByte)
  next
    case 4
    have "unat (ucast (0xf0 OR drop_bit 18 c) :: byte) = 30 * 2 ^ 3 + unat (drop_bit 18 c)"
      using 4 assms by (intro unat_or_small) (simp_all add: unat_drop_32)
    with 4 show ?thesis
      by (simp add: EncodeCodePoint_def utf8_def limits unat_drop_32 unat_ContinuationByte)
  qed
qed

section \<open>The check\<close>

text \<open>The four forms of an encoding, by their bytes.\<close>

definition cont :: "nat \<Rightarrow> bool" where
  "cont b \<longleftrightarrow> 0x80 \<le> b \<and> b \<le> 0xbf"

definition second3 :: "nat \<Rightarrow> nat \<Rightarrow> bool" where
  "second3 a b \<longleftrightarrow> cont b \<and> (a = 0xe0 \<longrightarrow> 0xa0 \<le> b) \<and> (a = 0xed \<longrightarrow> b \<le> 0x9f)"

definition second4 :: "nat \<Rightarrow> nat \<Rightarrow> bool" where
  "second4 a b \<longleftrightarrow> cont b \<and> (a = 0xf0 \<longrightarrow> 0x90 \<le> b) \<and> (a = 0xf4 \<longrightarrow> b \<le> 0x8f)"

inductive sequence :: "nat list \<Rightarrow> bool" where
  one: "a \<le> 0x7f \<Longrightarrow> sequence [a]"
| two: "0xc2 \<le> a \<Longrightarrow> a \<le> 0xdf \<Longrightarrow> cont b \<Longrightarrow> sequence [a, b]"
| three: "0xe0 \<le> a \<Longrightarrow> a \<le> 0xef \<Longrightarrow> second3 a b \<Longrightarrow> cont c \<Longrightarrow> sequence [a, b, c]"
| four: "0xf0 \<le> a \<Longrightarrow> a \<le> 0xf4 \<Longrightarrow> second4 a b \<Longrightarrow> cont c \<Longrightarrow> cont d \<Longrightarrow> sequence [a, b, c, d]"

inductive_simps sequence_Cons: "sequence (a # bs)"
inductive_simps sequence_Nil [simp]: "sequence []"

text \<open>The digits of a code point to the base 64.\<close>

lemma split_64:
  obtains m r :: nat where "n = m * 64 + r" "r < 64"
  using that [of "n div 64" "n mod 64"] by simp

lemma digits_64:
  fixes n q r :: nat
  assumes "n = q * 64 + r" and "r < 64"
  shows "n div 64 = q" and "n mod 64 = r"
  using assms by simp_all

lemma div_4096: "n div 4096 = n div 64 div 64" for n :: nat
  by (simp flip: div_mult2_eq)

lemma div_262144: "n div 262144 = n div 64 div 64 div 64" for n :: nat
  by (simp flip: div_mult2_eq)

lemma utf8_three:
  assumes "n = m * 64 + z" "m = x * 64 + y" and "y < 64" "z < 64" and "0x800 \<le> n" "n < 0x10000"
  shows "utf8 n = [0xe0 + x, 0x80 + y, 0x80 + z]"
  using assms(5,6) digits_64 [OF assms(1,4)] digits_64 [OF assms(2,3)]
  by (simp add: utf8_def div_4096)

lemma utf8_four:
  assumes "n = m * 64 + w" "m = l * 64 + z" "l = x * 64 + y"
    and "y < 64" "z < 64" "w < 64" and "0x10000 \<le> n"
  shows "utf8 n = [0xf0 + x, 0x80 + y, 0x80 + z, 0x80 + w]"
  using assms(7) digits_64 [OF assms(1,6)] digits_64 [OF assms(2,5)] digits_64 [OF assms(3,4)]
  by (simp add: utf8_def div_4096 div_262144)

lemma utf8_sequence:
  assumes "scalar n"
  shows "sequence (utf8 n)"
proof -
  obtain m w where n: "n = m * 64 + w" "w < 64"
    by (rule split_64)
  obtain l z where m: "m = l * 64 + z" "z < 64"
    by (rule split_64)
  obtain x y where l: "l = x * 64 + y" "y < 64"
    by (rule split_64)
  consider "n < 0x80" | "0x80 \<le> n" "n < 0x800" | "0x800 \<le> n" "n < 0x10000" | "0x10000 \<le> n"
    by linarith
  then show ?thesis
  proof cases
    case 1
    then show ?thesis by (simp add: utf8_def sequence.one)
  next
    case 2
    then have "utf8 n = [0xc0 + m, 0x80 + w]"
      using n by (simp add: utf8_def)
    moreover have "sequence [0xc0 + m, 0x80 + w]"
      using 2 n by (intro sequence.two) (simp_all add: cont_def)
    ultimately show ?thesis by simp
  next
    case 3
    have "l = 0 \<longrightarrow> 32 \<le> z" "l < 16"
      using 3 n m by linarith+
    moreover have "l = 13 \<longrightarrow> z < 32"
      using assms n m by (auto simp: scalar_def)
    ultimately have "sequence [0xe0 + l, 0x80 + z, 0x80 + w]"
      using 3 n m by (intro sequence.three) (auto simp: cont_def second3_def)
    moreover have "utf8 n = [0xe0 + l, 0x80 + z, 0x80 + w]"
      using 3 utf8_three [OF n(1) m(1) m(2) n(2)] by simp
    ultimately show ?thesis by simp
  next
    case 4
    have "x = 0 \<longrightarrow> 16 \<le> y" "x < 5" "x = 4 \<longrightarrow> y < 16"
      using 4 assms n m l unfolding scalar_def by linarith+
    then have "sequence [0xf0 + x, 0x80 + y, 0x80 + z, 0x80 + w]"
      using 4 n m l by (intro sequence.four) (auto simp: cont_def second4_def)
    moreover have "utf8 n = [0xf0 + x, 0x80 + y, 0x80 + z, 0x80 + w]"
      using 4 utf8_four [OF n(1) m(1) l(1) l(2) m(2) n(2)] by simp
    ultimately show ?thesis by simp
  qed
qed

lemma sequence_utf8:
  assumes "sequence bs"
  shows "\<exists>n. scalar n \<and> utf8 n = bs"
  using assms
proof cases
  case (one a)
  then show ?thesis by (intro exI [of _ a]) (simp add: scalar_def utf8_def)
next
  case (two a b)
  then obtain x y where "a = 0xc0 + x" "b = 0x80 + y" "y < 64" "2 \<le> x" "x < 32"
    by (auto simp: cont_def dest!: le_Suc_ex [of _ a] le_Suc_ex [of _ b])
  with two show ?thesis
    by (intro exI [of _ "x * 64 + y"]) (simp add: scalar_def utf8_def)
next
  case (three a b c)
  have "a = 0xe0 + (a - 0xe0)" "b = 0x80 + (b - 0x80)" "c = 0x80 + (c - 0x80)"
    using three by (simp_all add: cont_def second3_def)
  then obtain x y z where eq: "a = 0xe0 + x" "b = 0x80 + y" "c = 0x80 + z"
    by blast
  with three have digits: "y < 64" "z < 64" "x < 16" "x = 0 \<longrightarrow> 32 \<le> y" "x = 13 \<longrightarrow> y < 32"
    by (auto simp: cont_def second3_def)
  define n where "n = (x * 64 + y) * 64 + z"
  have bounds: "0x800 \<le> n" "n < 0x10000" "\<not> (0xd800 \<le> n \<and> n \<le> 0xdfff)"
  proof -
    show "0x800 \<le> n"
      using digits unfolding n_def by (cases "x = 0") auto
    show "n < 0x10000"
      using digits(1-3) unfolding n_def by simp
    show "\<not> (0xd800 \<le> n \<and> n \<le> 0xdfff)"
      using digits unfolding n_def by (cases "x = 13") auto
  qed
  then have "utf8 n = bs"
    using three eq digits utf8_three [OF n_def refl] by simp
  then show ?thesis
    using bounds by (intro exI [of _ n]) (simp add: scalar_def)
next
  case (four a b c d)
  have "a = 0xf0 + (a - 0xf0)" "b = 0x80 + (b - 0x80)" "c = 0x80 + (c - 0x80)" "d = 0x80 + (d - 0x80)"
    using four by (simp_all add: cont_def second4_def)
  then obtain x y z w where eq: "a = 0xf0 + x" "b = 0x80 + y" "c = 0x80 + z" "d = 0x80 + w"
    by blast
  with four have digits: "y < 64" "z < 64" "w < 64" "x < 5" "x = 0 \<longrightarrow> 16 \<le> y" "x = 4 \<longrightarrow> y < 16"
    by (auto simp: cont_def second4_def)
  define n where "n = ((x * 64 + y) * 64 + z) * 64 + w"
  have bounds: "0x10000 \<le> n" "n \<le> 0x10ffff"
  proof -
    show "0x10000 \<le> n"
      using digits unfolding n_def by (cases "x = 0") auto
    show "n \<le> 0x10ffff"
      using digits unfolding n_def by (cases "x = 4") auto
  qed
  then have "utf8 n = bs"
    using four eq digits utf8_four [OF n_def refl refl] by simp
  then show ?thesis
    using bounds by (intro exI [of _ n]) (simp add: scalar_def)
qed

text \<open>Sequences are told apart by their first byte, so that a text splits in one way.\<close>

definition sequences :: "nat list \<Rightarrow> bool" where
  "sequences bs \<longleftrightarrow> (\<exists>ss. list_all sequence ss \<and> bs = concat ss)"

lemma sequences_Nil [simp]: "sequences []"
  unfolding sequences_def by (intro exI [of _ "[]"]) simp

lemma sequences_Cons:
  "sequences (a # bs) \<longleftrightarrow> (\<exists>s t. a # bs = s @ t \<and> sequence s \<and> sequences t)"
proof
  assume "sequences (a # bs)"
  then obtain ss where ss: "list_all sequence ss" "a # bs = concat ss"
    by (auto simp: sequences_def)
  then obtain s ss' where "ss = s # ss'"
    by (cases ss) auto
  with ss show "\<exists>s t. a # bs = s @ t \<and> sequence s \<and> sequences t"
    by (auto simp: sequences_def)
next
  assume "\<exists>s t. a # bs = s @ t \<and> sequence s \<and> sequences t"
  then obtain s ss where "a # bs = s @ concat ss" "sequence s" "list_all sequence ss"
    by (auto simp: sequences_def)
  then have "list_all sequence (s # ss) \<and> a # bs = concat (s # ss)"
    by simp
  then show "sequences (a # bs)"
    unfolding sequences_def by blast
qed

lemma sequences_utf8: "sequences bs \<longleftrightarrow> (\<exists>cs. list_all scalar cs \<and> bs = utf8_text cs)"
proof
  assume "sequences bs"
  then obtain ss where "list_all sequence ss" "bs = concat ss"
    by (auto simp: sequences_def)
  moreover have "\<exists>cs. list_all scalar cs \<and> map utf8 cs = ss"
    using \<open>list_all sequence ss\<close>
  proof (induction ss)
    case (Cons s ss)
    then obtain cs where "list_all scalar cs" "map utf8 cs = ss"
      by auto
    moreover obtain n where "scalar n" "utf8 n = s"
      using Cons.prems sequence_utf8 [of s] by auto
    ultimately show ?case by (intro exI [of _ "n # cs"]) simp
  qed simp
  ultimately show "\<exists>cs. list_all scalar cs \<and> bs = utf8_text cs"
    by (auto simp: utf8_text_def)
next
  assume "\<exists>cs. list_all scalar cs \<and> bs = utf8_text cs"
  then obtain cs where cs: "list_all scalar cs" "bs = utf8_text cs"
    by blast
  then have "list_all sequence (map utf8 cs)"
    by (auto simp: list_all_iff utf8_sequence)
  with cs show "sequences bs"
    unfolding sequences_def utf8_text_def by blast
qed

lemma sequences_step:
  "sequences (a # bs) \<longleftrightarrow>
     (a \<le> 0x7f \<and> sequences bs) \<or>
     (0xc2 \<le> a \<and> a \<le> 0xdf \<and> (\<exists>b bs'. bs = b # bs' \<and> cont b \<and> sequences bs')) \<or>
     (0xe0 \<le> a \<and> a \<le> 0xef \<and>
        (\<exists>b c bs'. bs = b # c # bs' \<and> second3 a b \<and> cont c \<and> sequences bs')) \<or>
     (0xf0 \<le> a \<and> a \<le> 0xf4 \<and>
        (\<exists>b c d bs'. bs = b # c # d # bs' \<and> second4 a b \<and> cont c \<and> cont d \<and> sequences bs'))"
    (is "_ \<longleftrightarrow> ?R")
proof
  assume "sequences (a # bs)"
  then obtain s t where st: "a # bs = s @ t" "sequence s" "sequences t"
    by (auto simp: sequences_Cons)
  then obtain s' where "s = a # s'"
    by (cases s) auto
  with st show ?R
    by (auto simp: sequence_Cons)
next
  assume ?R
  then consider "a \<le> 0x7f" "sequences bs"
    | b bs' where "bs = b # bs'" "sequence [a, b]" "sequences bs'"
    | b c bs' where "bs = b # c # bs'" "sequence [a, b, c]" "sequences bs'"
    | b c d bs' where "bs = b # c # d # bs'" "sequence [a, b, c, d]" "sequences bs'"
    by (auto simp: sequence_Cons)
  then have "\<exists>s t. a # bs = s @ t \<and> sequence s \<and> sequences t"
  proof cases
    case 1
    then show ?thesis
      by (intro exI [of _ "[a]"] exI [of _ bs]) (simp add: sequence.one)
  next
    case (2 b bs')
    then show ?thesis by (intro exI [of _ "[a, b]"] exI [of _ bs']) simp
  next
    case (3 b c bs')
    then show ?thesis by (intro exI [of _ "[a, b, c]"] exI [of _ bs']) simp
  next
    case (4 b c d bs')
    then show ?thesis by (intro exI [of _ "[a, b, c, d]"] exI [of _ bs']) simp
  qed
  then show "sequences (a # bs)"
    by (simp add: sequences_Cons)
qed

lemma IsContinuation_cont: "IsContinuation b \<longleftrightarrow> cont (unat b)"
  by (simp add: IsContinuation_def cont_def word_le_nat_alt)

lemma byte_eq: "b = n \<longleftrightarrow> unat b = unat n" for b n :: byte
  by (simp add: word_unat_eq_iff)

lemma valid_second3_iff: "valid_second3 a b \<longleftrightarrow> second3 (unat a) (unat b)"
  by (auto simp: valid_second3_def second3_def IsContinuation_cont cont_def word_le_nat_alt byte_eq)

lemma valid_second4_iff: "valid_second4 a b \<longleftrightarrow> second4 (unat a) (unat b)"
  by (auto simp: valid_second4_def second4_def IsContinuation_cont cont_def word_le_nat_alt byte_eq)

lemma sequences_byte_cases:
  fixes first :: byte
  defines "a \<equiv> unat first"
  shows "first \<le> 0x7f \<Longrightarrow> sequences (a # bs) \<longleftrightarrow> sequences bs"
    and "\<not> first \<le> 0x7f \<Longrightarrow> 0xc2 \<le> first \<and> first \<le> 0xdf \<Longrightarrow> sequences (a # bs) \<longleftrightarrow>
      (\<exists>b bs'. bs = b # bs' \<and> cont b \<and> sequences bs')"
    and "\<not> first \<le> 0x7f \<Longrightarrow> \<not> (0xc2 \<le> first \<and> first \<le> 0xdf) \<Longrightarrow> 0xe0 \<le> first \<and> first \<le> 0xef \<Longrightarrow>
      sequences (a # bs) \<longleftrightarrow>
      (\<exists>b c bs'. bs = b # c # bs' \<and> second3 a b \<and> cont c \<and> sequences bs')"
    and "\<not> first \<le> 0x7f \<Longrightarrow> \<not> (0xc2 \<le> first \<and> first \<le> 0xdf) \<Longrightarrow> \<not> (0xe0 \<le> first \<and> first \<le> 0xef) \<Longrightarrow>
      0xf0 \<le> first \<and> first \<le> 0xf4 \<Longrightarrow> sequences (a # bs) \<longleftrightarrow>
      (\<exists>b c d bs'. bs = b # c # d # bs' \<and> second4 a b \<and> cont c \<and> cont d \<and> sequences bs')"
    and "\<not> first \<le> 0x7f \<Longrightarrow> \<not> (0xc2 \<le> first \<and> first \<le> 0xdf) \<Longrightarrow> \<not> (0xe0 \<le> first \<and> first \<le> 0xef) \<Longrightarrow>
      \<not> (0xf0 \<le> first \<and> first \<le> 0xf4) \<Longrightarrow> \<not> sequences (a # bs)"
  by (simp_all add: sequences_step word_le_nat_alt a_def, auto)

declare analyze_loop.simps(2) [simp del]

lemma analyze_loop_valid: "is_valid (analyze_loop bs ascii null) \<longleftrightarrow> sequences (map unat bs)"
proof (induction bs ascii null rule: analyze_loop.induct)
  case (1 ascii null)
  then show ?case by simp
next
  case (2 first rest ascii null)
  note unfold = analyze_loop.simps(2) [of first rest ascii null]
  note step = sequences_byte_cases [of first "map unat rest"]
  consider (one) "first \<le> 0x7f"
    | (two) "\<not> first \<le> 0x7f" "0xc2 \<le> first \<and> first \<le> 0xdf"
    | (three) "\<not> first \<le> 0x7f" "\<not> (0xc2 \<le> first \<and> first \<le> 0xdf)" "0xe0 \<le> first \<and> first \<le> 0xef"
    | (four) "\<not> first \<le> 0x7f" "\<not> (0xc2 \<le> first \<and> first \<le> 0xdf)" "\<not> (0xe0 \<le> first \<and> first \<le> 0xef)"
        "0xf0 \<le> first \<and> first \<le> 0xf4"
    | (none) "\<not> first \<le> 0x7f" "\<not> (0xc2 \<le> first \<and> first \<le> 0xdf)" "\<not> (0xe0 \<le> first \<and> first \<le> 0xef)"
        "\<not> (0xf0 \<le> first \<and> first \<le> 0xf4)"
    by blast
  then show ?case
  proof cases
    case one
    then show ?thesis using 2(1) step(1) unfolding unfold by (simp add: Let_def)
  next
    case two
    show ?thesis
    proof (cases rest)
      case Nil
      then show ?thesis using two step(2) unfolding unfold by (simp add: Let_def)
    next
      case (Cons b r)
      then show ?thesis using two step(2) 2(2) unfolding unfold by (simp add: Let_def IsContinuation_cont)
    qed
  next
    case three
    note body = unfold [unfolded Let_def, unfolded if_not_P [OF three(1)] if_not_P [OF three(2)] if_P [OF three(3)]]
    show ?thesis
    proof (cases "length rest < 2")
      case True
      then show ?thesis using three step(3) unfolding body by (cases rest) (auto simp: Let_def)
    next
      case False
      then obtain b c r where "rest = b # c # r"
        by (cases rest; cases "tl rest") auto
      then show ?thesis
        using three step(3) 2(3) unfolding body by (auto simp: Let_def IsContinuation_cont valid_second3_iff numeral_2_eq_2)
    qed
  next
    case four
    note body = unfold [unfolded Let_def, unfolded if_not_P [OF four(1)] if_not_P [OF four(2)]
        if_not_P [OF four(3)] if_P [OF four(4)]]
    show ?thesis
    proof (cases "length rest < 3")
      case True
      then show ?thesis using four step(4) unfolding body by (auto simp: Let_def)
    next
      case False
      then obtain b c d r where "rest = b # c # d # r"
        by (cases rest; cases "tl rest"; cases "tl (tl rest)") auto
      then show ?thesis
        using four step(4) 2(4) unfolding body by (auto simp: Let_def IsContinuation_cont valid_second4_iff numeral_2_eq_2 numeral_3_eq_3)
    qed
  next
    case none
    note body = unfold [unfolded Let_def, unfolded if_not_P [OF none(1)] if_not_P [OF none(2)]
        if_not_P [OF none(3)] if_not_P [OF none(4)]]
    show ?thesis using step(5) [OF none] unfolding body by simp
  qed
qed

text \<open>C25. The check accepts exactly the texts that are UTF-8: the encodings of lists of
  Unicode scalar values. Overlong forms, surrogates, values beyond U+10FFFF and
  sequences that end early are rejected.\<close>

theorem IsValidUtf8_iff:
  "IsValidUtf8 bs \<longleftrightarrow> (\<exists>cs. list_all scalar cs \<and> map unat bs = utf8_text cs)"
  by (simp add: IsValidUtf8_def AnalyzeUtf8_def analyze_loop_valid sequences_utf8)

lemma IsValidUtf8_examples: "IsValidUtf8 [0xe2, 0x82, 0xac] \<and> \<not> IsValidUtf8 [0xed, 0xa0, 0x80]"
  by (simp add: IsValidUtf8_def AnalyzeUtf8_def analyze_loop.simps(2) Let_def IsContinuation_def
      valid_second3_def)

section \<open>The encoder\<close>

definition high_unit :: "nat \<Rightarrow> bool" where
  "high_unit n \<longleftrightarrow> 0xd800 \<le> n \<and> n \<le> 0xdbff"

definition low_unit :: "nat \<Rightarrow> bool" where
  "low_unit n \<longleftrightarrow> 0xdc00 \<le> n \<and> n \<le> 0xdfff"

definition encoder_ok :: "bool \<Rightarrow> 32 word \<Rightarrow> bool" where
  "encoder_ok utf16 h \<longleftrightarrow> h = 0 \<or> utf16 \<and> high_unit (unat h)"

definition units_ok :: "bool \<Rightarrow> wide_char list \<Rightarrow> bool" where
  "units_ok utf16 us \<longleftrightarrow> (utf16 \<longrightarrow> (\<forall>u\<in>set us. unat u < 0x10000))"

definition held :: "32 word \<Rightarrow> nat list" where
  "held h = (if h = 0 then [] else [unat h])"

lemma scalar_replaced [simp]: "scalar (replaced n)"
  by (simp add: replaced_def scalar_def)

lemma replaced_high: "high_unit n \<Longrightarrow> replaced n = 0xfffd"
  by (simp add: replaced_def scalar_def high_unit_def)

lemma code_points_plain:
  "\<not> (utf16 \<and> high_unit u) \<Longrightarrow> code_points utf16 (u # us) = replaced u # code_points utf16 us"
  by (cases us) (auto simp: high_unit_def)

lemma code_points_pair:
  "utf16 \<Longrightarrow> high_unit u \<Longrightarrow> low_unit v \<Longrightarrow>
   code_points utf16 (u # v # us) = (0x10000 + (u - 0xd800) * 1024 + (v - 0xdc00)) # code_points utf16 us"
  by (simp add: high_unit_def low_unit_def)

lemma code_points_unpaired:
  "\<not> low_unit v \<Longrightarrow> code_points utf16 (u # v # us) = replaced u # code_points utf16 (v # us)"
  by (auto simp: low_unit_def)

declare code_points.simps(3) [simp del]

text \<open>What the encoder writes for the code points it completes.\<close>

definition writes :: "byte list \<Rightarrow> nat list \<Rightarrow> bool" where
  "writes bytes cs \<longleftrightarrow> list_all scalar cs \<and> map unat bytes = utf8_text cs"

lemma writes_append: "writes a cs \<Longrightarrow> writes b ds \<Longrightarrow> writes (a @ b) (cs @ ds)"
  by (simp add: writes_def)

lemma writes_Nil [simp]: "writes [] []"
  by (simp add: writes_def)

lemma length_utf8: "length (utf8 n) \<le> 4" and length_utf8_unit: "n < 0x10000 \<Longrightarrow> length (utf8 n) \<le> 3"
  by (simp_all add: utf8_def)

lemma writes_code_point:
  assumes "scalar (unat c)"
  shows "writes (EncodeCodePoint c) [unat c]" and "length (EncodeCodePoint c) = length (utf8 (unat c))"
proof -
  have eq: "map unat (EncodeCodePoint c) = utf8 (unat c)"
    using assms by (intro EncodeCodePoint_utf8) (simp add: scalar_def)
  then show "writes (EncodeCodePoint c) [unat c]"
    using assms by (simp add: writes_def)
  show "length (EncodeCodePoint c) = length (utf8 (unat c))"
    using arg_cong [OF eq, of length] by simp
qed

lemma replacement: "writes (EncodeCodePoint kReplacementCharacter) [0xfffd]"
    "length (EncodeCodePoint kReplacementCharacter) = 3"
  using writes_code_point [of kReplacementCharacter]
  by (simp_all add: kReplacementCharacter_def scalar_def utf8_def)

lemma is_scalar_value_iff: "is_scalar_value c \<longleftrightarrow> scalar (unat c)"
  by (auto simp: is_scalar_value_def scalar_def word_less_nat_alt word_le_nat_alt)

definition unit_code :: "wide_char \<Rightarrow> 32 word" where
  "unit_code u = (if is_scalar_value u then u else kReplacementCharacter)"

lemma unit_code_writes:
  "writes (EncodeCodePoint (unit_code u)) [replaced (unat u)]"
  "length (EncodeCodePoint (unit_code u)) \<le> 4"
  "unat u < 0x10000 \<Longrightarrow> length (EncodeCodePoint (unit_code u)) \<le> 3"
proof -
  have code: "unat (unit_code u) = replaced (unat u)"
    by (simp add: unit_code_def replaced_def is_scalar_value_iff kReplacementCharacter_def)
  then have "scalar (unat (unit_code u))" by simp
  then have w: "writes (EncodeCodePoint (unit_code u)) [unat (unit_code u)]"
    "length (EncodeCodePoint (unit_code u)) = length (utf8 (unat (unit_code u)))"
    using writes_code_point by blast+
  show "writes (EncodeCodePoint (unit_code u)) [replaced (unat u)]"
    using w(1) code by simp
  show "length (EncodeCodePoint (unit_code u)) \<le> 4"
    using w(2) length_utf8 by simp
  show "length (EncodeCodePoint (unit_code u)) \<le> 3" if "unat u < 0x10000"
    using w(2) code that length_utf8_unit [of "replaced (unat u)"] by (simp add: replaced_def split: if_splits)
qed

lemma unat_pair:
  fixes p q :: "32 word"
  assumes "unat p < 1024" and "unat q < 1024"
  shows "unat (0x10000 + push_bit 10 p + q) = 0x10000 + unat p * 1024 + unat q"
  using assms by (simp add: push_bit_eq_mult unat_word_ariths)

lemma surrogate_pair:
  fixes h u :: "32 word"
  assumes "high_unit (unat h)" and "low_unit (unat u)"
  defines "c \<equiv> 0x10000 + push_bit 10 (h - 0xd800) + (u - 0xdc00)"
  shows "unat c = 0x10000 + (unat h - 0xd800) * 1024 + (unat u - 0xdc00)" and "scalar (unat c)"
proof -
  have "0xd800 \<le> h" "0xdc00 \<le> u"
    using assms(1,2) by (simp_all add: high_unit_def low_unit_def word_le_nat_alt)
  then have h: "unat (h - 0xd800) = unat h - 0xd800" and u: "unat (u - 0xdc00) = unat u - 0xdc00"
    using unat_sub [of "0xd800" h] unat_sub [of "0xdc00" u] by simp_all
  have bounds: "unat h - 0xd800 < 1024" "unat u - 0xdc00 < 1024"
    using assms(1,2) unfolding high_unit_def low_unit_def by linarith+
  show eq: "unat c = 0x10000 + (unat h - 0xd800) * 1024 + (unat u - 0xdc00)"
    unfolding c_def using unat_pair [of "h - 0xd800" "u - 0xdc00"] bounds unfolding h u by blast
  show "scalar (unat c)"
    unfolding eq scalar_def using bounds by simp
qed

lemma Put_code_points:
  assumes ok: "encoder_ok utf16 h" and u: "utf16 \<longrightarrow> unat u < 0x10000"
    and put: "Put utf16 u h = (bytes, h')"
  shows "\<exists>cs. writes bytes cs \<and>
      code_points utf16 (held h @ unat u # us) = cs @ code_points utf16 (held h' @ us)"
    and "encoder_ok utf16 h'" and "length bytes \<le> 6" and "h' \<noteq> 0 \<Longrightarrow> length bytes \<le> 3"
proof -
  define first where "first = (if h = 0 then [] else EncodeCodePoint kReplacementCharacter)"
  have limits: "0xdc00 \<le> u \<and> u \<le> 0xdfff \<longleftrightarrow> low_unit (unat u)"
    "0xd800 \<le> u \<and> u \<le> 0xdbff \<longleftrightarrow> high_unit (unat u)"
    by (simp_all add: low_unit_def high_unit_def word_le_nat_alt)
  have first: "writes first (map replaced (held h))" "length first \<le> 3" "\<not> utf16 \<Longrightarrow> first = []"
    using ok replacement replaced_high by (auto simp: first_def held_def encoder_ok_def)
  consider (pair) "h \<noteq> 0" "low_unit (unat u)"
    | (high) "\<not> (h \<noteq> 0 \<and> low_unit (unat u))" "utf16" "high_unit (unat u)"
    | (plain) "\<not> (h \<noteq> 0 \<and> low_unit (unat u))" "\<not> (utf16 \<and> high_unit (unat u))"
    by blast
  then have "(\<exists>cs. writes bytes cs \<and>
      code_points utf16 (held h @ unat u # us) = cs @ code_points utf16 (held h' @ us)) \<and>
    encoder_ok utf16 h' \<and> length bytes \<le> 6 \<and> (h' \<noteq> 0 \<longrightarrow> length bytes \<le> 3)"
  proof cases
    case pair
    then have high: "utf16" "high_unit (unat h)"
      using ok by (auto simp: encoder_ok_def)
    define c where "c = 0x10000 + push_bit 10 (h - 0xd800) + (u - 0xdc00)"
    note c = surrogate_pair [OF high(2) pair(2), folded c_def]
    have "bytes = EncodeCodePoint c" "h' = 0"
      using put pair limits by (auto simp: Put_def c_def)
    moreover have "code_points utf16 (held h @ unat u # us) = [unat c] @ code_points utf16 us"
      using pair high c(1) by (simp add: held_def code_points_pair)
    ultimately show ?thesis
      using writes_code_point [OF c(2)] length_utf8 [of "unat c"]
      by (auto simp: held_def encoder_ok_def)
  next
    case high
    then have "bytes = first" "h' = u"
      using put limits by (auto simp: Put_def first_def Let_def)
    moreover have "u \<noteq> 0"
      using high by (auto simp: high_unit_def)
    moreover have "\<not> low_unit (unat u)"
      using high by (simp add: high_unit_def low_unit_def)
    ultimately show ?thesis
      using first high by (auto simp: held_def encoder_ok_def code_points_unpaired)
  next
    case plain
    then have "bytes = first @ EncodeCodePoint (unit_code u)" "h' = 0"
      using put limits by (auto simp: Put_def first_def unit_code_def Let_def split: if_splits)
    moreover have "code_points utf16 (held h @ unat u # us) =
        (map replaced (held h) @ [replaced (unat u)]) @ code_points utf16 us"
      using plain by (auto simp: held_def code_points_unpaired code_points_plain)
    moreover have "writes (first @ EncodeCodePoint (unit_code u)) (map replaced (held h) @ [replaced (unat u)])"
      using first unit_code_writes by (intro writes_append)
    moreover have "length (first @ EncodeCodePoint (unit_code u)) \<le> 6"
      using first unit_code_writes(2,3) [of u] u by (cases utf16) auto
    ultimately show ?thesis
      by (auto simp: held_def encoder_ok_def)
  qed
  then show "\<exists>cs. writes bytes cs \<and>
      code_points utf16 (held h @ unat u # us) = cs @ code_points utf16 (held h' @ us)"
    and "encoder_ok utf16 h'" and "length bytes \<le> 6" and "h' \<noteq> 0 \<Longrightarrow> length bytes \<le> 3"
    by blast+
qed

section \<open>The chunks\<close>

text \<open>A writer that gets the chunks one after the other, until it fails.\<close>

fun feed :: "'c writer \<Rightarrow> byte list list \<Rightarrow> 'c \<Rightarrow> bool \<times> 'c" where
  "feed w [] c = (True, c)"
| "feed w (k # ks) c = (case w k c of (True, c') \<Rightarrow> feed w ks c' | (False, c') \<Rightarrow> (False, c'))"

definition chunk_ok :: "byte list \<Rightarrow> bool" where
  "chunk_ok k \<longleftrightarrow> k \<noteq> [] \<and> length k \<le> kMaximumUtf8ChunkLength \<and> IsValidUtf8 k"

text \<open>What the buffer may hold: after a high surrogate there is room for its replacement.\<close>

definition buffer_ok :: "byte list \<Rightarrow> 32 word \<Rightarrow> bool" where
  "buffer_ok buffer h \<longleftrightarrow> IsValidUtf8 buffer \<and>
     length buffer + (if h = 0 then 0 else 3) \<le> kMaximumUtf8ChunkLength"

lemma writes_valid: "writes k cs \<Longrightarrow> IsValidUtf8 k"
  by (auto simp: writes_def IsValidUtf8_def AnalyzeUtf8_def analyze_loop_valid sequences_utf8)

lemma valid_writes: "IsValidUtf8 k \<Longrightarrow> \<exists>cs. writes k cs"
  by (auto simp: writes_def IsValidUtf8_def AnalyzeUtf8_def analyze_loop_valid sequences_utf8)

lemma valid_append: "IsValidUtf8 a \<Longrightarrow> IsValidUtf8 b \<Longrightarrow> IsValidUtf8 (a @ b)"
  by (meson valid_writes writes_append writes_valid)

text \<open>One unit: at most one chunk is handed over, and the buffer has room for the unit.\<close>

lemma feed_append:
  "feed w (ks @ ks') c = (case feed w ks c of (True, c') \<Rightarrow> feed w ks' c' | (False, c') \<Rightarrow> (False, c'))"
  by (induction ks arbitrary: c) (auto split: prod.splits bool.splits)

lemma reserve_chunks:
  assumes "buffer_ok buffer h"
  obtains ks buffer' where "\<And>(w :: 'a writer) c. reserve w buffer c =
      (case feed w ks c of (True, c') \<Rightarrow> (True, buffer', c') | (False, c') \<Rightarrow> (False, buffer, c'))"
    and "list_all chunk_ok ks" and "concat ks @ buffer' = buffer"
    and "IsValidUtf8 buffer'" and "length buffer' + kMaximumLength \<le> kMaximumUtf8ChunkLength"
proof (cases "kMaximumUtf8ChunkLength - length buffer < kMaximumLength")
  case True
  have "chunk_ok buffer"
    using assms True
    by (auto simp: chunk_ok_def buffer_ok_def kMaximumUtf8ChunkLength_def kMaximumLength_def split: if_splits)
  with True show thesis
    by (intro that [of "[]" "[buffer]"])
      (auto simp: reserve_def kMaximumUtf8ChunkLength_def kMaximumLength_def writes_valid [OF writes_Nil]
        split: prod.splits bool.splits)
next
  case False
  with assms show thesis
    by (intro that [of buffer "[]"]) (auto simp: reserve_def buffer_ok_def)
qed

lemma write_units_chunks:
  assumes "encoder_ok utf16 h" and "units_ok utf16 us" and "buffer_ok buffer h"
  shows "\<exists>ks buffer' h' cs.
     (\<forall>(w :: 'a writer) c. case feed w ks c of
         (True, c') \<Rightarrow> write_units utf16 w us buffer h c = (True, buffer', h', c')
       | (False, c') \<Rightarrow> \<exists>b e. write_units utf16 w us buffer h c = (False, b, e, c')) \<and>
     list_all chunk_ok ks \<and> buffer_ok buffer' h' \<and> encoder_ok utf16 h' \<and>
     (\<exists>bytes. concat ks @ buffer' = buffer @ bytes \<and> writes bytes cs) \<and>
     code_points utf16 (held h @ map unat us) = cs @ code_points utf16 (held h')"
  using assms
proof (induction us arbitrary: buffer h)
  case Nil
  then show ?case
    by (intro exI [of _ "[]"] exI [of _ buffer] exI [of _ h]) auto
next
  case (Cons u us)
  obtain ks buffer1 where res: "\<And>(w :: 'a writer) c. reserve w buffer c =
      (case feed w ks c of (True, c') \<Rightarrow> (True, buffer1, c') | (False, c') \<Rightarrow> (False, buffer, c'))"
    and ks: "list_all chunk_ok ks" "concat ks @ buffer1 = buffer"
    and buffer1: "IsValidUtf8 buffer1" "length buffer1 + kMaximumLength \<le> kMaximumUtf8ChunkLength"
    by (rule reserve_chunks [OF Cons.prems(3)]) (rule that; assumption)
  obtain bytes h1 where put: "Put utf16 u h = (bytes, h1)"
    by (cases "Put utf16 u h")
  have u: "utf16 \<longrightarrow> unat u < 0x10000" and us: "units_ok utf16 us"
    using Cons.prems(2) by (auto simp: units_ok_def)
  note put_facts = Put_code_points [OF Cons.prems(1) u put]
  obtain cs1 where cs1: "writes bytes cs1"
    "code_points utf16 (held h @ unat u # map unat us) = cs1 @ code_points utf16 (held h1 @ map unat us)"
    using put_facts(1) by blast
  have "buffer_ok (buffer1 @ bytes) h1"
    using buffer1 put_facts(3,4) valid_append [OF buffer1(1) writes_valid [OF cs1(1)]]
    by (auto simp: buffer_ok_def kMaximumLength_def kMaximumUtf8ChunkLength_def)
  from Cons.IH [OF put_facts(2) us this] obtain ks' buffer' h' cs bytes' where IH:
     "\<forall>(w :: 'a writer) c. case feed w ks' c of
         (True, c') \<Rightarrow> write_units utf16 w us (buffer1 @ bytes) h1 c = (True, buffer', h', c')
       | (False, c') \<Rightarrow> \<exists>b e. write_units utf16 w us (buffer1 @ bytes) h1 c = (False, b, e, c')"
     "list_all chunk_ok ks'" "buffer_ok buffer' h'" "encoder_ok utf16 h'"
     "concat ks' @ buffer' = (buffer1 @ bytes) @ bytes'" "writes bytes' cs"
     "code_points utf16 (held h1 @ map unat us) = cs @ code_points utf16 (held h')"
    by blast
  have run: "case feed w (ks @ ks') c of
         (True, c') \<Rightarrow> write_units utf16 w (u # us) buffer h c = (True, buffer', h', c')
       | (False, c') \<Rightarrow> \<exists>b e. write_units utf16 w (u # us) buffer h c = (False, b, e, c')" for w :: "'a writer" and c
  proof -
    obtain ok c1 where first: "feed w ks c = (ok, c1)"
      by (cases "feed w ks c")
    show ?thesis
    proof (cases ok)
      case True
      then have "write_units utf16 w (u # us) buffer h c = write_units utf16 w us (buffer1 @ bytes) h1 c1"
        by (simp add: res first put)
      moreover have "feed w (ks @ ks') c = feed w ks' c1"
        using True by (simp add: feed_append first)
      ultimately show ?thesis
        using IH(1) [rule_format, of w c1] by (simp only:)
    next
      case False
      then show ?thesis
        by (simp add: feed_append res first)
    qed
  qed
  have bytes: "concat (ks @ ks') @ buffer' = buffer @ (bytes @ bytes')"
    using IH(5) ks(2) by auto
  have "writes (bytes @ bytes') (cs1 @ cs)"
    using cs1(1) IH(6) by (rule writes_append)
  with bytes have out: "\<exists>b. concat (ks @ ks') @ buffer' = buffer @ b \<and> writes b (cs1 @ cs)"
    by blast
  have codes: "code_points utf16 (held h @ map unat (u # us)) = (cs1 @ cs) @ code_points utf16 (held h')"
    using cs1(2) IH(7) by simp
  have chunks: "list_all chunk_ok (ks @ ks')"
    using ks(1) IH(2) by simp
  show ?case
    by (rule exI [of _ "ks @ ks'"], rule exI [of _ buffer'], rule exI [of _ h'], rule exI [of _ "cs1 @ cs"])
      (use run chunks out codes IH(3,4) in blast)
qed

lemma Finish_writes:
  assumes "encoder_ok utf16 h"
  shows "writes (fst (Finish h)) (code_points utf16 (held h))"
    and "length (fst (Finish h)) \<le> (if h = 0 then 0 else 3)"
  using assms replacement by (auto simp: Finish_def held_def encoder_ok_def replaced_high)

lemma wide_chunks:
  assumes "units_ok utf16 units"
  shows "\<exists>ks. (\<forall>(w :: 'a writer) c. WriteWideAsUtf8 utf16 (Some units) (Some w) c = feed w ks c) \<and>
    list_all chunk_ok ks \<and> map unat (concat ks) = utf8_text (code_points utf16 (map unat units))"
proof -
  have "buffer_ok [] 0" and "encoder_ok utf16 0"
    by (simp_all add: buffer_ok_def encoder_ok_def writes_valid [OF writes_Nil])
  from write_units_chunks [OF this(2) assms this(1)] obtain ks buffer h cs where
    run: "\<forall>(w :: 'a writer) c. case feed w ks c of
         (True, c') \<Rightarrow> write_units utf16 w units [] 0 c = (True, buffer, h, c')
       | (False, c') \<Rightarrow> \<exists>b e. write_units utf16 w units [] 0 c = (False, b, e, c')"
    and ks: "list_all chunk_ok ks" and h: "buffer_ok buffer h" "encoder_ok utf16 h"
    and bytes: "writes (concat ks @ buffer) cs"
    and cs: "code_points utf16 (map unat units) = cs @ code_points utf16 (held h)"
    by (auto simp: held_def)
  define last where "last = buffer @ fst (Finish h)"
  note fin = Finish_writes [OF h(2)]
  have "IsValidUtf8 last" "length last \<le> kMaximumUtf8ChunkLength"
    using h(1) fin valid_append writes_valid unfolding last_def buffer_ok_def by (fastforce split: if_splits)+
  then have chunk: "last \<noteq> [] \<Longrightarrow> chunk_ok last"
    by (simp add: chunk_ok_def)
  have "WriteWideAsUtf8 utf16 (Some units) (Some w) c = feed w (if last = [] then ks else ks @ [last]) c"
    for w :: "'a writer" and c
  proof -
    obtain ok c1 where "feed w ks c = (ok, c1)"
      by (cases "feed w ks c")
    then show ?thesis
      using run [rule_format, of w c]
      by (cases ok) (auto simp: WriteWideAsUtf8_def feed_append last_def Let_def split: prod.splits bool.splits)
  qed
  moreover have "concat (if last = [] then ks else ks @ [last]) = (concat ks @ buffer) @ fst (Finish h)"
    by (simp add: last_def)
  moreover have "writes ((concat ks @ buffer) @ fst (Finish h)) (code_points utf16 (map unat units))"
    unfolding cs using bytes fin(1) by (rule writes_append)
  moreover have "list_all chunk_ok (if last = [] then ks else ks @ [last])"
    using ks chunk by simp
  ultimately show ?thesis
    unfolding writes_def by metis
qed

text \<open>C24. Wide text reaches the writer as a sequence of chunks that depends on the text
  alone: non-empty, within the buffer, each of them UTF-8 of its own, and together the
  encoding of the code points of the text, with U+FFFD for what is no scalar value. A
  failure of the writer ends the sequence and is the result.\<close>

theorem WriteWideAsUtf8_chunks:
  assumes "units_ok utf16 units"
  shows "\<exists>ks. (\<forall>(w :: 'a writer) c. WriteWideAsUtf8 utf16 (Some units) (Some w) c = feed w ks c) \<and>
    (\<forall>k\<in>set ks. k \<noteq> [] \<and> length k \<le> kMaximumUtf8ChunkLength \<and> IsValidUtf8 k) \<and>
    map unat (concat ks) = utf8_text (code_points utf16 (map unat units))"
  using wide_chunks [OF assms] unfolding list_all_iff chunk_ok_def .

theorem WriteWideAsUtf8_chunks_witness:
  "\<exists>ks. WriteWideAsUtf8 True (Some [0x61, 0xd83d, 0xde00, 0xd800]) (Some (\<lambda>k out. (True, out @ k))) [] =
      feed (\<lambda>k out. (True, out @ k)) ks [] \<and>
    map unat (concat ks) = utf8 0x61 @ utf8 0x1f600 @ utf8 0xfffd"
proof -
  have "units_ok True [0x61, 0xd83d, 0xde00, 0xd800]"
    by (simp add: units_ok_def)
  moreover have "code_points True (map unat [0x61 :: wide_char, 0xd83d, 0xde00, 0xd800]) =
      [0x61, 0x1f600, 0xfffd]"
    by (simp add: code_points.simps(3) replaced_def scalar_def)
  ultimately show ?thesis
    using WriteWideAsUtf8_chunks [of True "[0x61, 0xd83d, 0xde00, 0xd800]"] by fastforce
qed

section \<open>Wide text in a message\<close>

lemma length_stream_text: "message_ok d \<Longrightarrow> length (stream_text d) = pcount d"
  by (simp add: message_ok_def stream_text_def stream_capacity_def kMaxLogMessageLen_def)

lemma feed_append_chunk:
  assumes "message_ok d"
  obtains d' where "feed append_chunk ks (d, n) = (True, d', n + length (concat ks))"
    and "message_ok d'"
    and "stream_text d' = take stream_capacity (stream_text d @ map byte_char (concat ks))"
  using assms
proof (induction ks arbitrary: d n thesis)
  case Nil
  have "length (stream_text d) \<le> stream_capacity"
    using Nil.prems(2) length_stream_text by (simp add: message_ok_def)
  then show ?case
    using Nil by simp
next
  case (Cons k ks)
  let ?d = "stream_append (map byte_char k) d"
  note k = stream_append_text [OF Cons.prems(2), of "map byte_char k"]
  from Cons.IH [OF _ k(2), of "n + length k"] obtain d' where d':
    "feed append_chunk ks (?d, n + length k) = (True, d', n + length k + length (concat ks))"
    "message_ok d'" "stream_text d' = take stream_capacity (stream_text ?d @ map byte_char (concat ks))"
    by blast
  show ?case
  proof (rule Cons.prems(1))
    show "feed append_chunk (k # ks) (d, n) = (True, d', n + length (concat (k # ks)))"
      using d'(1) by (simp add: append_chunk_def)
    show "stream_text d' = take stream_capacity (stream_text d @ map byte_char (concat (k # ks)))"
      using d'(3) k(1) by (simp add: min_def)
  qed (rule d'(2))
qed

text \<open>The characters of the encoding of wide text.\<close>

definition wide_chars :: "bool \<Rightarrow> wide_char list \<Rightarrow> string" where
  "wide_chars utf16 units = map char_of (utf8_text (code_points utf16 (map unat units)))"

text \<open>\<open>AppendWide\<close> puts the encoding of wide text into the message, cut off where the
  stream ends, and records the span of the text exactly when nothing was cut off, so
  that a recorded span covers the whole encoding.\<close>

theorem AppendWide_span:
  assumes "message_ok d" and "units_ok utf16 units"
    and "AppendWide utf16 units (d, span) = (d', span')"
  shows "message_ok d' \<and>
    stream_text d' = take stream_capacity (stream_text d @ wide_chars utf16 units) \<and>
    span' = (if pcount d + length (wide_chars utf16 units) \<le> stream_capacity
             then Some \<lparr>wide_text = units, wide_begin = pcount d,
                        wide_end = pcount d + length (wide_chars utf16 units)\<rparr>
             else span)"
proof -
  obtain ks where ks: "WriteWideAsUtf8 utf16 (Some units) (Some append_chunk) (d, 0) = feed append_chunk ks (d, 0)"
    and bytes: "map unat (concat ks) = utf8_text (code_points utf16 (map unat units))"
    using wide_chunks [OF assms(2), where ?'a = "message_data \<times> nat"] by (elim exE conjE) simp
  obtain d2 where d2: "feed append_chunk ks (d, 0) = (True, d2, length (concat ks))" "message_ok d2"
    "stream_text d2 = take stream_capacity (stream_text d @ map byte_char (concat ks))"
    using feed_append_chunk [OF assms(1), of ks 0] by auto
  have chars: "map byte_char (concat ks) = wide_chars utf16 units"
    unfolding wide_chars_def bytes [symmetric] by (simp add: byte_char_def)
  have len: "length (concat ks) = length (wide_chars utf16 units)"
    unfolding chars [symmetric] by (rule length_map [symmetric])
  have count: "pcount d2 = min stream_capacity (pcount d + length (wide_chars utf16 units))"
    using length_stream_text [OF d2(2)] length_stream_text [OF assms(1)] d2(3) chars by simp
  let ?n = "length (wide_chars utf16 units)"
  have "AppendWide utf16 units (d, span) =
      (d2, if pcount d2 - pcount d = ?n
           then Some \<lparr>wide_text = units, wide_begin = pcount d, wide_end = pcount d2\<rparr> else span)"
    by (simp add: AppendWide_def ks d2(1) len)
  then have result: "d' = d2" "span' = (if pcount d2 - pcount d = ?n
           then Some \<lparr>wide_text = units, wide_begin = pcount d, wide_end = pcount d2\<rparr> else span)"
    using assms(3) by simp_all
  have room: "pcount d \<le> stream_capacity"
    using assms(1) by (simp add: message_ok_def)
  show ?thesis
  proof (cases "pcount d + ?n \<le> stream_capacity")
    case True
    then have "pcount d2 = pcount d + ?n"
      using count by simp
    then show ?thesis
      using True result d2(2,3) chars by simp
  next
    case False
    then have "pcount d2 - pcount d \<noteq> ?n"
      using count room by linarith
    then show ?thesis
      using False result d2(2,3) chars by simp
  qed
qed

theorem AppendWide_span_witness:
  "snd (AppendWide False [0x20ac] (test_message NGLOG_INFO SendToLog None, None)) =
    Some \<lparr>wide_text = [0x20ac], wide_begin = 8, wide_end = 11\<rparr>"
proof -
  let ?d = "test_message NGLOG_INFO SendToLog None"
  have d: "pcount ?d = 8" by (simp add: test_message_def)
  have chars: "length (wide_chars False [0x20ac]) = 3"
    by (simp add: wide_chars_def replaced_def scalar_def utf8_def)
  obtain d' span' where call: "AppendWide False [0x20ac] (?d, None) = (d', span')"
    by (cases "AppendWide False [0x20ac] (?d, None)")
  show ?thesis
    using AppendWide_span [OF test_message_ok _ call] call
    by (simp add: d chars units_ok_def stream_capacity_def kMaxLogMessageLen_def)
qed

end
