(* ===== verification/LogFilenames.thy ===== *)
theory LogFilenames imports LogFile begin

text \<open>
  The names of log files, \<open>src/src/utilities.cc\<close>: the regular expression by which the log cleaner
  recognizes the files of a \<open>LogFileObject\<close>. \<open>MakeLogFilenameMatcher\<close> builds its text; what
  \<open>std::regex\<close> does with that text is modelled for the part of the grammar that can occur in it:
  literal and escaped characters, the class \<open>[0-9]\<close> with a count or \<open>+\<close>, and the two anchors.
\<close>

section \<open>Building the expression\<close>

definition log_filename_timestamp_pattern :: string where
  "log_filename_timestamp_pattern = ''[0-9]{8}-[0-9]{6}'' @ [CHR 0x5C] @ ''.[0-9]+''"

definition log_filename_never_match_pattern :: string where
  "log_filename_never_match_pattern = ''a^''"

text \<open>\<open>strchr\<close> finds the terminating null character as well.\<close>

definition regex_characters :: string where
  "regex_characters = CHR 0x5C # ''.^$|()[]{}*+?''"

definition EscapeRegexCharacters :: "string \<Rightarrow> string" where
  "EscapeRegexCharacters input =
     concat (map (\<lambda>c. if c \<in> set regex_characters \<or> c = NUL then [CHR 0x5C, c] else [c]) input)"

definition MakeLogFilenameMatcher :: "string \<Rightarrow> string \<Rightarrow> bool \<Rightarrow> string" where
  "MakeLogFilenameMatcher base ext timestamp_in_logfile_name =
     (if base = '''' \<and> timestamp_in_logfile_name then log_filename_never_match_pattern
      else ''^'' @ EscapeRegexCharacters base
           @ (if timestamp_in_logfile_name then log_filename_timestamp_pattern else '''')
           @ EscapeRegexCharacters ext @ ''$'')"

definition const_basename :: "string \<Rightarrow> string" where
  "const_basename filepath = rev (takeWhile (\<lambda>c. c \<noteq> CHR ''/'') (rev filepath))"

section \<open>\<open>std::regex\<close>\<close>

text \<open>\<open>Digits n m\<close>: at least \<open>n\<close> decimal digits, at most \<open>m\<close> where there is a bound.\<close>

datatype regex_atom = AtBegin | AtEnd | Literal char | Digits nat "nat option"

definition is_decimal :: "char \<Rightarrow> bool" where
  "is_decimal c \<longleftrightarrow> 48 \<le> (of_char c :: nat) \<and> (of_char c :: nat) \<le> 57"

lemma drop_Cons_shorter: "drop n s = q # t \<Longrightarrow> length t < length s"
  by (metis Suc_le_eq diff_le_self length_Cons length_drop)

lemma length_tl_dropWhile: "length (tl (dropWhile P t)) \<le> length t"
  using length_dropWhile_le [of P t] by simp

text \<open>The constructor of \<open>std::regex\<close>; \<open>None\<close> for a text outside of the modelled grammar. A
  backslash before a character with a meaning makes it a literal.\<close>

function std_regex :: "string \<Rightarrow> regex_atom list option" where
  "std_regex [] = Some []"
| "std_regex (c # s) =
     (if c = CHR ''^'' then map_option (Cons AtBegin) (std_regex s)
      else if c = CHR ''$'' then map_option (Cons AtEnd) (std_regex s)
      else if c = CHR 0x5C then
        (case s of
           [] \<Rightarrow> None
         | d # t \<Rightarrow> if d \<in> set regex_characters
                   then map_option (Cons (Literal d)) (std_regex t) else None)
      else if c = CHR ''['' then
        (if take 4 s \<noteq> ''0-9]'' then None
         else (case drop 4 s of
             [] \<Rightarrow> None
           | q # t \<Rightarrow>
               if q = CHR ''+'' then map_option (Cons (Digits 1 None)) (std_regex t)
               else if q = CHR ''{'' then
                 let count = takeWhile is_decimal t; rest = dropWhile is_decimal t
                 in if count = [] \<or> rest = [] \<or> hd rest \<noteq> CHR ''}'' then None
                    else map_option (Cons (Digits (read_nat count) (Some (read_nat count))))
                           (std_regex (tl rest))
               else None))
      else if c \<in> set regex_characters then None
      else map_option (Cons (Literal c)) (std_regex s))"
  by pat_completeness auto

termination
proof (relation "measure length", goal_cases)
  case (5 c s q t)
  then show ?case
    using drop_Cons_shorter [of 4 s] by fastforce
next
  case (6 c s q t count rest)
  then show ?case
    using drop_Cons_shorter [of 4 s] length_tl_dropWhile [of is_decimal t] by fastforce
qed auto

text \<open>\<open>std::regex_match\<close>: the whole text matches. The first argument says whether the position
  is the beginning of the text.\<close>

fun match_from :: "bool \<Rightarrow> regex_atom list \<Rightarrow> string \<Rightarrow> bool" where
  "match_from start [] s = (s = [])"
| "match_from start (AtBegin # r) s = (start \<and> match_from start r s)"
| "match_from start (AtEnd # r) s = (s = [] \<and> match_from start r s)"
| "match_from start (Literal c # r) s =
     (case s of [] \<Rightarrow> False | d # t \<Rightarrow> d = c \<and> match_from False r t)"
| "match_from start (Digits n m # r) s =
     list_ex (\<lambda>k. n \<le> k \<and> (case m of None \<Rightarrow> True | Some b \<Rightarrow> k \<le> b) \<and>
                  list_all is_decimal (take k s) \<and> match_from (start \<and> k = 0) r (drop k s))
       [0..<Suc (length s)]"

definition regex_match :: "string \<Rightarrow> regex_atom list \<Rightarrow> bool" where
  "regex_match name regex = match_from True regex name"

section \<open>What the expression stands for\<close>

lemma is_decimal_digits:
  "is_decimal (CHR ''8'')" "\<not> is_decimal (CHR ''}'')" "is_decimal (CHR ''6'')"
  by (simp_all add: is_decimal_def)

lemma std_regex_escape:
  "NUL \<notin> set s \<Longrightarrow>
   std_regex (EscapeRegexCharacters s @ r) = map_option (\<lambda>as. map Literal s @ as) (std_regex r)"
proof (induction s)
  case Nil
  then show ?case by (simp add: EscapeRegexCharacters_def option.map_ident)
next
  case (Cons c s)
  show ?case
  proof (cases "c \<in> set regex_characters")
    case True
    then have "std_regex (EscapeRegexCharacters (c # s) @ r) =
        map_option (Cons (Literal c)) (std_regex (EscapeRegexCharacters s @ r))"
      by (simp add: EscapeRegexCharacters_def)
    with Cons show ?thesis
      by (simp add: option.map_comp comp_def)
  next
    case False
    then have "c \<noteq> CHR ''^'' \<and> c \<noteq> CHR ''$'' \<and> c \<noteq> CHR 0x5C \<and> c \<noteq> CHR ''[''"
      by (auto simp: regex_characters_def)
    moreover have "c \<noteq> NUL"
      using Cons.prems by auto
    ultimately have "std_regex (EscapeRegexCharacters (c # s) @ r) =
        map_option (Cons (Literal c)) (std_regex (EscapeRegexCharacters s @ r))"
      using False by (simp add: EscapeRegexCharacters_def)
    with Cons show ?thesis
      by (simp add: option.map_comp comp_def)
  qed
qed

definition timestamp_atoms :: "regex_atom list" where
  "timestamp_atoms = [Digits 8 (Some 8), Literal (CHR ''-''), Digits 6 (Some 6), Literal (CHR ''.''),
     Digits 1 None]"

lemma std_regex_timestamp:
  "std_regex (log_filename_timestamp_pattern @ r) = map_option (\<lambda>as. timestamp_atoms @ as) (std_regex r)"
  by (simp add: log_filename_timestamp_pattern_def is_decimal_digits regex_characters_def
      timestamp_atoms_def read_nat_def digit_val_def option.map_comp comp_def)

definition matcher_atoms :: "string \<Rightarrow> string \<Rightarrow> bool \<Rightarrow> regex_atom list" where
  "matcher_atoms base ext timestamp =
     (if base = '''' \<and> timestamp then [Literal (CHR ''a''), AtBegin]
      else AtBegin # map Literal base @ (if timestamp then timestamp_atoms else [])
             @ map Literal ext @ [AtEnd])"

lemma std_regex_matcher:
  assumes "NUL \<notin> set base" and "NUL \<notin> set ext"
  shows "std_regex (MakeLogFilenameMatcher base ext timestamp) = Some (matcher_atoms base ext timestamp)"
proof (cases "base = '''' \<and> timestamp")
  case True
  then show ?thesis
    by (simp add: MakeLogFilenameMatcher_def log_filename_never_match_pattern_def matcher_atoms_def
        regex_characters_def)
next
  case False
  have anchors: "std_regex (''^'' @ t) = map_option (Cons AtBegin) (std_regex t)"
    "std_regex ''$'' = Some [AtEnd]" for t
    by simp_all
  show ?thesis
    unfolding MakeLogFilenameMatcher_def matcher_atoms_def if_not_P [OF False] anchors
    by (cases timestamp) (simp_all only: std_regex_escape [OF assms(1)] std_regex_escape [OF assms(2)]
        std_regex_timestamp anchors if_True if_False append_Nil option.map)
qed

text \<open>The part of a name that a \<open>LogFileObject\<close> writes between the base and the extension.\<close>

definition is_stamp :: "string \<Rightarrow> bool" where
  "is_stamp s \<longleftrightarrow> (\<exists>date time pid. s = date @ ''-'' @ time @ ''.'' @ pid \<and>
     length date = 8 \<and> length time = 6 \<and> pid \<noteq> [] \<and>
     list_all is_decimal (date @ time @ pid))"

lemma match_literals:
  "match_from b (map Literal t @ r) s \<longleftrightarrow>
     (\<exists>u. s = t @ u \<and> match_from (b \<and> t = []) r u)"
proof (induction t arbitrary: b s)
  case (Cons c t)
  then show ?case by (cases s) auto
qed simp

lemma match_digits:
  "match_from b (Digits n m # r) s \<longleftrightarrow>
     (\<exists>t u. s = t @ u \<and> n \<le> length t \<and> (case m of None \<Rightarrow> True | Some k \<Rightarrow> length t \<le> k) \<and>
        list_all is_decimal t \<and> match_from (b \<and> t = []) r u)" (is "?L \<longleftrightarrow> ?R")
proof
  assume ?L
  then obtain k where k: "k \<le> length s" "n \<le> k" "case m of None \<Rightarrow> True | Some b \<Rightarrow> k \<le> b"
    "list_all is_decimal (take k s)" "match_from (b \<and> k = 0) r (drop k s)"
    by (auto simp: list_ex_iff less_Suc_eq_le simp del: upt_Suc)
  have "take k s = [] \<longleftrightarrow> k = 0"
    using k(1) by auto
  with k have "s = take k s @ drop k s \<and> n \<le> length (take k s) \<and>
      (case m of None \<Rightarrow> True | Some b \<Rightarrow> length (take k s) \<le> b) \<and>
      list_all is_decimal (take k s) \<and> match_from (b \<and> take k s = []) r (drop k s)"
    by (simp split: option.splits)
  then show ?R by blast
next
  assume ?R
  then obtain t u where "s = t @ u" "n \<le> length t" "case m of None \<Rightarrow> True | Some k \<Rightarrow> length t \<le> k"
    "list_all is_decimal t" "match_from (b \<and> t = []) r u"
    by blast
  then show ?L
    by (auto simp: list_ex_iff simp del: upt_Suc intro!: bexI [of _ "length t"])
qed

lemma match_digitsI:
  "n \<le> length t \<Longrightarrow> (case m of None \<Rightarrow> True | Some k \<Rightarrow> length t \<le> k) \<Longrightarrow> list_all is_decimal t \<Longrightarrow>
   match_from (b \<and> t = []) r u \<Longrightarrow> match_from b (Digits n m # r) (t @ u)"
  unfolding match_digits by blast

lemma match_timestamp:
  "match_from b (timestamp_atoms @ r) s \<longleftrightarrow> (\<exists>t u. s = t @ u \<and> is_stamp t \<and> match_from False r u)"
    (is "?L \<longleftrightarrow> ?R")
proof
  assume ?L
  then obtain date s1 where s1: "s = date @ s1" "length date = 8" "list_all is_decimal date"
    "match_from False (tl timestamp_atoms @ r) s1"
    unfolding timestamp_atoms_def append_Cons match_digits by fastforce
  then obtain s2 where s2: "s1 = CHR ''-'' # s2"
    "match_from False (tl (tl timestamp_atoms) @ r) s2"
    by (auto simp: timestamp_atoms_def split: list.splits)
  then obtain time s3 where s3: "s2 = time @ s3" "length time = 6" "list_all is_decimal time"
    "match_from False (tl (tl (tl timestamp_atoms)) @ r) s3"
    unfolding timestamp_atoms_def list.sel append_Cons match_digits by fastforce
  then obtain s4 where s4: "s3 = CHR ''.'' # s4" "match_from False (Digits 1 None # r) s4"
    by (auto simp: timestamp_atoms_def split: list.splits)
  then obtain pid u where "s4 = pid @ u" "pid \<noteq> []" "list_all is_decimal pid" "match_from False r u"
    unfolding match_digits by fastforce
  with s1 s2 s3 s4 have "s = (date @ ''-'' @ time @ ''.'' @ pid) @ u \<and> is_stamp (date @ ''-'' @ time @ ''.'' @ pid)
      \<and> match_from False r u"
    unfolding is_stamp_def by auto
  then show ?R by blast
next
  assume ?R
  then obtain date time pid u where s: "s = date @ CHR ''-'' # time @ CHR ''.'' # pid @ u"
    and parts: "length date = 8" "length time = 6" "pid \<noteq> []" "list_all is_decimal (date @ time @ pid)"
    and u: "match_from False r u"
    unfolding is_stamp_def by auto
  have "match_from False (Digits 1 None # r) (pid @ u)"
    using parts u by (intro match_digitsI) (auto simp: Suc_le_eq)
  then have "match_from False (Digits 6 (Some 6) # Literal (CHR ''.'') # Digits 1 None # r)
      (time @ CHR ''.'' # pid @ u)"
    using parts by (intro match_digitsI) (auto simp del: match_from.simps(5))
  then show ?L
    unfolding timestamp_atoms_def append_Cons append_Nil s
    using parts by (intro match_digitsI) (auto simp del: match_from.simps(5))
qed

text \<open>The expression stands for the base, a stamp where the names carry one, and the
  extension.\<close>

definition file_name_of :: "string \<Rightarrow> string \<Rightarrow> bool \<Rightarrow> string \<Rightarrow> bool" where
  "file_name_of base ext timestamp name \<longleftrightarrow>
     (if timestamp then base \<noteq> '''' \<and> (\<exists>stamp. is_stamp stamp \<and> name = base @ stamp @ ext)
      else name = base @ ext)"

lemma match_end: "match_from b (map Literal ext @ [AtEnd]) s \<longleftrightarrow> s = ext"
  by (auto simp: match_literals)

lemma regex_match_matcher:
  "regex_match name (matcher_atoms base ext timestamp) \<longleftrightarrow> file_name_of base ext timestamp name"
proof (cases "base = '''' \<and> timestamp")
  case True
  then show ?thesis
    by (auto simp: regex_match_def matcher_atoms_def file_name_of_def split: list.splits)
next
  case False
  then show ?thesis
    unfolding regex_match_def matcher_atoms_def if_not_P [OF False] file_name_of_def
    by (cases timestamp) (auto simp: match_literals match_timestamp match_end)
qed

end
