(* ===== verification/LogCleaner.thy ===== *)
theory LogCleaner imports LogFilenames "HOL-Library.List_Lexorder" "HOL-Library.Char_ord" begin

text \<open>
  The log cleaner, \<open>src/src/internal/log_cleaner.cc\<close>: the patterns of the log files that were
  created, the scan of their directories for overdue files, and the thread that runs it. The
  visitor of directories and the path functions are those of \<open>src/src/internal/path.cc\<close> for paths
  within the limit of the system.

  Times are ticks of nanoseconds: the wall clock for the age of files, the steady clock for the
  schedule. The file system is a state of any type with the operations of the system on it.
\<close>

section \<open>Paths and the file system\<close>

definition JoinPath :: "string \<Rightarrow> string \<Rightarrow> string" where
  "JoinPath directory filename =
     (if directory = ''.'' then filename
      else if directory \<noteq> '''' \<and> last directory = CHR ''/'' then directory @ filename
      else directory @ ''/'' @ filename)"

text \<open>\<open>readdir\<close> over a whole directory, the modification time of a file in seconds where \<open>stat\<close>
  succeeds, \<open>unlink\<close>, and the order in which the elements of an \<open>unordered_set\<close> are visited,
  which the standard leaves open.\<close>

record 'f fs_ops =
  fs_readdir :: "string \<Rightarrow> 'f \<Rightarrow> string list"
  fs_stat :: "string \<Rightarrow> 'f \<Rightarrow> int option"
  fs_unlink :: "string \<Rightarrow> 'f \<Rightarrow> bool \<times> 'f"
  set_order :: "string list \<Rightarrow> string list"

definition StatPosixPath :: "'f fs_ops \<Rightarrow> string \<Rightarrow> 'f \<Rightarrow> int option" where
  "StatPosixPath ops path fs = (if NUL \<in> set path then None else fs_stat ops path fs)"

definition UnlinkPosixPath :: "'f fs_ops \<Rightarrow> string \<Rightarrow> 'f \<Rightarrow> bool \<times> 'f" where
  "UnlinkPosixPath ops path fs = (if NUL \<in> set path then (False, fs) else fs_unlink ops path fs)"

text \<open>The entries for which \<open>ForEachPosixDirectory\<close> calls a callback that never stops it.\<close>

definition ForEachPosixDirectory :: "'f fs_ops \<Rightarrow> string \<Rightarrow> 'f \<Rightarrow> string list" where
  "ForEachPosixDirectory ops path fs =
     (if NUL \<in> set path then []
      else filter (\<lambda>name. name \<noteq> ''.'' \<and> name \<noteq> ''..'') (fs_readdir ops path fs))"

section \<open>Finding and removing overdue files\<close>

definition kTicksPerMinute :: int where
  "kTicksPerMinute = 60 * kTicksPerSecond"

definition IsLogLastModifiedOverPath :: "'f fs_ops \<Rightarrow> string \<Rightarrow> int \<Rightarrow> int \<Rightarrow> 'f \<Rightarrow> bool" where
  "IsLogLastModifiedOverPath ops filepath current_time overdue fs =
     (case StatPosixPath ops filepath fs of
        None \<Rightarrow> False
      | Some st_mtime \<Rightarrow> current_time - st_mtime * kTicksPerSecond \<ge> overdue * kTicksPerMinute)"

record LogFilePattern =
  pattern_source :: LogFilenameSource
  filename_regex :: "regex_atom list"
  filenames_by_directory :: "(string \<times> string list) list"
  logging_directories :: "string list"
  next_cleanup_time :: int

text \<open>The callback of the scan: which paths it adds to \<open>overdue_log_names\<close>.\<close>

definition VisitOverdueLog ::
  "'f fs_ops \<Rightarrow> string \<Rightarrow> int \<Rightarrow> int \<Rightarrow> regex_atom list \<Rightarrow> 'f \<Rightarrow> string \<Rightarrow> string list" where
  "VisitOverdueLog ops log_directory current_time overdue regex fs name =
     (if \<not> regex_match name regex then []
      else let filepath = JoinPath log_directory name
           in if IsLogLastModifiedOverPath ops filepath current_time overdue fs then [filepath] else [])"

definition GetOverdueLogNames ::
  "'f fs_ops \<Rightarrow> string \<Rightarrow> int \<Rightarrow> int \<Rightarrow> LogFilePattern \<Rightarrow> 'f \<Rightarrow> string list" where
  "GetOverdueLogNames ops log_directory current_time overdue pattern fs =
     (let exact = (case map_of (filenames_by_directory pattern) log_directory of
                     None \<Rightarrow> []
                   | Some filenames \<Rightarrow>
                       filter (\<lambda>filepath. IsLogLastModifiedOverPath ops filepath current_time overdue fs)
                         (map (JoinPath log_directory) filenames));
          visited = concat (map (VisitOverdueLog ops log_directory current_time overdue
                                   (filename_regex pattern) fs)
                              (ForEachPosixDirectory ops log_directory fs))
      in set_order ops (remdups (exact @ visited)))"

text \<open>\<open>dirs\<close>, a \<open>std::set\<close>: an empty name stands for the current directory.\<close>

definition dot_if_empty :: "string \<Rightarrow> string" where
  "dot_if_empty directory = (if directory = '''' then ''.'' else directory)"

definition clean_dirs :: "string \<Rightarrow> LogFilePattern \<Rightarrow> string list" where
  "clean_dirs base pattern =
     (let source = (case pattern_source pattern of
                      kDefault \<Rightarrow> map dot_if_empty (logging_directories pattern)
                    | kSelected \<Rightarrow>
                        (case find_last_sep base of
                           Some pos \<Rightarrow> [dot_if_empty (take (pos + 1) base)]
                         | None \<Rightarrow> [''.'']))
      in sort (remdups (source @ map (dot_if_empty \<circ> fst) (filenames_by_directory pattern))))"

text \<open>The files that were removed, with the result of the removal.\<close>

fun remove_logs :: "'f fs_ops \<Rightarrow> string list \<Rightarrow> 'f \<Rightarrow> (string \<times> bool) list \<Rightarrow> 'f \<times> (string \<times> bool) list" where
  "remove_logs ops [] fs removed = (fs, removed)"
| "remove_logs ops (log # logs) fs removed =
     (case UnlinkPosixPath ops log fs of
        (ok, fs') \<Rightarrow> remove_logs ops logs fs' (removed @ [(log, ok)]))"

fun clean_dirs_loop ::
  "'f fs_ops \<Rightarrow> int \<Rightarrow> int \<Rightarrow> LogFilePattern \<Rightarrow> string list \<Rightarrow> 'f \<Rightarrow> (string \<times> bool) list
   \<Rightarrow> 'f \<times> (string \<times> bool) list" where
  "clean_dirs_loop ops current_time overdue pattern [] fs removed = (fs, removed)"
| "clean_dirs_loop ops current_time overdue pattern (dir # dirs) fs removed =
     (case remove_logs ops (GetOverdueLogNames ops dir current_time overdue pattern fs) fs removed of
        (fs', removed') \<Rightarrow> clean_dirs_loop ops current_time overdue pattern dirs fs' removed')"

definition CleanOverdueLogs ::
  "'f fs_ops \<Rightarrow> int \<Rightarrow> int \<Rightarrow> string \<Rightarrow> LogFilePattern \<Rightarrow> 'f \<Rightarrow> (string \<times> bool) list
   \<Rightarrow> 'f \<times> (string \<times> bool) list" where
  "CleanOverdueLogs ops current_time overdue base pattern =
     clean_dirs_loop ops current_time overdue pattern (clean_dirs base pattern)"

fun clean_patterns ::
  "'f fs_ops \<Rightarrow> int \<Rightarrow> int \<Rightarrow> (string \<times> LogFilePattern) list \<Rightarrow> 'f \<Rightarrow> (string \<times> bool) list
   \<Rightarrow> 'f \<times> (string \<times> bool) list" where
  "clean_patterns ops current_time overdue [] fs removed = (fs, removed)"
| "clean_patterns ops current_time overdue ((base, pattern) # ps) fs removed =
     (case CleanOverdueLogs ops current_time overdue base pattern fs removed of
        (fs', removed') \<Rightarrow> clean_patterns ops current_time overdue ps fs' removed')"

section \<open>The cleaner and its thread\<close>

text \<open>\<open>thread_\<close> is the number of the thread that was started, if it was not yet joined.\<close>

record LogCleaner =
  enabled :: bool
  overdue_minutes :: int
  patterns :: "(string \<times> LogFilePattern) list"
  thread_of :: "nat option"

definition initial_cleaner :: LogCleaner where
  "initial_cleaner = \<lparr>enabled = False, overdue_minutes = 7 * 24 * 60, patterns = [], thread_of = None\<rparr>"

text \<open>\<open>tid\<close> is the number of the thread that \<open>std::thread\<close> would start.\<close>

definition Enable :: "int \<Rightarrow> nat \<Rightarrow> LogCleaner \<Rightarrow> LogCleaner" where
  "Enable overdue tid c =
     (if enabled c then c\<lparr>overdue_minutes := overdue\<rparr>
      else c\<lparr>overdue_minutes := overdue, enabled := True,
             patterns := map (\<lambda>(base, p). (base, p\<lparr>next_cleanup_time := 0\<rparr>)) (patterns c),
             thread_of := Some tid\<rparr>)"

text \<open>The critical section of \<open>Stop\<close>: what it returns and the thread that it then joins.\<close>

definition Stop :: "LogCleaner \<Rightarrow> bool \<times> nat option \<times> LogCleaner" where
  "Stop c = (enabled c, thread_of c, c\<lparr>enabled := False, thread_of := None\<rparr>)"

definition insert_name :: "string \<Rightarrow> string \<Rightarrow> (string \<times> string list) list \<Rightarrow> (string \<times> string list) list" where
  "insert_name directory name names =
     (case map_of names directory of
        None \<Rightarrow> names @ [(directory, [name])]
      | Some filenames \<Rightarrow>
          map (\<lambda>(d, fs). (d, if d = directory then List.insert name fs else fs)) names)"

text \<open>\<open>GetLoggingDirectories()\<close> is the argument \<open>log_dirs\<close>; the regular expression is one that
  \<open>std::regex\<close> accepts, as it is for names without a null character.\<close>

definition new_pattern :: LogFilePattern where
  "new_pattern = \<lparr>pattern_source = kDefault, filename_regex = [], filenames_by_directory = [],
     logging_directories = [], next_cleanup_time = 0\<rparr>"

definition AddLogFile ::
  "string list \<Rightarrow> LogFilenameSource \<Rightarrow> string \<Rightarrow> string \<Rightarrow> string \<Rightarrow> bool \<Rightarrow> LogCleaner \<Rightarrow> LogCleaner" where
  "AddLogFile log_dirs source base filename ext timestamp c =
     (let (source_directory, relative_filename) =
            (case find_last_sep filename of
               None \<Rightarrow> (''.'', filename)
             | Some i \<Rightarrow> (take (i + 1) filename, drop (i + 1) filename));
          old = (case map_of (patterns c) base of None \<Rightarrow> new_pattern | Some p \<Rightarrow> p);
          p = old\<lparr>pattern_source := source,
                  filename_regex := the (std_regex (MakeLogFilenameMatcher (const_basename base) ext timestamp)),
                  logging_directories := (case source of kDefault \<Rightarrow> log_dirs
                                          | kSelected \<Rightarrow> logging_directories old),
                  filenames_by_directory :=
                    insert_name source_directory relative_filename (filenames_by_directory old),
                  next_cleanup_time := 0\<rparr>
      in c\<lparr>patterns := (if base \<in> fst ` set (patterns c)
                        then map (\<lambda>(b, q). (b, if b = base then p else q)) (patterns c)
                        else patterns c @ [(base, p)])\<rparr>)"

text \<open>The state of a cleaner thread: at the head of its loop, asleep until it is notified or
  until a deadline, scanning without the lock, or returned.\<close>

datatype worker =
    AtHead
  | Asleep "int option"
  | Scanning "(string \<times> LogFilePattern) list" int
  | Finished

definition due_patterns :: "int \<Rightarrow> (string \<times> LogFilePattern) list \<Rightarrow> (string \<times> LogFilePattern) list" where
  "due_patterns now ps = filter (\<lambda>(base, p). next_cleanup_time p \<le> now) ps"

definition reschedule :: "int \<Rightarrow> int \<Rightarrow> (string \<times> LogFilePattern) list \<Rightarrow> (string \<times> LogFilePattern) list" where
  "reschedule now secs ps =
     map (\<lambda>(base, p). (base, if next_cleanup_time p \<le> now
                             then p\<lparr>next_cleanup_time := now + secs * kTicksPerSecond\<rparr> else p)) ps"

text \<open>One pass through the critical section of \<open>Worker\<close>; \<open>secs\<close> is \<open>--logcleansecs\<close>.\<close>

definition worker_turn :: "int \<Rightarrow> int \<Rightarrow> LogCleaner \<Rightarrow> worker \<times> LogCleaner" where
  "worker_turn now secs c =
     (if \<not> enabled c then (Finished, c)
      else let due = due_patterns now (patterns c);
               c' = c\<lparr>patterns := reschedule now secs (patterns c)\<rparr>
           in if due \<noteq> [] then (Scanning due (overdue_minutes c), c')
              else case patterns c' of
                     [] \<Rightarrow> (Asleep None, c')
                   | (base, p) # ps \<Rightarrow>
                       (Asleep (Some (fold (\<lambda>(b, q) d. min d (next_cleanup_time q)) ((base, p) # ps)
                                       (next_cleanup_time p))), c'))"

text \<open>A thread that waits without a deadline goes on only if the cleaner was disabled or has
  patterns; one with a deadline may wake up at any time and looks again.\<close>

definition may_wake :: "int option \<Rightarrow> LogCleaner \<Rightarrow> bool" where
  "may_wake deadline c = (case deadline of None \<Rightarrow> \<not> enabled c \<or> patterns c \<noteq> [] | Some d \<Rightarrow> True)"

end
