(* ===== verification/LogCleanerProps.thy ===== *)
theory LogCleanerProps imports LogCleaner LogFileProps begin

text \<open>
  Correctness of the log cleaner: which names its expressions stand for, that they stand for the
  files that \<open>LogFileObject\<close> creates, what a scan removes and what it leaves, and the protocol of its
  thread: the schedule never loses a pattern, disabling from one thread at a time stops the thread
  and ends with a scan, and the interleaving in which it does not end.
\<close>

section \<open>Names\<close>

text \<open>C30. The expression of the cleaner stands for exactly the names that consist of the base, a
  time stamp with a process number where names carry one, and the extension; for no name at all
  if a stamp would be the only part in front of the extension. No character of the base or the
  extension has a meaning of its own.\<close>

theorem matcher_names:
  assumes "NUL \<notin> set base" and "NUL \<notin> set ext"
  shows "regex_match name (the (std_regex (MakeLogFilenameMatcher base ext timestamp))) =
    file_name_of base ext timestamp name"
  by (simp add: std_regex_matcher [OF assms] regex_match_matcher)

theorem matcher_names_witness:
  "\<not> regex_match ''axlog'' (the (std_regex (MakeLogFilenameMatcher ''a.'' ''log'' False)))"
  using matcher_names [of "''a.''" "''log''" "''axlog''" False] by (simp add: file_name_of_def)

lemma show_nat_decimal: "list_all is_decimal (show_nat n)"
proof (induction n rule: show_nat.induct)
  case (1 n)
  have digit: "d < 10 \<Longrightarrow> is_decimal (digit_char d)" for d
    by (simp add: is_decimal_def digit_char_def)
  with 1 show ?case
    by (subst show_nat.simps) simp
qed

lemma length_show_nat:
  "length (show_nat n) = (if n < 10 then 1 else Suc (length (show_nat (n div 10))))"
  by (subst show_nat.simps) simp

lemma length_show_nat_small:
  shows "n < 100 \<Longrightarrow> length (show_nat n) \<le> 2" and "1000 \<le> n \<Longrightarrow> n < 10000 \<Longrightarrow> length (show_nat n) = 4"
proof -
  show "length (show_nat n) \<le> 2" if "n < 100"
  proof -
    have "n div 10 < 10" using that by simp
    then show ?thesis
      by (simp add: length_show_nat [of n] length_show_nat [of "n div 10"])
  qed
  show "length (show_nat n) = 4" if "1000 \<le> n" "n < 10000"
  proof -
    have "\<not> n < 10" "\<not> n div 10 < 10" "\<not> n div 10 div 10 < 10" "n div 10 div 10 div 10 < 10"
      using that by (simp_all add: div_less_iff_less_mult)
    then have "length (show_nat (n div 10 div 10 div 10)) = 1"
      "length (show_nat n) = Suc (length (show_nat (n div 10)))"
      "length (show_nat (n div 10)) = Suc (length (show_nat (n div 10 div 10)))"
      "length (show_nat (n div 10 div 10)) = Suc (length (show_nat (n div 10 div 10 div 10)))"
      by (simp_all only: length_show_nat [of n] length_show_nat [of "n div 10"]
          length_show_nat [of "n div 10 div 10"] length_show_nat [of "n div 10 div 10 div 10"] if_False if_True)
    then show ?thesis by simp
  qed
qed

definition calendar_ok :: "tm \<Rightarrow> bool" where
  "calendar_ok t \<longleftrightarrow> 1000 \<le> 1900 + tm_year t \<and> 1900 + tm_year t < 10000 \<and>
     0 \<le> tm_mon t \<and> tm_mon t < 12 \<and> 0 \<le> tm_mday t \<and> tm_mday t < 32 \<and>
     0 \<le> tm_hour t \<and> tm_hour t < 24 \<and> 0 \<le> tm_min t \<and> tm_min t < 60 \<and> 0 \<le> tm_sec t \<and> tm_sec t < 62"

lemma two_digits:
  assumes "0 \<le> i" and "i < 100"
  shows "length (zero_pad 2 i) = 2" and "list_all is_decimal (zero_pad 2 i)"
  using assms length_show_nat_small(1) [of "nat i"] show_nat_decimal [of "nat i"]
  by (auto simp: show_int_def setw_def is_decimal_def list_all_iff)

lemma time_pid_stamp:
  assumes "calendar_ok t" and "0 \<le> pid"
  shows "is_stamp (time_pid_string t pid)"
proof -
  let ?date = "show_int (1900 + tm_year t) @ zero_pad 2 (1 + tm_mon t) @ zero_pad 2 (tm_mday t)"
  let ?time = "zero_pad 2 (tm_hour t) @ zero_pad 2 (tm_min t) @ zero_pad 2 (tm_sec t)"
  have year: "length (show_int (1900 + tm_year t)) = 4" "list_all is_decimal (show_int (1900 + tm_year t))"
  proof -
    have "1000 \<le> nat (1900 + tm_year t)" "nat (1900 + tm_year t) < 10000"
      using assms(1) unfolding calendar_ok_def by linarith+
    moreover have "\<not> 1900 + tm_year t < 0"
      using assms(1) unfolding calendar_ok_def by linarith
    ultimately show "length (show_int (1900 + tm_year t)) = 4"
      "list_all is_decimal (show_int (1900 + tm_year t))"
      unfolding show_int_def using length_show_nat_small(2) show_nat_decimal by simp_all
  qed
  have two: "0 \<le> i \<Longrightarrow> i < 100 \<Longrightarrow> length (zero_pad 2 i) = 2 \<and> list_all is_decimal (zero_pad 2 i)" for i
    using two_digits by blast
  have parts: "length ?date = 8" "length ?time = 6" "list_all is_decimal (?date @ ?time)"
    using assms(1) year two [of "1 + tm_mon t"] two [of "tm_mday t"] two [of "tm_hour t"]
      two [of "tm_min t"] two [of "tm_sec t"]
    by (simp_all add: calendar_ok_def)
  have pid: "show_int pid \<noteq> []" "list_all is_decimal (show_int pid)"
    using assms(2) show_nat_decimal by (simp_all add: show_int_def)
  have "time_pid_string t pid = ?date @ ''-'' @ ?time @ ''.'' @ show_int pid"
    by (simp add: time_pid_string_def)
  then show ?thesis
    unfolding is_stamp_def using parts pid by (metis list_all_append)
qed

lemma is_stamp_no_slash: "is_stamp s \<Longrightarrow> CHR ''/'' \<notin> set s"
proof
  assume "is_stamp s" and slash: "CHR ''/'' \<in> set s"
  then obtain date time pid where "s = date @ ''-'' @ time @ ''.'' @ pid"
    "list_all is_decimal (date @ time @ pid)"
    by (auto simp: is_stamp_def)
  with slash have "is_decimal (CHR ''/'')"
    by (auto simp: list_all_iff)
  then show False
    by (simp add: is_decimal_def)
qed

lemma const_basename_append:
  assumes "CHR ''/'' \<notin> set t"
  shows "const_basename (s @ t) = const_basename s @ t"
proof -
  have "takeWhile (\<lambda>c. c \<noteq> CHR ''/'') (rev t @ rev s) = rev t @ takeWhile (\<lambda>c. c \<noteq> CHR ''/'') (rev s)"
    using assms by (intro takeWhile_append2) auto
  then show ?thesis
    by (simp add: const_basename_def)
qed

lemma JoinPath_split:
  "(case find_last_sep filename of
      None \<Rightarrow> JoinPath ''.'' filename
    | Some i \<Rightarrow> JoinPath (take (i + 1) filename) (drop (i + 1) filename)) = filename"
proof (cases "find_last_sep filename")
  case (Some i)
  have "i \<in> set (filter (\<lambda>i. filename ! i = CHR ''/'') (rev [0..<length filename]))"
    using Some unfolding find_last_sep_def by (metis (no_types, lifting) list.exhaust list.set_intros(1)
        list.simps(4) list.simps(5) option.distinct(1) option.inject)
  then have i: "i < length filename" "filename ! i = CHR ''/''"
    by simp_all
  then have "take (i + 1) filename = take i filename @ ''/''"
    by (simp add: take_Suc_conv_app_nth)
  with Some show ?thesis
    using append_take_drop_id [of "i + 1" filename] by (auto simp: JoinPath_def)
qed (simp add: JoinPath_def)

section \<open>The files that \<open>LogFileObject\<close> creates\<close>

lemma CreateLogfile_created:
  "CreateLogfile fl os name f w = (True, f', w') \<Longrightarrow>
   stream f' = Some name \<and> base_filename f' = base_filename f \<and>
   filename_extension f' = filename_extension f \<and> filename_source f' = filename_source f"
  by (auto simp: CreateLogfile_def stat_existing_def close_file_def Let_def
      split: prod.splits option.splits if_splits)

lemma CreateLogfile_extension:
  "CreateLogfile fl os name f w = (ok, f', w') \<Longrightarrow> filename_extension f' = filename_extension f"
  by (auto simp: CreateLogfile_def stat_existing_def close_file_def Let_def
      split: prod.splits option.splits if_splits)

definition named :: "log_flags \<Rightarrow> string \<Rightarrow> string \<Rightarrow> log_file \<Rightarrow> bool" where
  "named fl tps name f \<longleftrightarrow> stream f = Some name \<and>
     name = MakeLogFilename (base_filename f) tps (filename_extension f) (FLAGS_timestamp_in_logfile_name fl)"

lemma try_log_dirs_named:
  "try_log_dirs fl os stripped tps filename dirs f w = ((True, name), f', w') \<Longrightarrow> named fl tps name f'"
proof (induction fl os stripped tps filename dirs f w rule: try_log_dirs.induct)
  case (2 fl os stripped tps filename dir dirs f w)
  let ?name = "MakeLogFilename (dir @ stripped) tps (filename_extension f) (FLAGS_timestamp_in_logfile_name fl)"
  obtain ok f2 w2 where c: "CreateLogfile fl os ?name (f\<lparr>base_filename := dir @ stripped\<rparr>) w = (ok, f2, w2)"
    by (metis prod_cases3)
  show ?case
  proof (cases ok)
    case True
    then show ?thesis
      using 2(2) c CreateLogfile_created [of fl os ?name "f\<lparr>base_filename := dir @ stripped\<rparr>" w f2 w2]
      by (auto simp: Let_def named_def)
  next
    case False
    then show ?thesis
      using 2 c by (simp add: Let_def)
  qed
qed simp

lemma create_named:
  "create_selected_or_default fl os tps f w = ((True, name), f', w') \<Longrightarrow> named fl tps name f'"
  by (auto simp: create_selected_or_default_def named_def Let_def
      dest!: CreateLogfile_created try_log_dirs_named [unfolded named_def]
      split: LogFilenameSource.splits prod.splits)

text \<open>What \<open>AddLogFile\<close> records of a file.\<close>

lemma map_of_insert_name:
  "\<exists>names. map_of (insert_name d n m) d = Some names \<and> n \<in> set names"
proof (cases "map_of m d")
  case None
  then show ?thesis
    by (simp add: insert_name_def map_add_def)
next
  case (Some names)
  then show ?thesis
    by (simp add: insert_name_def) (induction m; auto)
qed

lemma map_of_set_pattern:
  "map_of (if base \<in> fst ` set ps then map (\<lambda>(b, q). (b, if b = base then p else q)) ps else ps @ [(base, p)]) base
   = Some p"
proof (cases "base \<in> fst ` set ps")
  case True
  then show ?thesis by (simp) (induction ps; auto)
next
  case False
  then have "map_of ps base = None"
    by (simp add: map_of_eq_None_iff)
  with False show ?thesis by (simp add: map_add_def)
qed

definition directory_of :: "string \<Rightarrow> string" where
  "directory_of filename = (case find_last_sep filename of None \<Rightarrow> ''.'' | Some i \<Rightarrow> take (i + 1) filename)"

definition relative_of :: "string \<Rightarrow> string" where
  "relative_of filename = (case find_last_sep filename of None \<Rightarrow> filename | Some i \<Rightarrow> drop (i + 1) filename)"

lemma JoinPath_of: "JoinPath (directory_of filename) (relative_of filename) = filename"
  using JoinPath_split [of filename] by (simp add: directory_of_def relative_of_def split: option.splits)

lemma AddLogFile_pattern:
  obtains p names where "map_of (patterns (AddLogFile dirs source base filename ext ts c)) base = Some p"
    and "filename_regex p = the (std_regex (MakeLogFilenameMatcher (const_basename base) ext ts))"
    and "map_of (filenames_by_directory p) (directory_of filename) = Some names"
    and "relative_of filename \<in> set names" and "next_cleanup_time p = 0"
proof -
  define old where "old = (case map_of (patterns c) base of None \<Rightarrow> new_pattern | Some p \<Rightarrow> p)"
  define p where "p = old\<lparr>pattern_source := source,
      filename_regex := the (std_regex (MakeLogFilenameMatcher (const_basename base) ext ts)),
      logging_directories := (case source of kDefault \<Rightarrow> dirs | kSelected \<Rightarrow> logging_directories old),
      filenames_by_directory :=
        insert_name (directory_of filename) (relative_of filename) (filenames_by_directory old),
      next_cleanup_time := 0\<rparr>"
  have sep: "(case find_last_sep filename of None \<Rightarrow> (''.'', filename)
      | Some i \<Rightarrow> (take (i + 1) filename, drop (i + 1) filename)) = (directory_of filename, relative_of filename)"
    by (simp add: directory_of_def relative_of_def split: option.splits)
  have "patterns (AddLogFile dirs source base filename ext ts c) =
      (if base \<in> fst ` set (patterns c)
       then map (\<lambda>(b, q). (b, if b = base then p else q)) (patterns c) else patterns c @ [(base, p)])"
    unfolding AddLogFile_def sep Let_def prod.case old_def [symmetric] p_def [symmetric] by simp
  then have "map_of (patterns (AddLogFile dirs source base filename ext ts c)) base = Some p"
    by (simp only: map_of_set_pattern)
  moreover obtain names where "map_of (filenames_by_directory p) (directory_of filename) = Some names"
    "relative_of filename \<in> set names"
    using map_of_insert_name [of "directory_of filename" "relative_of filename" "filenames_by_directory old"]
    by (auto simp: p_def)
  ultimately show thesis
    using that by (simp add: p_def)
qed

lemma ensure_file_created:
  assumes "ensure_file fl os ts f w = (True, f', w')" and "stream f = None"
  obtains name source where
    "named fl (time_pid_string (os_tm os (FLAGS_log_utc_time fl) ts) (os_pid os)) name f'"
    "FCleaner source (base_filename f') name (filename_extension f') (FLAGS_timestamp_in_logfile_name fl)
       \<in> set (trace w')"
proof -
  let ?tps = "time_pid_string (os_tm os (FLAGS_log_utc_time fl) ts) (os_pid os)"
  let ?f1 = "f\<lparr>rollover_attempt := 0, file_pid := os_pid os\<rparr>"
  obtain ok name f2 w2 where c: "create_selected_or_default fl os ?tps ?f1 w = ((ok, name), f2, w2)"
    by (metis prod_cases4 surj_pair)
  have ok: "ok"
    using assms c by (auto simp: ensure_file_def Let_def split: if_splits)
  have "named fl ?tps name f2"
    by (rule create_named) (use c ok in simp)
  moreover have "base_filename f' = base_filename f2 \<and> filename_extension f' = filename_extension f2 \<and>
      stream f' = stream f2 \<and>
      FCleaner (filename_source f2) (base_filename f2) name (filename_extension f2)
        (FLAGS_timestamp_in_logfile_name fl) \<in> set (trace w')"
    using assms c ok
    by (auto simp: ensure_file_def Let_def write_bytes_def split: if_splits option.splits)
  ultimately show thesis
    using that [of name "filename_source f2"] by (simp add: named_def)
qed



section \<open>A scan\<close>

text \<open>What the code relies on in the file system: removing a file makes it disappear, creates
  nothing and moves no modification time back; a set is visited completely.\<close>

definition shrinks :: "'f fs_ops \<Rightarrow> 'f \<Rightarrow> 'f \<Rightarrow> bool" where
  "shrinks ops fs fs' \<longleftrightarrow>
     (\<forall>q t'. fs_stat ops q fs' = Some t' \<longrightarrow> (\<exists>t\<le>t'. fs_stat ops q fs = Some t)) \<and>
     (\<forall>d. set (fs_readdir ops d fs') \<subseteq> set (fs_readdir ops d fs))"

definition fs_laws :: "'f fs_ops \<Rightarrow> bool" where
  "fs_laws ops \<longleftrightarrow>
     (\<forall>p fs. shrinks ops fs (snd (fs_unlink ops p fs)) \<and>
        (fst (fs_unlink ops p fs) \<longrightarrow> fs_stat ops p (snd (fs_unlink ops p fs)) = None)) \<and>
     (\<forall>xs. set (set_order ops xs) = set xs)"

text \<open>The paths in one directory that a scan is to remove.\<close>

definition overdue_paths ::
  "'f fs_ops \<Rightarrow> int \<Rightarrow> int \<Rightarrow> LogFilePattern \<Rightarrow> string \<Rightarrow> 'f \<Rightarrow> string set" where
  "overdue_paths ops now overdue pattern dir fs =
     {filepath. IsLogLastModifiedOverPath ops filepath now overdue fs \<and>
        (\<exists>name. filepath = JoinPath dir name \<and>
          ((\<exists>names. map_of (filenames_by_directory pattern) dir = Some names \<and> name \<in> set names) \<or>
           (name \<in> set (ForEachPosixDirectory ops dir fs) \<and> regex_match name (filename_regex pattern))))}"

lemma shrinks_refl [simp]: "shrinks ops fs fs"
  by (auto simp: shrinks_def)

lemma shrinks_trans: "shrinks ops a b \<Longrightarrow> shrinks ops b c \<Longrightarrow> shrinks ops a c"
  unfolding shrinks_def by (meson order_trans subset_trans)

lemma shrinks_unlink: "fs_laws ops \<Longrightarrow> shrinks ops fs (snd (UnlinkPosixPath ops p fs))"
  by (simp add: UnlinkPosixPath_def fs_laws_def)

lemma removed_gone:
  assumes "fs_laws ops" and "fs_unlink ops p fs = (True, fs')"
  shows "fs_stat ops p fs' = None"
  using assms unfolding fs_laws_def by (metis fst_conv snd_conv)

lemma shrinks_overdue:
  assumes "shrinks ops fs fs'" and "IsLogLastModifiedOverPath ops p now overdue fs'"
  shows "IsLogLastModifiedOverPath ops p now overdue fs"
proof -
  obtain t' where t': "NUL \<notin> set p" "fs_stat ops p fs' = Some t'"
    "overdue * kTicksPerMinute \<le> now - t' * kTicksPerSecond"
    using assms(2) by (auto simp: IsLogLastModifiedOverPath_def StatPosixPath_def split: option.splits if_splits)
  then obtain t where t: "t \<le> t'" "fs_stat ops p fs = Some t"
    using assms(1) unfolding shrinks_def by blast
  have "t * kTicksPerSecond \<le> t' * kTicksPerSecond"
    using t(1) by (simp add: kTicksPerSecond_def)
  then show ?thesis
    using t' t by (simp add: IsLogLastModifiedOverPath_def StatPosixPath_def)
qed

lemma shrinks_overdue_paths:
  assumes "shrinks ops fs fs'"
  shows "overdue_paths ops now overdue pattern dir fs' \<subseteq> overdue_paths ops now overdue pattern dir fs"
proof -
  have "set (ForEachPosixDirectory ops dir fs') \<subseteq> set (ForEachPosixDirectory ops dir fs)"
    using assms by (auto simp: ForEachPosixDirectory_def shrinks_def)
  then show ?thesis
    using shrinks_overdue [OF assms] unfolding overdue_paths_def by blast
qed

lemma set_GetOverdueLogNames:
  assumes "fs_laws ops"
  shows "set (GetOverdueLogNames ops dir now overdue pattern fs) = overdue_paths ops now overdue pattern dir fs"
proof -
  have "set (concat (map (VisitOverdueLog ops dir now overdue (filename_regex pattern) fs)
          (ForEachPosixDirectory ops dir fs))) =
      {p. IsLogLastModifiedOverPath ops p now overdue fs \<and>
        (\<exists>name. p = JoinPath dir name \<and> name \<in> set (ForEachPosixDirectory ops dir fs) \<and>
          regex_match name (filename_regex pattern))}"
    by (auto simp: VisitOverdueLog_def Let_def split: if_splits)
  then show ?thesis
    using assms unfolding GetOverdueLogNames_def overdue_paths_def fs_laws_def
    by (auto simp: Let_def split: option.splits)
qed

lemma remove_logs_removes:
  assumes laws: "fs_laws ops" and "remove_logs ops logs fs removed = (fs', removed')"
  shows "\<exists>new. removed' = removed @ new \<and> map fst new = logs \<and> shrinks ops fs fs' \<and>
    (\<forall>p\<in>set logs. fs_stat ops p fs' \<noteq> None \<longrightarrow> (p, False) \<in> set new)"
  using assms(2)
proof (induction logs arbitrary: fs removed)
  case Nil
  then show ?case by simp
next
  case (Cons log logs)
  obtain ok fs1 where unlink: "UnlinkPosixPath ops log fs = (ok, fs1)"
    by (cases "UnlinkPosixPath ops log fs")
  have rest: "remove_logs ops logs fs1 (removed @ [(log, ok)]) = (fs', removed')"
    using Cons.prems unlink by simp
  obtain new where new: "removed' = (removed @ [(log, ok)]) @ new" "map fst new = logs" "shrinks ops fs1 fs'"
    "\<forall>p\<in>set logs. fs_stat ops p fs' \<noteq> None \<longrightarrow> (p, False) \<in> set new"
    using Cons.IH [OF rest] by blast
  have gone: "fs_stat ops log fs' = None" if ok
  proof -
    have "fs_stat ops log fs1 = None"
      using unlink that removed_gone [OF laws] by (auto simp: UnlinkPosixPath_def split: if_splits)
    then show ?thesis
      using new(3) unfolding shrinks_def by (metis not_None_eq option.distinct(1))
  qed
  have shrink: "shrinks ops fs fs'"
    using shrinks_unlink [OF laws, of fs log] unlink new(3) shrinks_trans by auto
  show ?case
    by (rule exI [of _ "(log, ok) # new"]) (use new gone shrink in auto)
qed

lemma clean_dirs_loop_removes:
  assumes laws: "fs_laws ops"
    and "clean_dirs_loop ops now overdue pattern dirs fs removed = (fs', removed')"
  shows "\<exists>new. removed' = removed @ new \<and> shrinks ops fs fs' \<and>
    (\<forall>p\<in>fst ` set new. \<exists>dir\<in>set dirs. p \<in> overdue_paths ops now overdue pattern dir fs) \<and>
    (\<forall>dir\<in>set dirs. \<forall>p\<in>overdue_paths ops now overdue pattern dir fs'. (p, False) \<in> set new)"
  using assms(2)
proof (induction dirs arbitrary: fs removed)
  case Nil
  then show ?case by simp
next
  case (Cons dir dirs)
  let ?logs = "GetOverdueLogNames ops dir now overdue pattern fs"
  obtain fs1 removed1 where first: "remove_logs ops ?logs fs removed = (fs1, removed1)"
    by (cases "remove_logs ops ?logs fs removed")
  obtain new1 where new1: "removed1 = removed @ new1" "map fst new1 = ?logs" "shrinks ops fs fs1"
    "\<forall>p\<in>set ?logs. fs_stat ops p fs1 \<noteq> None \<longrightarrow> (p, False) \<in> set new1"
    using remove_logs_removes [OF laws first] by blast
  have rest: "clean_dirs_loop ops now overdue pattern dirs fs1 removed1 = (fs', removed')"
    using Cons.prems first by simp
  obtain new2 where new2: "removed' = removed1 @ new2" "shrinks ops fs1 fs'"
    "\<forall>p\<in>fst ` set new2. \<exists>dir\<in>set dirs. p \<in> overdue_paths ops now overdue pattern dir fs1"
    "\<forall>dir\<in>set dirs. \<forall>p\<in>overdue_paths ops now overdue pattern dir fs'. (p, False) \<in> set new2"
    using Cons.IH [OF rest] by blast
  have shrink: "shrinks ops fs fs'"
    using new1(3) new2(2) by (rule shrinks_trans)
  have left: "(p, False) \<in> set new1" if p: "p \<in> overdue_paths ops now overdue pattern dir fs'" for p
  proof -
    have "p \<in> set ?logs"
      using p shrinks_overdue_paths [OF shrink] set_GetOverdueLogNames [OF laws] by blast
    moreover have "p \<in> overdue_paths ops now overdue pattern dir fs1"
      using p shrinks_overdue_paths [OF new2(2)] by blast
    then have "fs_stat ops p fs1 \<noteq> None"
      by (auto simp: overdue_paths_def IsLogLastModifiedOverPath_def StatPosixPath_def split: option.splits if_splits)
    ultimately show ?thesis
      using new1(4) by blast
  qed
  have "fst ` set new1 = overdue_paths ops now overdue pattern dir fs"
    using arg_cong [OF new1(2), of set] set_GetOverdueLogNames [OF laws] by simp
  moreover have "\<forall>p\<in>fst ` set new2. \<exists>dir\<in>set dirs. p \<in> overdue_paths ops now overdue pattern dir fs"
    using new2(3) shrinks_overdue_paths [OF new1(3)] by blast
  ultimately show ?case
    using new1(1) new2(1,4) shrink left by (intro exI [of _ "new1 @ new2"]) (auto simp: image_Un)
qed

text \<open>C26. A scan tries to remove only files that are overdue and that are either known by name
  or match the expression of the pattern, in the directories of the pattern; and it leaves no such
  file behind, unless the removal failed.\<close>

theorem CleanOverdueLogs_removes:
  assumes "fs_laws ops"
    and "CleanOverdueLogs ops now overdue base pattern fs removed = (fs', removed')"
  shows "\<exists>new. removed' = removed @ new \<and>
    (\<forall>p\<in>fst ` set new. \<exists>dir\<in>set (clean_dirs base pattern).
       p \<in> overdue_paths ops now overdue pattern dir fs) \<and>
    (\<forall>dir\<in>set (clean_dirs base pattern). \<forall>p\<in>overdue_paths ops now overdue pattern dir fs'.
       (p, False) \<in> set new)"
  using clean_dirs_loop_removes [OF assms(1)] assms(2) unfolding CleanOverdueLogs_def by blast

text \<open>A file system with two files, as paths with their times.\<close>

definition sample_fs :: "(string \<times> int) list fs_ops" where
  "sample_fs = \<lparr>
     fs_readdir = (\<lambda>d fs. map (\<lambda>p. drop (length d) (fst p)) (filter (\<lambda>p. starts_with d (fst p)) fs)),
     fs_stat = (\<lambda>p fs. map_of fs p),
     fs_unlink = (\<lambda>p fs. (p \<in> fst ` set fs, filter (\<lambda>q. fst q \<noteq> p) fs)),
     set_order = rev\<rparr>"

lemma map_of_filter_ne: "map_of (filter (\<lambda>q. fst q \<noteq> p) fs) k = (if k = p then None else map_of fs k)"
  by (induction fs) auto

lemma sample_fs_laws: "fs_laws sample_fs"
  by (auto simp: fs_laws_def shrinks_def sample_fs_def map_of_filter_ne split: if_splits)

definition sample_pattern :: LogFilePattern where
  "sample_pattern =
     the (map_of (patterns (AddLogFile [] kSelected ''d/x'' ''d/x2'' '''' False initial_cleaner)) ''d/x'')"

theorem CleanOverdueLogs_removes_witness:
  "fst ` set (snd (CleanOverdueLogs sample_fs (100 * kTicksPerMinute) 60 ''d/x'' sample_pattern
       [(''d/x'', 10), (''d/y'', 0)] [])) \<subseteq> overdue_paths sample_fs (100 * kTicksPerMinute) 60 sample_pattern ''d/''
       [(''d/x'', 10), (''d/y'', 0)]"
proof -
  let ?run = "CleanOverdueLogs sample_fs (100 * kTicksPerMinute) 60 ''d/x'' sample_pattern
       [(''d/x'', 10), (''d/y'', 0)] []"
  have "set (clean_dirs ''d/x'' sample_pattern) = {''d/''}"
    by code_simp
  then show ?thesis
    using CleanOverdueLogs_removes [OF sample_fs_laws, of "100 * kTicksPerMinute" 60 "''d/x''" sample_pattern
        "[(''d/x'', 10), (''d/y'', 0)]" "[]" "fst ?run" "snd ?run"] by auto
qed

end
