(* ===== verification/LogCleanerThreads.thy ===== *)
theory LogCleanerThreads imports LogCleanerProps begin

text \<open>
  The log cleaner with any number of threads: those that log and add files, those that enable and
  disable the cleaner, and the cleaner threads themselves. A critical section, a wake-up, a join and
  a scan are one step each. \<open>serial\<close> says that no thread calls \<open>Enable\<close> or \<open>Disable\<close> while
  another one is inside such a call.
\<close>

section \<open>The steps\<close>

text \<open>A thread inside \<open>Disable\<close> or the destructor: it joins the cleaner thread, and a \<open>Disable\<close> of an
  enabled cleaner then scans a copy of the patterns.\<close>

datatype caller =
    Outside
  | Joining "nat option" bool
  | FinalScan "(string \<times> LogFilePattern) list" int

record 'f cleaner_config =
  cleaner :: LogCleaner
  workers :: "nat \<Rightarrow> worker option"
  callers :: "nat \<Rightarrow> caller"
  files :: 'f
  removed_files :: "(string \<times> bool) list"

definition live :: "worker option \<Rightarrow> bool" where
  "live w \<longleftrightarrow> w \<noteq> None \<and> w \<noteq> Some Finished"

definition may_call :: "bool \<Rightarrow> 'f cleaner_config \<Rightarrow> nat \<Rightarrow> bool" where
  "may_call serial g k \<longleftrightarrow> callers g k = Outside \<and> (serial \<longrightarrow> (\<forall>j. callers g j = Outside))"

definition scan_files ::
  "'f fs_ops \<Rightarrow> int \<Rightarrow> int \<Rightarrow> (string \<times> LogFilePattern) list \<Rightarrow> 'f cleaner_config \<Rightarrow> 'f cleaner_config" where
  "scan_files ops now overdue ps g =
     (case clean_patterns ops now overdue ps (files g) (removed_files g) of
        (fs, removed) \<Rightarrow> g\<lparr>files := fs, removed_files := removed\<rparr>)"

text \<open>The steps of a thread of the cleaner.\<close>

inductive worker_step :: "'f fs_ops \<Rightarrow> nat \<Rightarrow> 'f cleaner_config \<Rightarrow> 'f cleaner_config \<Rightarrow> bool"
  for ops :: "'f fs_ops" and t :: nat where
  turn: "workers g t = Some AtHead \<Longrightarrow> worker_turn now secs (cleaner g) = (w, c) \<Longrightarrow>
    worker_step ops t g (g\<lparr>cleaner := c, workers := (workers g)(t := Some w)\<rparr>)"
| wake: "workers g t = Some (Asleep deadline) \<Longrightarrow> may_wake deadline (cleaner g) \<Longrightarrow>
    worker_step ops t g (g\<lparr>workers := (workers g)(t := Some AtHead)\<rparr>)"
| scan: "workers g t = Some (Scanning due overdue) \<Longrightarrow>
    worker_step ops t g ((scan_files ops now overdue due g)\<lparr>workers := (workers g)(t := Some AtHead)\<rparr>)"

text \<open>The steps of the other threads; \<open>final\<close> tells \<open>Disable\<close> from the destructor.\<close>

inductive caller_step :: "'f fs_ops \<Rightarrow> bool \<Rightarrow> bool \<Rightarrow> 'f cleaner_config \<Rightarrow> 'f cleaner_config \<Rightarrow> bool"
  for ops :: "'f fs_ops" and serial :: bool where
  enable: "may_call serial g k \<Longrightarrow> workers g tid = None \<Longrightarrow>
    caller_step ops serial False g (g\<lparr>cleaner := Enable overdue tid (cleaner g),
      workers := (if enabled (cleaner g) then workers g else (workers g)(tid := Some AtHead))\<rparr>)"
| stop: "may_call serial g k \<Longrightarrow> Stop (cleaner g) = (was_enabled, thread, c) \<Longrightarrow>
    caller_step ops serial True g (g\<lparr>cleaner := c,
      callers := (callers g)(k := Joining thread (was_enabled \<and> final))\<rparr>)"
| joined: "callers g k = Joining thread scan \<Longrightarrow>
    (case thread of None \<Rightarrow> True | Some t \<Rightarrow> workers g t = Some Finished) \<Longrightarrow>
    caller_step ops serial False g (g\<lparr>callers := (callers g)(k :=
      (if scan then FinalScan (patterns (cleaner g)) (overdue_minutes (cleaner g)) else Outside))\<rparr>)"
| final_scan: "callers g k = FinalScan ps overdue \<Longrightarrow>
    caller_step ops serial False g ((scan_files ops now overdue ps g)\<lparr>callers := (callers g)(k := Outside)\<rparr>)"
| add_log_file: "caller_step ops serial False g
    (g\<lparr>cleaner := AddLogFile dirs source base filename ext timestamp (cleaner g)\<rparr>)"

text \<open>A step of the whole process; the second argument tells whether it is a call of \<open>Stop\<close>.\<close>

definition cleaner_step :: "'f fs_ops \<Rightarrow> bool \<Rightarrow> bool \<Rightarrow> 'f cleaner_config \<Rightarrow> 'f cleaner_config \<Rightarrow> bool" where
  "cleaner_step ops serial stops g g' \<longleftrightarrow>
     caller_step ops serial stops g g' \<or> (\<not> stops \<and> (\<exists>t. worker_step ops t g g'))"

definition cleaner_start :: "'f \<Rightarrow> 'f cleaner_config" where
  "cleaner_start fs = \<lparr>cleaner = initial_cleaner, workers = (\<lambda>t. None), callers = (\<lambda>k. Outside),
     files = fs, removed_files = []\<rparr>"

definition cleaner_reachable :: "'f fs_ops \<Rightarrow> bool \<Rightarrow> 'f cleaner_config \<Rightarrow> bool" where
  "cleaner_reachable ops serial g \<longleftrightarrow>
     (\<exists>fs. (\<lambda>g g'. \<exists>stops. cleaner_step ops serial stops g g')\<^sup>*\<^sup>* (cleaner_start fs) g)"

inductive_simps caller_stop: "caller_step ops serial True g g'"

section \<open>The invariant of serial calls\<close>

definition threads_ok :: "'f cleaner_config \<Rightarrow> bool" where
  "threads_ok g \<longleftrightarrow>
     (enabled (cleaner g) \<longrightarrow> (\<forall>k. callers g k = Outside) \<and>
        (\<exists>t. thread_of (cleaner g) = Some t \<and> live (workers g t))) \<and>
     (\<not> enabled (cleaner g) \<longrightarrow> thread_of (cleaner g) = None) \<and>
     (\<forall>j k. callers g j \<noteq> Outside \<longrightarrow> callers g k \<noteq> Outside \<longrightarrow> j = k) \<and>
     (\<forall>t. live (workers g t) \<longrightarrow>
        thread_of (cleaner g) = Some t \<or> (\<exists>k scan. callers g k = Joining (Some t) scan)) \<and>
     (\<forall>k t scan. callers g k = Joining (Some t) scan \<longrightarrow> workers g t \<noteq> None)"

lemma worker_turn_cleaner:
  assumes "worker_turn now secs c = (w, c')"
  shows "enabled c' = enabled c" and "thread_of c' = thread_of c"
    and "overdue_minutes c' = overdue_minutes c" and "w = Finished \<longleftrightarrow> \<not> enabled c"
  using assms by (auto simp: worker_turn_def Let_def split: if_splits list.splits prod.splits)

lemma AddLogFile_simps [simp]:
  "enabled (AddLogFile d s b f e ts c) = enabled c"
  "thread_of (AddLogFile d s b f e ts c) = thread_of c"
  "overdue_minutes (AddLogFile d s b f e ts c) = overdue_minutes c"
  by (simp_all add: AddLogFile_def Let_def split: prod.splits)

lemma scan_files_simps [simp]:
  "cleaner (scan_files ops now o' ps g) = cleaner g"
  "workers (scan_files ops now o' ps g) = workers g"
  "callers (scan_files ops now o' ps g) = callers g"
  by (simp_all add: scan_files_def split: prod.splits)

lemma live_simps [simp]:
  "\<not> live None" "\<not> live (Some Finished)" "live (Some AtHead)" "live (Some (Asleep d))"
  "live (Some (Scanning ps n))"
  by (simp_all add: live_def)

lemma threads_ok_start: "threads_ok (cleaner_start fs)"
  by (simp add: threads_ok_def cleaner_start_def initial_cleaner_def)

lemma threads_okD:
  assumes "threads_ok g"
  shows "enabled (cleaner g) \<Longrightarrow> callers g k = Outside"
    and "enabled (cleaner g) \<Longrightarrow> \<exists>t. thread_of (cleaner g) = Some t \<and> live (workers g t)"
    and "\<not> enabled (cleaner g) \<Longrightarrow> thread_of (cleaner g) = None"
    and "callers g j \<noteq> Outside \<Longrightarrow> callers g k \<noteq> Outside \<Longrightarrow> j = k"
    and "live (workers g t) \<Longrightarrow>
      thread_of (cleaner g) = Some t \<or> (\<exists>k scan. callers g k = Joining (Some t) scan)"
    and "callers g k = Joining (Some t) scan \<Longrightarrow> workers g t \<noteq> None"
  using assms unfolding threads_ok_def by blast+

lemma threads_okI:
  assumes "\<And>k. enabled (cleaner g) \<Longrightarrow> callers g k = Outside"
    and "enabled (cleaner g) \<Longrightarrow> \<exists>t. thread_of (cleaner g) = Some t \<and> live (workers g t)"
    and "\<not> enabled (cleaner g) \<Longrightarrow> thread_of (cleaner g) = None"
    and "\<And>j k. callers g j \<noteq> Outside \<Longrightarrow> callers g k \<noteq> Outside \<Longrightarrow> j = k"
    and "\<And>t. live (workers g t) \<Longrightarrow>
      thread_of (cleaner g) = Some t \<or> (\<exists>k scan. callers g k = Joining (Some t) scan)"
    and "\<And>k t scan. callers g k = Joining (Some t) scan \<Longrightarrow> workers g t \<noteq> None"
  shows "threads_ok g"
  using assms unfolding threads_ok_def by blast

text \<open>A worker keeps the invariant if it does not return while the cleaner is enabled.\<close>

lemma threads_ok_update:
  assumes ok: "threads_ok g" and t: "live (workers g t)"
    and c: "enabled c = enabled (cleaner g)" "thread_of c = thread_of (cleaner g)"
    and w: "enabled c \<Longrightarrow> w \<noteq> Finished"
    and g': "cleaner g' = c" "workers g' = (workers g)(t := Some w)" "callers g' = callers g"
  shows "threads_ok g'"
proof (rule threads_okI)
  note D = threads_okD [OF ok]
  show "callers g' k = Outside" if "enabled (cleaner g')" for k
    using that D(1) g' c by simp
  show "\<exists>u. thread_of (cleaner g') = Some u \<and> live (workers g' u)" if e: "enabled (cleaner g')"
  proof -
    obtain u where u: "thread_of (cleaner g) = Some u" "live (workers g u)"
      using e D(2) g' c by auto
    then have "live (workers g' u)"
      using w e g' by (cases "u = t") (simp_all add: live_def)
    with u show ?thesis
      using g' c by simp
  qed
  show "thread_of (cleaner g') = None" if "\<not> enabled (cleaner g')"
    using that D(3) g' c by simp
  show "j = k" if "callers g' j \<noteq> Outside" "callers g' k \<noteq> Outside" for j k
    using that D(4) g' by simp
  show "thread_of (cleaner g') = Some u \<or> (\<exists>k scan. callers g' k = Joining (Some u) scan)"
    if "live (workers g' u)" for u
  proof -
    have "live (workers g u)"
      using that t g' by (cases "u = t") simp_all
    then show ?thesis
      using D(5) g' c by simp
  qed
  show "workers g' u \<noteq> None" if "callers g' k = Joining (Some u) scan" for k u scan
    using that D(6) g' by simp
qed

lemma threads_ok_worker:
  assumes "worker_step ops t g g'" and "threads_ok g"
  shows "threads_ok g'"
  using assms(1)
proof cases
  case (turn now secs w c)
  note c = worker_turn_cleaner [OF turn(3)]
  show ?thesis
    by (rule threads_ok_update [OF assms(2), of t c w]) (use turn c in simp_all)
next
  case (wake deadline)
  show ?thesis
    by (rule threads_ok_update [OF assms(2), of t "cleaner g" AtHead]) (use wake in simp_all)
next
  case (scan due overdue now)
  show ?thesis
    by (rule threads_ok_update [OF assms(2), of t "cleaner g" AtHead]) (use scan in simp_all)
qed

text \<open>A thread that moves on inside a call of \<open>Disable\<close>.\<close>

lemma threads_ok_caller_update:
  assumes ok: "threads_ok g" and k: "callers g k \<noteq> Outside"
    and dead: "\<And>t scan. callers g k = Joining (Some t) scan \<Longrightarrow> \<not> live (workers g t)"
    and new: "\<And>t scan. st \<noteq> Joining (Some t) scan"
    and g': "cleaner g' = cleaner g" "workers g' = workers g" "callers g' = (callers g)(k := st)"
  shows "threads_ok g'"
proof (rule threads_okI)
  note D = threads_okD [OF ok]
  have off: "\<not> enabled (cleaner g)"
    using D(1) k by blast
  show "callers g' j = Outside" if "enabled (cleaner g')" for j
    using that off g' by simp
  show "\<exists>u. thread_of (cleaner g') = Some u \<and> live (workers g' u)" if "enabled (cleaner g')"
    using that off g' by simp
  show "thread_of (cleaner g') = None" if "\<not> enabled (cleaner g')"
    using off D(3) g' by simp
  show "i = j" if "callers g' i \<noteq> Outside" "callers g' j \<noteq> Outside" for i j
    using that D(4) k g' by (auto split: if_splits)
  show "thread_of (cleaner g') = Some u \<or> (\<exists>j scan. callers g' j = Joining (Some u) scan)"
    if "live (workers g' u)" for u
  proof -
    have l: "live (workers g u)"
      using that g' by simp
    have "thread_of (cleaner g) = None"
      by (rule D(3) [OF off])
    then obtain j scan where j: "callers g j = Joining (Some u) scan"
      using D(5) [OF l] by auto
    then have "j \<noteq> k"
      using dead that g' by auto
    with j show ?thesis
      using g' by auto
  qed
  show "workers g' u \<noteq> None" if "callers g' j = Joining (Some u) scan" for j u scan
    using that D(6) [of j u scan] new [of u scan] g' by (cases "j = k") auto
qed

lemma threads_ok_caller:
  assumes "caller_step ops True stops g g'" and ok: "threads_ok g"
  shows "threads_ok g'"
  using assms(1)
proof cases
  case (enable k tid overdue)
  then have outside: "\<forall>j. callers g j = Outside"
    by (auto simp: may_call_def)
  note D = threads_okD [OF ok]
  show ?thesis
  proof (cases "enabled (cleaner g)")
    case True
    show ?thesis
      by (rule threads_okI) (use D True enable(2) outside in \<open>auto simp: Enable_def\<close>)
  next
    case False
    note off = D(3) [OF False]
    show ?thesis
      by (rule threads_okI)
        (use D(5) False off enable(2) outside in \<open>auto simp: Enable_def split: if_splits\<close>)
  qed
next
  case (stop k was_enabled thread c final)
  then have outside: "\<forall>j. callers g j = Outside" and c: "thread = thread_of (cleaner g)"
    "enabled c = False" "thread_of c = None"
    by (auto simp: may_call_def Stop_def)
  note D = threads_okD [OF ok]
  show ?thesis
  proof (rule threads_okI)
    show "thread_of (cleaner g') = Some u \<or> (\<exists>j scan. callers g' j = Joining (Some u) scan)"
      if "live (workers g' u)" for u
      using that D(5) [of u] outside stop(2) c by auto
    show "workers g' u \<noteq> None" if "callers g' j = Joining (Some u) scan" for j u scan
      using that D(2) D(3) outside stop(2) c by (auto simp: live_def split: if_splits)
  qed (use outside stop(2) c in \<open>auto split: if_splits\<close>)
next
  case (joined k thread scan)
  show ?thesis
    by (rule threads_ok_caller_update [OF ok, of k]) (use joined in \<open>auto split: if_splits\<close>)
next
  case (final_scan k ps overdue now)
  show ?thesis
    by (rule threads_ok_caller_update [OF ok, of k Outside]) (use final_scan in auto)
next
  case (add_log_file dirs source base filename ext timestamp)
  then show ?thesis
    using ok unfolding threads_ok_def by simp
qed

lemma threads_ok_reachable:
  assumes "cleaner_reachable ops True g"
  shows "threads_ok g"
proof -
  obtain fs where run: "(\<lambda>g g'. \<exists>stops. cleaner_step ops True stops g g')\<^sup>*\<^sup>* (cleaner_start fs) g"
    using assms by (auto simp: cleaner_reachable_def)
  then show ?thesis
    by (induction rule: rtranclp_induct)
      (auto simp: threads_ok_start cleaner_step_def dest: threads_ok_caller threads_ok_worker)
qed

section \<open>Joining the cleaner thread\<close>

text \<open>How many steps a cleaner thread can still take once the cleaner is disabled.\<close>

fun steps_left :: "worker option \<Rightarrow> nat" where
  "steps_left None = 0"
| "steps_left (Some Finished) = 0"
| "steps_left (Some AtHead) = 1"
| "steps_left (Some (Asleep deadline)) = 2"
| "steps_left (Some (Scanning due overdue)) = 2"

lemma worker_step_steps_left:
  assumes "worker_step ops t g g'" and "\<not> enabled (cleaner g)"
  shows "steps_left (workers g' t) < steps_left (workers g t)"
  using assms by cases (auto dest: worker_turn_cleaner(4))

lemma worker_step_progress:
  assumes "live (workers g t)" and "\<not> enabled (cleaner g)"
  shows "\<exists>g'. worker_step ops t g g'"
proof (cases "the (workers g t)")
  case AtHead
  with assms have w: "workers g t = Some AtHead"
    by (auto simp: live_def)
  obtain w c where "worker_turn 0 0 (cleaner g) = (w, c)"
    by fastforce
  then show ?thesis
    using worker_step.turn [OF w] by blast
next
  case (Asleep d)
  with assms have "workers g t = Some (Asleep d)" "may_wake d (cleaner g)"
    by (auto simp: live_def may_wake_def split: option.splits)
  then show ?thesis
    using worker_step.wake by blast
next
  case (Scanning due overdue)
  with assms have "workers g t = Some (Scanning due overdue)"
    by (auto simp: live_def)
  then show ?thesis
    using worker_step.scan by blast
qed (use assms in \<open>auto simp: live_def\<close>)

lemma worker_step_other: "worker_step ops u g g' \<Longrightarrow> t \<noteq> u \<Longrightarrow> workers g' t = workers g t"
  by (erule worker_step.cases) auto

lemma caller_step_worker: "caller_step ops serial stops g g' \<Longrightarrow> workers g t \<noteq> None \<Longrightarrow> workers g' t = workers g t"
  by (erule caller_step.cases) auto

lemma cleaner_step_worker:
  assumes "cleaner_step ops serial stops g g'" and "workers g t \<noteq> None"
  shows "worker_step ops t g g' \<or> workers g' t = workers g t"
  using assms unfolding cleaner_step_def by (metis worker_step_other caller_step_worker)

lemma joining_done:
  assumes "callers g k = Joining (Some t) scan" and "workers g t = Some Finished"
  shows "\<exists>g'. caller_step ops serial False g g' \<and>
    callers g' k = (if scan then FinalScan (patterns (cleaner g)) (overdue_minutes (cleaner g)) else Outside)"
  using caller_step.joined [OF assms(1), of ops serial] assms(2) by (intro exI conjI) auto

text \<open>While a thread is inside \<open>Disable\<close>, only the thread that it joins may be live.\<close>

lemma joining_alone:
  assumes ok: "threads_ok g" and k: "callers g k = Joining (Some t) scan"
  shows "\<not> enabled (cleaner g)" and "live (workers g u) \<Longrightarrow> u = t"
proof -
  note D = threads_okD [OF ok]
  show off: "\<not> enabled (cleaner g)"
    using D(1) [of k] k by auto
  show "u = t" if l: "live (workers g u)"
  proof -
    obtain j scan' where j: "callers g j = Joining (Some u) scan'"
      using D(5) [OF l] D(3) [OF off] by auto
    then have "j = k"
      using D(4) [of j k] k by simp
    with j k show ?thesis
      by simp
  qed
qed

lemma final_scan_alone:
  assumes ok: "threads_ok g" and k: "callers g k = FinalScan ps overdue"
  shows "\<not> enabled (cleaner g)" and "\<not> live (workers g u)"
proof -
  note D = threads_okD [OF ok]
  show off: "\<not> enabled (cleaner g)"
    using D(1) [of k] k by auto
  show "\<not> live (workers g u)"
  proof
    assume "live (workers g u)"
    then obtain j scan where j: "callers g j = Joining (Some u) scan"
      using D(5) D(3) [OF off] by fastforce
    then have "j = k"
      using D(4) [of j k] k by simp
    with j k show False
      by simp
  qed
qed


text \<open>The cleaner was enabled and a thread called \<open>Disable\<close>, without and with a second thread that
  then called \<open>Enable\<close>.\<close>

definition disabled_sample :: "'f \<Rightarrow> 'f cleaner_config" where
  "disabled_sample fs = (cleaner_start fs)\<lparr>
     cleaner := initial_cleaner\<lparr>overdue_minutes := 1\<rparr>,
     workers := (\<lambda>t. None)(0 := Some AtHead),
     callers := (\<lambda>k. Outside)(0 := Joining (Some 0) True)\<rparr>"

definition reenabled_sample :: "'f \<Rightarrow> 'f cleaner_config" where
  "reenabled_sample fs = (disabled_sample fs)\<lparr>
     cleaner := initial_cleaner\<lparr>overdue_minutes := 1, enabled := True, thread_of := Some 1\<rparr>,
     workers := (\<lambda>t. None)(0 := Some AtHead, 1 := Some AtHead)\<rparr>"

lemma cleaner_reachable_start: "cleaner_reachable ops serial (cleaner_start fs)"
  by (auto simp: cleaner_reachable_def)

lemma cleaner_reachable_step:
  "cleaner_reachable ops serial g \<Longrightarrow> caller_step ops serial stops g g' \<Longrightarrow> cleaner_reachable ops serial g'"
  unfolding cleaner_reachable_def cleaner_step_def by (blast intro: rtranclp.rtrancl_into_rtrancl)

lemma disabled_sample_reachable: "cleaner_reachable ops serial (disabled_sample fs)"
proof -
  have "may_call serial (cleaner_start fs) 0"
    by (simp add: may_call_def cleaner_start_def)
  from caller_step.enable [OF this, of 0 ops 1]
  have "cleaner_reachable ops serial ((cleaner_start fs)\<lparr>
    cleaner := initial_cleaner\<lparr>overdue_minutes := 1, enabled := True, thread_of := Some 0\<rparr>,
    workers := (\<lambda>t. None)(0 := Some AtHead)\<rparr>)" (is "cleaner_reachable ops serial ?g")
    by (intro cleaner_reachable_step [OF cleaner_reachable_start])
      (simp add: cleaner_start_def Enable_def initial_cleaner_def)
  moreover have "caller_step ops serial True ?g (disabled_sample fs)"
    using caller_step.stop [of serial ?g 0 True "Some 0"
        "initial_cleaner\<lparr>overdue_minutes := 1\<rparr>" ops True]
    by (simp add: may_call_def Stop_def cleaner_start_def initial_cleaner_def disabled_sample_def)
  ultimately show ?thesis
    by (rule cleaner_reachable_step)
qed

lemma reenabled_sample_reachable: "cleaner_reachable ops False (reenabled_sample fs)"
proof -
  have "may_call False (disabled_sample fs) 1"
    by (simp add: may_call_def disabled_sample_def cleaner_start_def)
  from caller_step.enable [OF this, of 1 ops 1]
  show ?thesis
    by (intro cleaner_reachable_step [OF disabled_sample_reachable])
      (simp add: disabled_sample_def reenabled_sample_def cleaner_start_def Enable_def initial_cleaner_def)
qed


section \<open>Calls that overlap\<close>

text \<open>A cleaner thread does not return as long as the cleaner is enabled, whoever enabled it.\<close>

lemma blocked_step:
  assumes "cleaner_step ops False False g g'"
    and "enabled (cleaner g)" "callers g 0 = Joining (Some 0) True" "live (workers g 0)"
  shows "enabled (cleaner g') \<and> callers g' 0 = Joining (Some 0) True \<and> live (workers g' 0)"
  using assms(1) unfolding cleaner_step_def
proof (elim disjE conjE exE)
  assume "caller_step ops False False g g'"
  then show ?thesis
  proof cases
    case (joined k thread scan)
    then show ?thesis
      using assms(2-4) by (cases "k = 0") auto
  next
    case (final_scan k ps overdue now)
    then show ?thesis
      using assms(2-4) by (cases "k = 0") auto
  qed (use assms(2-4) in \<open>auto simp: Enable_def\<close>)
next
  fix t assume "worker_step ops t g g'"
  then show ?thesis
  proof cases
    case (turn now secs w c)
    then show ?thesis
      using assms worker_turn_cleaner [OF turn(3)] by (auto simp: live_def)
  qed (use assms in auto)
qed

text \<open>C28. When another thread calls \<open>Enable\<close> while \<open>Disable\<close> joins the cleaner thread, that thread
  goes on beside the new one: there are two cleaner threads, and \<open>Disable\<close> does not return
  in any run in which no thread calls \<open>Stop\<close> again.\<close>

theorem Disable_blocked:
  fixes ops :: "'f fs_ops"
  shows "\<exists>g. cleaner_reachable ops False g \<and> live (workers g 0) \<and> live (workers g 1) \<and>
     {g'. (cleaner_step ops False False)\<^sup>*\<^sup>* g g'} \<subseteq>
       {g'. callers g' 0 = Joining (Some 0) True \<and> live (workers g' 0)}"
proof (intro exI conjI)
  fix fs :: 'f
  let ?g = "reenabled_sample fs"
  show "cleaner_reachable ops False ?g"
    by (rule reenabled_sample_reachable)
  show "live (workers ?g 0)" "live (workers ?g 1)"
    by (simp_all add: reenabled_sample_def)
  have "enabled (cleaner g') \<and> callers g' 0 = Joining (Some 0) True \<and> live (workers g' 0)"
    if "(cleaner_step ops False False)\<^sup>*\<^sup>* ?g g'" for g'
    using that by (induction rule: rtranclp_induct)
      (auto simp: reenabled_sample_def disabled_sample_def dest: blocked_step)
  then show "{g'. (cleaner_step ops False False)\<^sup>*\<^sup>* ?g g'} \<subseteq>
      {g'. callers g' 0 = Joining (Some 0) True \<and> live (workers g' 0)}"
    by blast
qed

end
