(* ===== verification/ElfFile.thy ===== *)
theory ElfFile imports Prelude "HOL-Library.Monad_Syntax" begin

text \<open>
  The symbolizer's reading of files, \<open>src/src/symbolize.cc\<close>: positioned reads that survive
  interruptions and short reads, the checked arithmetic of
  \<open>src/src/internal/checked_arithmetic.h\<close>, and the ELF header and the section headers of an
  object file, for a little-endian system with 64-bit addresses.

  A file gives the byte at each offset, nothing where it ends or where a mapping of memory has a hole,
  and the size that \<open>fstat\<close> tells, which need not agree with it. What happens in the calls of
  \<open>pread\<close> for one request, after which they complete, is the list of events at its offset and count.
\<close>

unbundle bit_operations_syntax

section \<open>Control flow\<close>

text \<open>An early return unless a condition holds, and the loop \<open>for (; i < n; ++i)\<close> whose body
  returns from the function with \<open>Inl\<close> or goes on with \<open>Inr\<close>.\<close>

definition require :: "bool \<Rightarrow> unit option" where
  "require b = (if b then Some () else None)"

function for_loop :: "nat \<Rightarrow> nat \<Rightarrow> (nat \<Rightarrow> 's \<Rightarrow> 'r + 's) \<Rightarrow> 's \<Rightarrow> 'r + 's" where
  "for_loop i n body s =
     (if i < n then (case body i s of Inl r \<Rightarrow> Inl r | Inr s' \<Rightarrow> for_loop (i + 1) n body s') else Inr s)"
  by pat_completeness auto
termination
  by (relation "measure (\<lambda>(i, n, body, s). n - i)") auto

declare for_loop.simps [simp del]

lemma require_simps [simp]:
  "require b = Some u \<longleftrightarrow> b" "require b = None \<longleftrightarrow> \<not> b" "require True = Some ()" "require False = None"
  by (simp_all add: require_def)

section \<open>Checked arithmetic\<close>

type_synonym u64 = "64 word"

abbreviation SIZE_MAX :: u64 where
  "SIZE_MAX \<equiv> - 1"

definition DoesAdditionOverflow :: "u64 \<Rightarrow> u64 \<Rightarrow> bool" where
  "DoesAdditionOverflow left right \<longleftrightarrow> right > SIZE_MAX - left"

definition CheckedAdd :: "u64 \<Rightarrow> u64 \<Rightarrow> u64 option" where
  "CheckedAdd left right = (if DoesAdditionOverflow left right then None else Some (left + right))"

definition CheckedMultiply :: "u64 \<Rightarrow> u64 \<Rightarrow> u64 option" where
  "CheckedMultiply left right =
     (if left \<noteq> 0 \<and> right > SIZE_MAX div left then None else Some (left * right))"

lemma unat_u64_less: "unat (x :: u64) < 2 ^ 64"
  using unsigned_less [of x] by simp

lemma unat_SIZE_MAX: "unat SIZE_MAX = 2 ^ 64 - 1"
  by (simp add: unsigned_minus_1_eq_mask mask_eq_exp_minus_1)

lemma CheckedAdd_Some_iff:
  "CheckedAdd a b = Some c \<longleftrightarrow> unat a + unat b < 2 ^ 64 \<and> c = a + b"
proof -
  have "unat (SIZE_MAX - a) = 2 ^ 64 - 1 - unat a"
    by (subst unat_sub) (simp_all add: unat_SIZE_MAX)
  then have "DoesAdditionOverflow a b \<longleftrightarrow> 2 ^ 64 - 1 - unat a < unat b"
    by (simp add: DoesAdditionOverflow_def word_less_nat_alt)
  moreover have "unat a < 2 ^ 64"
    by (rule unat_u64_less)
  ultimately show ?thesis
    by (auto simp: CheckedAdd_def)
qed

lemma CheckedMultiply_Some_iff:
  "CheckedMultiply a b = Some c \<longleftrightarrow> unat a * unat b < 2 ^ 64 \<and> c = a * b"
proof (cases "a = 0")
  case False
  then have a: "0 < unat a"
    by (simp add: unat_gt_0)
  have "SIZE_MAX div a < b \<longleftrightarrow> (2 ^ 64 - 1) div unat a < unat b"
    by (simp add: word_less_nat_alt unat_div_distrib unat_SIZE_MAX)
  also have "\<dots> \<longleftrightarrow> 2 ^ 64 - 1 < unat a * unat b"
    using a by (simp add: div_less_iff_less_mult mult.commute)
  finally show ?thesis
    using False by (auto simp: CheckedMultiply_def)
qed (auto simp: CheckedMultiply_def)

section \<open>Reading from a file\<close>

datatype read_event = Interrupted | Failed | Short nat

record file_image =
  byte_at :: "nat \<Rightarrow> char option"
  st_size :: "int option"
  events_at :: "u64 \<Rightarrow> u64 \<Rightarrow> read_event list"

text \<open>A negative file descriptor is \<open>None\<close>.\<close>

type_synonym fd = "file_image option"

text \<open>The bytes from an offset on, at most \<open>n\<close> of them and up to the first one that is missing.\<close>

fun read_bytes :: "(nat \<Rightarrow> char option) \<Rightarrow> nat \<Rightarrow> nat \<Rightarrow> string" where
  "read_bytes bytes offset 0 = []"
| "read_bytes bytes offset (Suc n) =
     (case bytes offset of None \<Rightarrow> [] | Some b \<Rightarrow> b # read_bytes bytes (offset + 1) n)"

text \<open>\<open>FailureRetry\<close> around \<open>pread\<close>: what the last call read, \<open>None\<close> for \<open>-1\<close>, and the events
  that are left. A short read gives at least one byte where there is one.\<close>

fun FailureRetry_pread ::
  "read_event list \<Rightarrow> (nat \<Rightarrow> char option) \<Rightarrow> nat \<Rightarrow> nat \<Rightarrow> string option \<times> read_event list" where
  "FailureRetry_pread [] bytes n offset = (Some (read_bytes bytes offset n), [])"
| "FailureRetry_pread (Interrupted # events) bytes n offset = FailureRetry_pread events bytes n offset"
| "FailureRetry_pread (Failed # events) bytes n offset = (None, events)"
| "FailureRetry_pread (Short k # events) bytes n offset =
     (Some (read_bytes bytes offset (min n (Suc k))), events)"

definition kMaxReadCount :: u64 where
  "kMaxReadCount = 2 ^ 63 - 1"

definition kMaxFileOffset :: u64 where
  "kMaxFileOffset = 2 ^ 63 - 1"

text \<open>The loop; \<open>buf\<close> is what was read so far, its length is \<open>num_bytes\<close>.\<close>

function read_loop ::
  "read_event list \<Rightarrow> (nat \<Rightarrow> char option) \<Rightarrow> nat \<Rightarrow> u64 \<Rightarrow> string \<Rightarrow> string option" where
  "read_loop events bytes count offset buf =
     (if length buf < count then
        (case CheckedAdd offset (of_nat (length buf)) of
           None \<Rightarrow> None
         | Some read_offset \<Rightarrow>
             if read_offset > kMaxFileOffset then None
             else (case FailureRetry_pread events bytes (count - length buf) (unat read_offset) of
                 (None, _) \<Rightarrow> None
               | (Some got, events') \<Rightarrow>
                   if got = [] then Some buf
                   else read_loop events' bytes count offset (buf @ got)))
      else Some buf)"
  by pat_completeness auto
termination
  by (relation "measure (\<lambda>(events, bytes, count, offset, buf). count - length buf)")
    (auto simp del: length_greater_0_conv simp: length_greater_0_conv [symmetric])

declare read_loop.simps [simp del]

definition ReadFromOffset :: "fd \<Rightarrow> u64 \<Rightarrow> u64 \<Rightarrow> string option" where
  "ReadFromOffset fd count offset =
     (case fd of
        None \<Rightarrow> None
      | Some f \<Rightarrow>
          if count > kMaxReadCount \<or> offset > kMaxFileOffset then None
          else read_loop (events_at f offset count) (byte_at f) (unat count) offset [])"

text \<open>What was read, if it is as much as was asked for. The comparison takes a failed read, \<open>-1\<close>,
  for one of \<open>SIZE_MAX\<close> bytes.\<close>

definition ReadFromOffsetExact :: "fd \<Rightarrow> u64 \<Rightarrow> u64 \<Rightarrow> string option" where
  "ReadFromOffsetExact fd count offset =
     (case ReadFromOffset fd count offset of
        None \<Rightarrow> if count = SIZE_MAX then Some [] else None
      | Some buf \<Rightarrow> if (of_nat (length buf) :: u64) = count then Some buf else None)"

definition IsFileRangeReadable :: "fd \<Rightarrow> u64 \<Rightarrow> u64 \<Rightarrow> bool" where
  "IsFileRangeReadable fd offset bytes =
     (case fd of
        None \<Rightarrow> False
      | Some f \<Rightarrow>
          (case st_size f of
             None \<Rightarrow> False
           | Some st \<Rightarrow>
               if st < 0 then False
               else let file_size = word_of_int st
                    in offset \<le> file_size \<and> bytes \<le> file_size - offset))"

section \<open>The structures of an ELF file\<close>

text \<open>Little-endian numbers, and the fields of \<open><elf.h>\<close> at their offsets.\<close>

fun le :: "string \<Rightarrow> nat" where
  "le [] = 0"
| "le (b # bs) = of_char b + 256 * le bs"

definition field :: "nat \<Rightarrow> nat \<Rightarrow> string \<Rightarrow> 'w::len word" where
  "field offset width bs = of_nat (le (take width (drop offset bs)))"

record Ehdr =
  e_ident :: string
  e_type :: "16 word"
  e_version :: "32 word"
  e_phoff :: u64
  e_shoff :: u64
  e_ehsize :: "16 word"
  e_phentsize :: "16 word"
  e_phnum :: "16 word"
  e_shentsize :: "16 word"
  e_shnum :: "16 word"
  e_shstrndx :: "16 word"

definition sizeof_Ehdr :: u64 where
  "sizeof_Ehdr = 64"

definition Ehdr_of :: "string \<Rightarrow> Ehdr" where
  "Ehdr_of bs = \<lparr>e_ident = take 16 bs, e_type = field 16 2 bs, e_version = field 20 4 bs,
     e_phoff = field 32 8 bs, e_shoff = field 40 8 bs, e_ehsize = field 52 2 bs,
     e_phentsize = field 54 2 bs, e_phnum = field 56 2 bs, e_shentsize = field 58 2 bs,
     e_shnum = field 60 2 bs, e_shstrndx = field 62 2 bs\<rparr>"

record Shdr =
  sh_name :: "32 word"
  sh_type :: "32 word"
  sh_offset :: u64
  sh_size :: u64
  sh_link :: "32 word"
  sh_info :: "32 word"
  sh_entsize :: u64

definition sizeof_Shdr :: u64 where
  "sizeof_Shdr = 64"

definition Shdr_of :: "string \<Rightarrow> Shdr" where
  "Shdr_of bs = \<lparr>sh_name = field 0 4 bs, sh_type = field 4 4 bs, sh_offset = field 24 8 bs,
     sh_size = field 32 8 bs, sh_link = field 40 4 bs, sh_info = field 44 4 bs,
     sh_entsize = field 56 8 bs\<rparr>"

definition SHT_SYMTAB :: "32 word" where "SHT_SYMTAB = 2"
definition SHT_STRTAB :: "32 word" where "SHT_STRTAB = 3"
definition SHT_DYNSYM :: "32 word" where "SHT_DYNSYM = 11"
definition SHN_XINDEX :: "16 word" where "SHN_XINDEX = 0xffff"

definition IsSupportedElfHeader :: "Ehdr \<Rightarrow> bool" where
  "IsSupportedElfHeader elf_header \<longleftrightarrow>
     take 4 (e_ident elf_header) = CHR 0x7f # ''ELF'' \<and>
     e_ident elf_header ! 4 = CHR 0x02 \<and> e_ident elf_header ! 5 = CHR 0x01 \<and>
     e_ident elf_header ! 6 = CHR 0x01 \<and> e_version elf_header = 1 \<and>
     ucast (e_ehsize elf_header) = sizeof_Ehdr"

definition ReadEhdr :: "fd \<Rightarrow> u64 \<Rightarrow> Ehdr option" where
  "ReadEhdr fd offset = map_option Ehdr_of (ReadFromOffsetExact fd sizeof_Ehdr offset)"

section \<open>The section table\<close>

definition ReadShdr :: "fd \<Rightarrow> u64 \<Rightarrow> Shdr option" where
  "ReadShdr fd offset = map_option Shdr_of (ReadFromOffsetExact fd sizeof_Shdr offset)"

definition ReadSectionHeader :: "fd \<Rightarrow> u64 \<Rightarrow> u64 \<Rightarrow> u64 \<Rightarrow> u64 \<Rightarrow> Shdr option" where
  "ReadSectionHeader fd section_index section_count section_offset section_entry_size = do {
     require (section_index < section_count \<and> section_entry_size \<ge> sizeof_Shdr);
     section_table_offset \<leftarrow> CheckedMultiply section_index section_entry_size;
     section_header_offset \<leftarrow> CheckedAdd section_offset section_table_offset;
     ReadShdr fd section_header_offset
   }"

text \<open>The number of sections, the index of the table of their names and the size of an entry.
  \<open>want_index\<close> is false for the caller that passes a null pointer for the index.\<close>

definition GetSectionTableInfo :: "fd \<Rightarrow> Ehdr \<Rightarrow> bool \<Rightarrow> (u64 \<times> u64 \<times> u64) option" where
  "GetSectionTableInfo fd elf_header want_index =
     (if e_shoff elf_header = 0 \<and> e_shnum elf_header = 0 then Some (0, 0, 0)
      else do {
        require (ucast (e_shentsize elf_header) \<ge> sizeof_Shdr);
        let section_offset = e_shoff elf_header;
        let entry_size = (ucast (e_shentsize elf_header) :: u64);
        (count, string_index) \<leftarrow>
          (if e_shnum elf_header = 0 \<or> e_shstrndx elf_header = SHN_XINDEX then do {
             require (section_offset \<noteq> 0);
             first_section \<leftarrow> ReadShdr fd section_offset;
             Some (if e_shnum elf_header = 0 then sh_size first_section else ucast (e_shnum elf_header),
                   if e_shstrndx elf_header = SHN_XINDEX then ucast (sh_link first_section)
                   else ucast (e_shstrndx elf_header))
           } else Some (ucast (e_shnum elf_header), ucast (e_shstrndx elf_header)));
        require (count \<noteq> 0);
        section_table_size \<leftarrow> CheckedMultiply count entry_size;
        require (IsFileRangeReadable fd section_offset section_table_size \<and>
                 (want_index \<longrightarrow> string_index < count));
        Some (count, string_index, entry_size)
      })"

definition FileGetElfType :: "fd \<Rightarrow> int" where
  "FileGetElfType fd =
     (case ReadEhdr fd 0 of
        None \<Rightarrow> - 1
      | Some elf_header \<Rightarrow>
          if \<not> IsSupportedElfHeader elf_header then - 1 else uint (e_type elf_header))"

datatype SectionLookupResult = kSectionNotFound | kSectionFound Shdr | kSectionMalformed

text \<open>Entries of an unusual size are read one by one, the others at most 16 at a time.\<close>

definition section_by_one :: "fd \<Rightarrow> u64 \<Rightarrow> u64 \<Rightarrow> u64 \<Rightarrow> 32 word \<Rightarrow> SectionLookupResult" where
  "section_by_one fd table_count table_offset entry_size type =
     (case for_loop 0 (unat table_count)
             (\<lambda>i _. case ReadSectionHeader fd (of_nat i) table_count table_offset entry_size of
                      None \<Rightarrow> Inl kSectionMalformed
                    | Some section \<Rightarrow>
                        if sh_type section = type then Inl (kSectionFound section) else Inr ()) () of
        Inl result \<Rightarrow> result
      | Inr _ \<Rightarrow> kSectionNotFound)"

text \<open>The first \<open>n\<close> entries of \<open>width\<close> bytes in a buffer.\<close>

definition entries :: "nat \<Rightarrow> nat \<Rightarrow> string \<Rightarrow> string list" where
  "entries width n buf = map (\<lambda>j. take width (drop (j * width) buf)) [0..<n]"

lemma length_entries [simp]: "length (entries width n buf) = n"
  by (simp add: entries_def)

definition kSectionBufferSize :: u64 where
  "kSectionBufferSize = 16 * sizeof_Shdr"

definition num_bytes_to_read :: "u64 \<Rightarrow> u64" where
  "num_bytes_to_read num_bytes_left =
     (if kSectionBufferSize > num_bytes_left then num_bytes_left else kSectionBufferSize)"

lemma num_headers_pos:
  assumes "CheckedMultiply left sizeof_Shdr = Some num_bytes_left" and "left \<noteq> 0"
  shows "0 < unat (num_bytes_to_read num_bytes_left div sizeof_Shdr)"
proof -
  have "num_bytes_left = left * sizeof_Shdr" "unat left * unat sizeof_Shdr < 2 ^ 64"
    using assms(1) by (simp_all add: CheckedMultiply_Some_iff)
  then have "unat num_bytes_left = unat left * 64"
    by (simp add: sizeof_Shdr_def unat_word_ariths)
  moreover have "0 < unat left"
    using assms(2) by (simp add: unat_gt_0)
  ultimately show ?thesis
    by (auto simp: num_bytes_to_read_def kSectionBufferSize_def sizeof_Shdr_def unat_div_distrib
      word_less_nat_alt)
qed

function section_by_sixteen :: "fd \<Rightarrow> u64 \<Rightarrow> u64 \<Rightarrow> 32 word \<Rightarrow> nat \<Rightarrow> SectionLookupResult" where
  "section_by_sixteen fd table_count table_offset type i =
     (if i < unat table_count then
        (case CheckedMultiply (table_count - of_nat i) sizeof_Shdr of
           None \<Rightarrow> kSectionMalformed
         | Some num_bytes_left \<Rightarrow>
             (case CheckedMultiply (of_nat i) sizeof_Shdr of
                None \<Rightarrow> kSectionMalformed
              | Some entries_offset \<Rightarrow>
                  (case CheckedAdd table_offset entries_offset of
                     None \<Rightarrow> kSectionMalformed
                   | Some read_offset \<Rightarrow>
                       (case ReadFromOffsetExact fd (num_bytes_to_read num_bytes_left) read_offset of
                          None \<Rightarrow> kSectionMalformed
                        | Some buf \<Rightarrow>
                            let num_headers_in_buf =
                                  unat (num_bytes_to_read num_bytes_left div sizeof_Shdr)
                            in case find (\<lambda>section. sh_type section = type)
                                      (map Shdr_of (entries (unat sizeof_Shdr) num_headers_in_buf buf)) of
                                 Some section \<Rightarrow> kSectionFound section
                               | None \<Rightarrow> section_by_sixteen fd table_count table_offset type
                                           (i + num_headers_in_buf)))))
      else kSectionNotFound)"
  by pat_completeness auto
termination
proof (relation "measure (\<lambda>(fd, table_count, table_offset, type, i). unat table_count - i)", goal_cases)
  case (2 fd table_count table_offset type i left_bytes entries_offset read_offset buf n)
  have "(table_count - of_nat i :: u64) \<noteq> 0"
  proof
    assume "(table_count - of_nat i :: u64) = 0"
    then have "unat table_count = unat (of_nat i :: u64)"
      by simp
    moreover have "i < 2 ^ 64"
      using 2(1) unat_u64_less [of table_count] by linarith
    ultimately show False
      using 2(1) by (simp add: unat_of_nat_64)
  qed
  from num_headers_pos [OF 2(2) this] show ?case
    using 2 by simp
qed simp

declare section_by_sixteen.simps [simp del]

definition GetSectionHeaderByType :: "fd \<Rightarrow> u64 \<Rightarrow> u64 \<Rightarrow> u64 \<Rightarrow> 32 word \<Rightarrow> SectionLookupResult" where
  "GetSectionHeaderByType fd table_count table_offset entry_size type =
     (case CheckedMultiply table_count entry_size of
        None \<Rightarrow> kSectionMalformed
      | Some section_table_size \<Rightarrow>
          if entry_size < sizeof_Shdr \<or> \<not> IsFileRangeReadable fd table_offset section_table_size
          then kSectionMalformed
          else if entry_size \<noteq> sizeof_Shdr
          then section_by_one fd table_count table_offset entry_size type
          else section_by_sixteen fd table_count table_offset type 0)"

text \<open>\<open>name\<close> has \<open>name_len\<close> bytes, its terminator included.\<close>

definition kMaxSectionNameLen :: nat where
  "kMaxSectionNameLen = 64"

definition GetSectionHeaderByName :: "fd \<Rightarrow> string \<Rightarrow> Shdr option" where
  "GetSectionHeaderByName fd name = do {
     let name_len = (of_nat (length name) :: u64);
     require (name \<noteq> []);
     elf_header \<leftarrow> ReadEhdr fd 0;
     require (IsSupportedElfHeader elf_header \<and> length name \<le> kMaxSectionNameLen);
     (section_count, string_table_index, section_entry_size) \<leftarrow> GetSectionTableInfo fd elf_header True;
     require (section_count \<noteq> 0);
     let section_offset = e_shoff elf_header;
     shstrtab \<leftarrow> ReadSectionHeader fd string_table_index section_count section_offset section_entry_size;
     require (sh_type shstrtab = SHT_STRTAB);
     require (IsFileRangeReadable fd (sh_offset shstrtab) (sh_size shstrtab));
     (case for_loop 0 (unat section_count)
             (\<lambda>i _. case ReadSectionHeader fd (of_nat i) section_count section_offset section_entry_size of
                None \<Rightarrow> Inl None
              | Some out \<Rightarrow>
                  if ucast (sh_name out) > sh_size shstrtab \<or>
                     name_len > sh_size shstrtab - ucast (sh_name out) then Inr ()
                  else (case do {
                               name_offset \<leftarrow> CheckedAdd (sh_offset shstrtab) (ucast (sh_name out));
                               ReadFromOffsetExact fd name_len name_offset
                             } of
                          None \<Rightarrow> Inl None
                        | Some header_name \<Rightarrow> if header_name = name then Inl (Some out) else Inr ())) () of
        Inl result \<Rightarrow> result
      | Inr _ \<Rightarrow> None)
   }"

end
