(* ===== verification/ElfSymbols.thy ===== *)
theory ElfSymbols imports ElfFile begin

text \<open>
  The symbol tables of an object file, \<open>src/src/symbolize.cc\<close>: the program headers, the dynamic
  table with the number of its symbols, which only the hash tables tell, and the search of a table
  for the symbol that contains an address.
\<close>

section \<open>Program headers\<close>

record Phdr =
  p_type :: "32 word"
  p_offset :: u64
  p_vaddr :: u64
  p_filesz :: u64

definition sizeof_Phdr :: u64 where
  "sizeof_Phdr = 56"

definition Phdr_of :: "string \<Rightarrow> Phdr" where
  "Phdr_of bs = \<lparr>p_type = field 0 4 bs, p_offset = field 8 8 bs, p_vaddr = field 16 8 bs,
     p_filesz = field 32 8 bs\<rparr>"

definition PN_XNUM :: "16 word" where "PN_XNUM = 0xffff"
definition PT_LOAD :: "32 word" where "PT_LOAD = 1"
definition PT_DYNAMIC :: "32 word" where "PT_DYNAMIC = 2"

definition GetProgramHeaderTableInfo :: "fd \<Rightarrow> Ehdr \<Rightarrow> u64 option" where
  "GetProgramHeaderTableInfo fd elf_header =
     (if e_phnum elf_header = 0 then Some 0
      else do {
        count \<leftarrow>
          (if e_phnum elf_header = PN_XNUM then do {
             require (e_shoff elf_header \<noteq> 0 \<and> ucast (e_shentsize elf_header) \<ge> sizeof_Shdr);
             first_section \<leftarrow> ReadShdr fd (e_shoff elf_header);
             Some (ucast (sh_info first_section))
           } else Some (ucast (e_phnum elf_header)));
        if count = 0 then Some 0
        else do {
          require (ucast (e_phentsize elf_header) \<ge> sizeof_Phdr);
          table_size \<leftarrow> CheckedMultiply count (ucast (e_phentsize elf_header));
          require (IsFileRangeReadable fd (e_phoff elf_header) table_size);
          Some count
        }
      })"

definition ReadPhdr :: "fd \<Rightarrow> u64 \<Rightarrow> Phdr option" where
  "ReadPhdr fd offset = map_option Phdr_of (ReadFromOffsetExact fd sizeof_Phdr offset)"

definition ReadProgramHeader :: "fd \<Rightarrow> u64 \<Rightarrow> u64 \<Rightarrow> u64 \<Rightarrow> u64 \<Rightarrow> Phdr option" where
  "ReadProgramHeader fd index count table_offset entry_size = do {
     require (index < count \<and> entry_size \<ge> sizeof_Phdr);
     entry_offset \<leftarrow> CheckedMultiply index entry_size;
     offset \<leftarrow> CheckedAdd table_offset entry_offset;
     ReadPhdr fd offset
   }"

definition ConvertDynamicAddressToFileOffset :: "fd \<Rightarrow> Ehdr \<Rightarrow> u64 \<Rightarrow> u64 \<Rightarrow> u64 \<Rightarrow> u64 option" where
  "ConvertDynamicAddressToFileOffset fd elf_header program_header_count address bytes =
     (case for_loop 0 (unat program_header_count)
             (\<lambda>i _. case ReadProgramHeader fd (of_nat i) program_header_count (e_phoff elf_header)
                           (ucast (e_phentsize elf_header)) of
                None \<Rightarrow> Inl None
              | Some program_header \<Rightarrow>
                  let segment_vaddr = p_vaddr program_header;
                      segment_filesz = p_filesz program_header
                  in if p_type program_header \<noteq> PT_LOAD \<or> address < segment_vaddr \<or>
                        address - segment_vaddr > segment_filesz \<or>
                        bytes > segment_filesz - (address - segment_vaddr) then Inr ()
                     else Inl (do {
                       offset \<leftarrow> CheckedAdd (p_offset program_header) (address - segment_vaddr);
                       require (IsFileRangeReadable fd offset bytes);
                       Some offset
                     })) () of
        Inl result \<Rightarrow> result
      | Inr _ \<Rightarrow> None)"

section \<open>The number of dynamic symbols\<close>

definition ReadSysVHashSymbolCount :: "fd \<Rightarrow> u64 \<Rightarrow> u64 option" where
  "ReadSysVHashSymbolCount fd offset = do {
     require (IsFileRangeReadable fd offset 8);
     header \<leftarrow> ReadFromOffsetExact fd 8 offset;
     let nbucket = (ucast (field 0 4 header :: 32 word) :: u64);
     let nchain = (ucast (field 4 4 header :: 32 word) :: u64);
     word_count \<leftarrow> CheckedAdd 2 nbucket;
     word_count' \<leftarrow> CheckedAdd word_count nchain;
     table_size \<leftarrow> CheckedMultiply word_count' 4;
     require (IsFileRangeReadable fd offset table_size);
     Some nchain
   }"

text \<open>One step along a chain: the value at the index and the new \<open>max_symbol\<close>.\<close>

definition chain_step :: "fd \<Rightarrow> u64 \<Rightarrow> 32 word \<Rightarrow> 32 word \<Rightarrow> u64 \<Rightarrow> (32 word \<times> u64) option" where
  "chain_step fd chain_offset symbol_index chain_index max_symbol = do {
     chain_position \<leftarrow> CheckedMultiply (ucast chain_index) 4;
     chain_position' \<leftarrow> CheckedAdd chain_offset chain_position;
     chain_value \<leftarrow> ReadFromOffsetExact fd 4 chain_position';
     max_symbol' \<leftarrow> (if ucast symbol_index \<ge> max_symbol then CheckedAdd (ucast symbol_index) 1
                      else Some max_symbol);
     Some (field 0 4 chain_value, max_symbol')
   }"

function walk_chain :: "fd \<Rightarrow> u64 \<Rightarrow> 32 word \<Rightarrow> 32 word \<Rightarrow> u64 \<Rightarrow> u64 option" where
  "walk_chain fd chain_offset symbol_index chain_index max_symbol =
     (case chain_step fd chain_offset symbol_index chain_index max_symbol of
        None \<Rightarrow> None
      | Some (chain_value, max_symbol') \<Rightarrow>
          if chain_value AND 1 \<noteq> 0 then Some max_symbol'
          else if chain_index = - 1 then None
          else walk_chain fd chain_offset symbol_index (chain_index + 1) max_symbol')"
  by pat_completeness auto
termination
proof (relation "measure (\<lambda>(fd, chain_offset, symbol_index, chain_index, max_symbol).
    2 ^ 32 - unat chain_index)", goal_cases)
  case (2 fd chain_offset symbol_index chain_index max_symbol)
  then have "unat (chain_index + 1) = unat chain_index + 1"
    by (metis Suc_eq_plus1 add.commute eq_diff_eq diff_0 unatSuc add_eq_0_iff)
  moreover have "unat (chain_index + 1) < 2 ^ 32"
    using unsigned_less [of "chain_index + 1"] by simp
  ultimately show ?case
    by simp
qed simp

declare walk_chain.simps [simp del]

definition ReadGnuHashSymbolCount :: "fd \<Rightarrow> u64 \<Rightarrow> u64 option" where
  "ReadGnuHashSymbolCount fd offset = do {
     require (IsFileRangeReadable fd offset 16);
     header \<leftarrow> ReadFromOffsetExact fd 16 offset;
     let header0 = (field 0 4 header :: 32 word);
     let header1 = (field 4 4 header :: 32 word);
     bloom_word_count \<leftarrow> CheckedMultiply (ucast (field 8 4 header :: 32 word)) 2;
     bloom_size \<leftarrow> CheckedMultiply bloom_word_count 4;
     bucket_offset0 \<leftarrow> CheckedAdd offset 16;
     bucket_offset \<leftarrow> CheckedAdd bucket_offset0 bloom_size;
     bucket_size \<leftarrow> CheckedMultiply (ucast header0) 4;
     require (IsFileRangeReadable fd bucket_offset bucket_size);
     chain_offset \<leftarrow> CheckedAdd bucket_offset bucket_size;
     (case for_loop 0 (unat header0)
             (\<lambda>i max_symbol.
                case do {
                       bucket_position \<leftarrow> CheckedMultiply (of_nat i) 4;
                       bucket_position' \<leftarrow> CheckedAdd bucket_offset bucket_position;
                       map_option (field 0 4) (ReadFromOffsetExact fd 4 bucket_position')
                     } of
                  None \<Rightarrow> Inl ()
                | Some bucket \<Rightarrow>
                    if bucket < header1 then Inr max_symbol
                    else (case walk_chain fd chain_offset bucket (bucket - header1) max_symbol of
                            None \<Rightarrow> Inl ()
                          | Some max_symbol' \<Rightarrow> Inr max_symbol')) (ucast header1) of
        Inl _ \<Rightarrow> None
      | Inr max_symbol \<Rightarrow> Some max_symbol)
   }"

section \<open>The dynamic table\<close>

record Dyn =
  d_tag :: u64
  d_val :: u64

definition sizeof_Dyn :: u64 where
  "sizeof_Dyn = 16"

definition Dyn_of :: "string \<Rightarrow> Dyn" where
  "Dyn_of bs = \<lparr>d_tag = field 0 8 bs, d_val = field 8 8 bs\<rparr>"

definition DT_NULL :: u64 where "DT_NULL = 0"
definition DT_HASH :: u64 where "DT_HASH = 4"
definition DT_STRTAB :: u64 where "DT_STRTAB = 5"
definition DT_SYMTAB :: u64 where "DT_SYMTAB = 6"
definition DT_STRSZ :: u64 where "DT_STRSZ = 10"
definition DT_SYMENT :: u64 where "DT_SYMENT = 11"
definition DT_GNU_HASH :: u64 where "DT_GNU_HASH = 0x6ffffef5"

text \<open>What the loop over the table collects; a missing entry is \<open>None\<close>.\<close>

record dynamic_info =
  symtab_address :: "u64 option"
  strtab_address :: "u64 option"
  strtab_size :: "u64 option"
  hash_address :: "u64 option"
  gnu_hash_address :: "u64 option"
  symbol_entry_size :: u64

definition no_dynamic_info :: dynamic_info where
  "no_dynamic_info = \<lparr>symtab_address = None, strtab_address = None, strtab_size = None,
     hash_address = None, gnu_hash_address = None, symbol_entry_size = 0\<rparr>"

definition dynamic_entry :: "Dyn \<Rightarrow> dynamic_info \<Rightarrow> dynamic_info" where
  "dynamic_entry dynamic info =
     (let val = d_val dynamic
      in if d_tag dynamic = DT_SYMTAB then info\<lparr>symtab_address := Some val\<rparr>
         else if d_tag dynamic = DT_SYMENT then info\<lparr>symbol_entry_size := val\<rparr>
         else if d_tag dynamic = DT_STRTAB then info\<lparr>strtab_address := Some val\<rparr>
         else if d_tag dynamic = DT_STRSZ then info\<lparr>strtab_size := Some val\<rparr>
         else if d_tag dynamic = DT_HASH then info\<lparr>hash_address := Some val\<rparr>
         else if d_tag dynamic = DT_GNU_HASH then info\<lparr>gnu_hash_address := Some val\<rparr>
         else info)"

text \<open>\<open>Inl None\<close> is a malformed table, \<open>Inl (Some info)\<close> the end at \<open>DT_NULL\<close>.\<close>

definition read_dynamic_table :: "fd \<Rightarrow> Phdr \<Rightarrow> dynamic_info option" where
  "read_dynamic_table fd dynamic_header =
     (case for_loop 0 (unat (p_filesz dynamic_header div sizeof_Dyn))
             (\<lambda>i info. case do {
                         entry_offset \<leftarrow> CheckedMultiply (of_nat i) sizeof_Dyn;
                         offset \<leftarrow> CheckedAdd (p_offset dynamic_header) entry_offset;
                         map_option Dyn_of (ReadFromOffsetExact fd sizeof_Dyn offset)
                       } of
                  None \<Rightarrow> Inl None
                | Some dynamic \<Rightarrow>
                    if d_tag dynamic = DT_NULL then Inl (Some info)
                    else Inr (dynamic_entry dynamic info)) no_dynamic_info of
        Inl result \<Rightarrow> result
      | Inr info \<Rightarrow> Some info)"

definition read_symbol_count :: "fd \<Rightarrow> Ehdr \<Rightarrow> u64 \<Rightarrow> dynamic_info \<Rightarrow> u64 option" where
  "read_symbol_count fd elf_header program_header_count info =
     (case hash_address info of
        Some address \<Rightarrow> do {
          hash_offset \<leftarrow> ConvertDynamicAddressToFileOffset fd elf_header program_header_count address 8;
          ReadSysVHashSymbolCount fd hash_offset
        }
      | None \<Rightarrow> do {
          gnu_hash_offset \<leftarrow> ConvertDynamicAddressToFileOffset fd elf_header program_header_count
            (the (gnu_hash_address info)) 16;
          ReadGnuHashSymbolCount fd gnu_hash_offset
        })"

record Sym =
  st_name :: "32 word"
  st_info :: "8 word"
  st_shndx :: "16 word"
  st_value :: u64
  sym_size :: u64

definition sizeof_Sym :: u64 where
  "sizeof_Sym = 24"

definition Sym_of :: "string \<Rightarrow> Sym" where
  "Sym_of bs = \<lparr>st_name = field 0 4 bs, st_info = field 4 1 bs, st_shndx = field 6 2 bs,
     st_value = field 8 8 bs, sym_size = field 16 8 bs\<rparr>"

datatype SymbolLookupResult = kNotFound | kFound | kMalformed

text \<open>The fields of the section headers that the code leaves alone are zero here.\<close>

definition table_header :: "32 word \<Rightarrow> u64 \<Rightarrow> u64 \<Rightarrow> u64 \<Rightarrow> Shdr" where
  "table_header type offset bytes entsize = \<lparr>sh_name = 0, sh_type = type, sh_offset = offset,
     sh_size = bytes, sh_link = 0, sh_info = 0, sh_entsize = entsize\<rparr>"

text \<open>\<open>Inl\<close> the failures, \<open>Inr\<close> the headers of the symbols and of their names.\<close>

definition GetDynamicSymbolTables :: "fd \<Rightarrow> Ehdr \<Rightarrow> SymbolLookupResult + (Shdr \<times> Shdr)" where
  "GetDynamicSymbolTables fd elf_header =
     (case GetProgramHeaderTableInfo fd elf_header of
        None \<Rightarrow> Inl kMalformed
      | Some program_header_count \<Rightarrow>
          (case for_loop 0 (unat program_header_count)
                  (\<lambda>i _. case ReadProgramHeader fd (of_nat i) program_header_count
                                (e_phoff elf_header) (ucast (e_phentsize elf_header)) of
                           None \<Rightarrow> Inl None
                         | Some program_header \<Rightarrow>
                             if p_type program_header = PT_DYNAMIC then Inl (Some program_header)
                             else Inr ()) () of
             Inr _ \<Rightarrow> Inl kNotFound
           | Inl None \<Rightarrow> Inl kMalformed
           | Inl (Some dynamic_header) \<Rightarrow>
               if p_filesz dynamic_header mod sizeof_Dyn \<noteq> 0 \<or>
                  \<not> IsFileRangeReadable fd (p_offset dynamic_header) (p_filesz dynamic_header)
               then Inl kMalformed
               else (case read_dynamic_table fd dynamic_header of
                  None \<Rightarrow> Inl kMalformed
                | Some info \<Rightarrow>
                    if symtab_address info = None \<or> strtab_address info = None \<or>
                       strtab_size info = None \<or> symbol_entry_size info \<noteq> sizeof_Sym \<or>
                       (hash_address info = None \<and> gnu_hash_address info = None)
                    then Inl kNotFound
                    else (case do {
                        symbol_count \<leftarrow> read_symbol_count fd elf_header program_header_count info;
                        symbol_table_size \<leftarrow> CheckedMultiply symbol_count sizeof_Sym;
                        symbol_offset \<leftarrow> ConvertDynamicAddressToFileOffset fd elf_header
                          program_header_count (the (symtab_address info)) symbol_table_size;
                        string_offset \<leftarrow> ConvertDynamicAddressToFileOffset fd elf_header
                          program_header_count (the (strtab_address info)) (the (strtab_size info));
                        Some (table_header SHT_DYNSYM symbol_offset symbol_table_size sizeof_Sym,
                              table_header SHT_STRTAB string_offset (the (strtab_size info)) 0)
                      } of
                        None \<Rightarrow> Inl kMalformed
                      | Some tables \<Rightarrow> Inr tables))))"

section \<open>The search of a symbol table\<close>

definition STT_TLS :: "8 word" where "STT_TLS = 6"

definition ELF64_ST_TYPE :: "8 word \<Rightarrow> 8 word" where
  "ELF64_ST_TYPE info = info AND 0xf"

text \<open>The tests of a symbol: whether it names code or data that contains \<open>pc\<close>.\<close>

definition symbol_matches :: "u64 \<Rightarrow> u64 \<Rightarrow> Sym \<Rightarrow> bool" where
  "symbol_matches pc symbol_offset symbol =
     (if ELF64_ST_TYPE (st_info symbol) = STT_TLS then False
      else case do {
          start_address \<leftarrow> CheckedAdd (st_value symbol) symbol_offset;
          end_address \<leftarrow> CheckedAdd start_address (sym_size symbol);
          Some (start_address, end_address)
        } of
          None \<Rightarrow> False
        | Some (start_address, end_address) \<Rightarrow>
            st_value symbol \<noteq> 0 \<and> st_shndx symbol \<noteq> 0 \<and> start_address \<le> pc \<and> pc < end_address)"

text \<open>What the output buffer \<open>out\<close> holds after a read into its beginning.\<close>

definition read_name :: "fd \<Rightarrow> Shdr \<Rightarrow> Sym \<Rightarrow> string \<Rightarrow> SymbolLookupResult \<times> string" where
  "read_name fd strtab symbol out =
     (if ucast (st_name symbol) \<ge> sh_size strtab then (kMalformed, out)
      else let name_bytes_available = sh_size strtab - ucast (st_name symbol);
               out_size = (of_nat (length out) :: u64);
               bytes_available = (if name_bytes_available > out_size then out_size
                                  else name_bytes_available)
           in case CheckedAdd (sh_offset strtab) (ucast (st_name symbol)) of
                None \<Rightarrow> (kMalformed, out)
              | Some name_offset \<Rightarrow>
                  if bytes_available = 0 then (kMalformed, out)
                  else (case ReadFromOffset fd bytes_available name_offset of
                     None \<Rightarrow> (kMalformed, replicate (length out) NUL)
                   | Some name \<Rightarrow>
                       if NUL \<notin> set name then (kMalformed, replicate (length out) NUL)
                       else (kFound, name @ drop (length name) out)))"

definition NUM_SYMBOLS :: nat where
  "NUM_SYMBOLS = 32"

function find_symbol_loop ::
  "u64 \<Rightarrow> fd \<Rightarrow> string \<Rightarrow> u64 \<Rightarrow> Shdr \<Rightarrow> Shdr \<Rightarrow> nat \<Rightarrow> nat \<Rightarrow> SymbolLookupResult \<times> string" where
  "find_symbol_loop pc fd out symbol_offset strtab symtab num_symbols i =
     (if i < num_symbols then
        (case do {
             symbol_offset_in_file \<leftarrow> CheckedMultiply (of_nat i) sizeof_Sym;
             offset \<leftarrow> CheckedAdd (sh_offset symtab) symbol_offset_in_file;
             bytes_to_read \<leftarrow> CheckedMultiply sizeof_Sym (of_nat (min NUM_SYMBOLS (num_symbols - i)));
             ReadFromOffset fd bytes_to_read offset
           } of
           None \<Rightarrow> (kMalformed, out)
         | Some buf \<Rightarrow>
             if length buf = 0 \<or> length buf mod unat sizeof_Sym \<noteq> 0 then (kMalformed, out)
             else let num_symbols_in_buf = length buf div unat sizeof_Sym
                  in case find (symbol_matches pc symbol_offset)
                            (map Sym_of (entries (unat sizeof_Sym) num_symbols_in_buf buf)) of
                       Some symbol \<Rightarrow> read_name fd strtab symbol out
                     | None \<Rightarrow> find_symbol_loop pc fd out symbol_offset strtab symtab num_symbols
                                 (i + num_symbols_in_buf))
      else (kNotFound, out))"
  by pat_completeness auto
termination
proof (relation "measure (\<lambda>(pc, fd, out, symbol_offset, strtab, symtab, num_symbols, i).
    num_symbols - i)", goal_cases)
  case (2 pc fd out symbol_offset strtab symtab num_symbols i buf n)
  have "0 < length buf div unat sizeof_Sym"
    using 2(3) by (cases "length buf < 24") (auto simp: sizeof_Sym_def div_greater_zero_iff)
  then show ?case
    using 2 by simp
qed simp

declare find_symbol_loop.simps [simp del]

definition FindSymbol ::
  "u64 \<Rightarrow> fd \<Rightarrow> string \<Rightarrow> u64 \<Rightarrow> Shdr \<Rightarrow> Shdr \<Rightarrow> SymbolLookupResult \<times> string" where
  "FindSymbol pc fd out symbol_offset strtab symtab =
     (if sh_entsize symtab \<noteq> sizeof_Sym \<or> sh_size symtab mod sh_entsize symtab \<noteq> 0
      then (kMalformed, out)
      else if \<not> IsFileRangeReadable fd (sh_offset symtab) (sh_size symtab) \<or>
              \<not> IsFileRangeReadable fd (sh_offset strtab) (sh_size strtab)
      then (kMalformed, out)
      else find_symbol_loop pc fd out symbol_offset strtab symtab
             (unat (sh_size symtab div sh_entsize symtab)) 0)"

text \<open>The search of the section table for a symbol table of one type, and then of that table.\<close>

definition search_section ::
  "fd \<Rightarrow> u64 \<Rightarrow> string \<Rightarrow> u64 \<Rightarrow> u64 \<Rightarrow> u64 \<Rightarrow> u64 \<Rightarrow> 32 word \<Rightarrow> SymbolLookupResult \<times> string" where
  "search_section fd pc out base_address section_count section_offset section_entry_size type =
     (case GetSectionHeaderByType fd section_count section_offset section_entry_size type of
        kSectionMalformed \<Rightarrow> (kMalformed, out)
      | kSectionNotFound \<Rightarrow> (kNotFound, out)
      | kSectionFound symtab \<Rightarrow>
          (case do {
               require (ucast (sh_link symtab) < section_count);
               strtab \<leftarrow> ReadSectionHeader fd (ucast (sh_link symtab)) section_count section_offset
                 section_entry_size;
               require (sh_type strtab = SHT_STRTAB);
               Some strtab
             } of
             None \<Rightarrow> (kMalformed, out)
           | Some strtab \<Rightarrow> FindSymbol pc fd out base_address strtab symtab))"

definition search_dynamic :: "fd \<Rightarrow> Ehdr \<Rightarrow> u64 \<Rightarrow> string \<Rightarrow> u64 \<Rightarrow> SymbolLookupResult \<times> string" where
  "search_dynamic fd elf_header pc out base_address =
     (case GetDynamicSymbolTables fd elf_header of
        Inl result \<Rightarrow> (result, out)
      | Inr (symtab, strtab) \<Rightarrow> FindSymbol pc fd out base_address strtab symtab)"

definition GetSymbolFromObjectFile ::
  "fd \<Rightarrow> u64 \<Rightarrow> string \<Rightarrow> u64 \<Rightarrow> SymbolLookupResult \<times> string" where
  "GetSymbolFromObjectFile fd pc out base_address =
     (case ReadEhdr fd 0 of
        None \<Rightarrow> (kMalformed, out)
      | Some elf_header \<Rightarrow>
          if \<not> IsSupportedElfHeader elf_header then (kMalformed, out)
          else (case GetSectionTableInfo fd elf_header False of
             None \<Rightarrow> (kMalformed, out)
           | Some (section_count, _, section_entry_size) \<Rightarrow>
               if section_count \<noteq> 0 then
                 (case search_section fd pc out base_address section_count (e_shoff elf_header)
                         section_entry_size SHT_SYMTAB of
                    (kNotFound, out1) \<Rightarrow>
                      (case search_section fd pc out1 base_address section_count (e_shoff elf_header)
                              section_entry_size SHT_DYNSYM of
                         (kNotFound, out2) \<Rightarrow> search_dynamic fd elf_header pc out2 base_address
                       | result \<Rightarrow> result)
                  | result \<Rightarrow> result)
               else search_dynamic fd elf_header pc out base_address))"

end
