(* ===== verification/SymbolizeMaps.thy ===== *)
theory SymbolizeMaps imports ElfSymbols begin

text \<open>
  The symbolizer's search for the object file of an address, \<open>src/src/symbolize.cc\<close>: the reader of
  lines with a fixed buffer, the parser of the lines of \<open>/proc/self/maps\<close>, the load address from the
  headers in memory, and the number and string functions for signal handlers.
\<close>

section \<open>Lines\<close>

text \<open>The pointers into the buffer are indices; \<open>eol\<close> is \<open>None\<close> for the null pointer.\<close>

record LineReader =
  reader_fd :: fd
  reader_offset :: u64
  line_buf :: string
  bol :: nat
  eol :: "nat option"
  eod :: nat
  truncated :: bool

definition new_LineReader :: "fd \<Rightarrow> string \<Rightarrow> u64 \<Rightarrow> LineReader" where
  "new_LineReader fd buf offset = \<lparr>reader_fd = fd, reader_offset = offset, line_buf = buf, bol = 0,
     eol = Some 0, eod = 0, truncated = False\<rparr>"

definition memchr :: "char \<Rightarrow> string \<Rightarrow> nat option" where
  "memchr c s = (if c \<in> set s then Some (length (takeWhile (\<lambda>d. d \<noteq> c) s)) else None)"

definition FindLineFeed :: "LineReader \<Rightarrow> nat option" where
  "FindLineFeed r =
     map_option (\<lambda>k. bol r + k) (memchr newline (take (eod r - bol r) (drop (bol r) (line_buf r))))"

definition BufferIsEmpty :: "LineReader \<Rightarrow> bool" where
  "BufferIsEmpty r \<longleftrightarrow> eod r = 0"

definition HasCompleteLine :: "LineReader \<Rightarrow> bool" where
  "HasCompleteLine r \<longleftrightarrow> \<not> BufferIsEmpty r \<and> FindLineFeed r \<noteq> None"

lemma read_bytes_length: "length (read_bytes bytes offset n) \<le> n"
  by (induction n arbitrary: offset) (auto split: option.splits)

lemma FailureRetry_pread_length:
  "FailureRetry_pread events bytes n offset = (Some got, events') \<Longrightarrow> length got \<le> n"
  by (induction events bytes n offset rule: FailureRetry_pread.induct)
    (auto intro: read_bytes_length order_trans)

lemma read_loop_length:
  "read_loop events bytes count offset buf = Some got \<Longrightarrow> length buf \<le> count \<Longrightarrow> length got \<le> count"
proof (induction events bytes count offset buf rule: read_loop.induct)
  case (1 events bytes count offset buf)
  show ?case
    using 1 FailureRetry_pread_length
    by (subst (asm) (2) read_loop.simps)
      (fastforce split: if_splits option.splits prod.splits)
qed

lemma ReadFromOffset_length: "ReadFromOffset fd count offset = Some got \<Longrightarrow> length got \<le> unat count"
  by (auto simp: ReadFromOffset_def dest: read_loop_length split: option.splits if_splits)

lemma ReadFromOffset_offset: "ReadFromOffset fd count offset = Some got \<Longrightarrow> offset \<le> kMaxFileOffset"
  by (auto simp: ReadFromOffset_def split: option.splits if_splits)

definition kSkipChunkSize :: nat where
  "kSkipChunkSize = 256"

lemma skip_advances:
  assumes "ReadFromOffset fd (of_nat kSkipChunkSize) offset = Some chunk" and "chunk \<noteq> []"
  shows "unat offset < unat (offset + of_nat (length chunk))"
proof -
  have "length chunk \<le> 256"
    using ReadFromOffset_length [OF assms(1)] by (simp add: kSkipChunkSize_def)
  moreover have "unat offset < 2 ^ 63"
    using ReadFromOffset_offset [OF assms(1)] by (simp add: word_le_nat_alt kMaxFileOffset_def)
  ultimately have "unat (offset + of_nat (length chunk)) = unat offset + length chunk"
    by (subst unat_add_no_wrap) (simp_all add: unat_of_nat_64)
  then show ?thesis
    using assms(2) by simp
qed

text \<open>Whether a line feed was found, and the new offset of the file.\<close>

function SkipRestOfLine :: "fd \<Rightarrow> u64 \<Rightarrow> bool \<times> u64" where
  "SkipRestOfLine fd offset =
     (case ReadFromOffset fd (of_nat kSkipChunkSize) offset of
        None \<Rightarrow> (False, offset)
      | Some chunk \<Rightarrow>
          if chunk = [] then (False, offset)
          else (case memchr newline chunk of
                  Some line_feed \<Rightarrow> (True, offset + of_nat line_feed + 1)
                | None \<Rightarrow> SkipRestOfLine fd (offset + of_nat (length chunk))))"
  by pat_completeness auto
termination
proof (relation "measure (\<lambda>(fd, offset). 2 ^ 64 - unat offset)", goal_cases)
  case (2 fd offset chunk)
  then show ?case
    using skip_advances [of fd offset chunk] unat_u64_less [of "offset + of_nat (length chunk)"]
    by simp
qed simp

declare SkipRestOfLine.simps [simp del]

text \<open>The end of \<open>ReadLine\<close>: the line feed becomes a null character.\<close>

definition end_line :: "LineReader \<Rightarrow> bool \<times> LineReader" where
  "end_line r =
     (case FindLineFeed r of
        Some e \<Rightarrow> (True, r\<lparr>eol := Some e, line_buf := (line_buf r)[e := NUL]\<rparr>)
      | None \<Rightarrow>
          if bol r \<noteq> 0 \<or> eod r \<noteq> length (line_buf r) then (False, r\<lparr>eol := None\<rparr>)
          else (case SkipRestOfLine (reader_fd r) (reader_offset r) of
                  (False, offset) \<Rightarrow> (False, r\<lparr>eol := None, reader_offset := offset\<rparr>)
                | (True, offset) \<Rightarrow>
                    let e = length (line_buf r) - 1
                    in (True, r\<lparr>eol := Some e, reader_offset := offset, truncated := True,
                                line_buf := (line_buf r)[e := NUL]\<rparr>)))"

text \<open>A read that appends to the \<open>k\<close> characters at the beginning of the buffer.\<close>

definition fill_buffer :: "nat \<Rightarrow> LineReader \<Rightarrow> bool \<times> LineReader" where
  "fill_buffer k r =
     (case ReadFromOffset (reader_fd r) (of_nat (length (line_buf r) - k)) (reader_offset r) of
        None \<Rightarrow> (False, r)
      | Some bs \<Rightarrow>
          if bs = [] then (False, r)
          else end_line (r\<lparr>line_buf := take k (line_buf r) @ bs @ drop (k + length bs) (line_buf r),
                           reader_offset := reader_offset r + of_nat (length bs),
                           eod := k + length bs, bol := 0\<rparr>))"

definition ReadLine :: "LineReader \<Rightarrow> bool \<times> LineReader" where
  "ReadLine r0 =
     (let r = r0\<lparr>truncated := False\<rparr>
      in if BufferIsEmpty r then fill_buffer 0 r
         else let r1 = r\<lparr>bol := the (eol r) + 1\<rparr>
              in if HasCompleteLine r1 then end_line r1
                 else let line = take (eod r1 - bol r1) (drop (bol r1) (line_buf r1))
                      in fill_buffer (length line)
                           (r1\<lparr>line_buf := line @ drop (length line) (line_buf r1)\<rparr>))"

definition current_line :: "LineReader \<Rightarrow> string" where
  "current_line r = take (the (eol r) - bol r) (drop (bol r) (line_buf r))"

section \<open>Numbers and strings\<close>

text \<open>The cursor is what is left of the line.\<close>

fun get_hex :: "u64 \<Rightarrow> string \<Rightarrow> string \<times> u64" where
  "get_hex hex [] = ([], hex)"
| "get_hex hex (c # cs) =
     (let ch = (of_char c :: nat)
      in if (48 \<le> ch \<and> ch \<le> 57) \<or> (65 \<le> ch \<and> ch \<le> 70) \<or> (97 \<le> ch \<and> ch \<le> 102)
         then get_hex (push_bit 4 hex OR (if ch < 65 then of_nat (ch - 48) else of_nat (ch AND 0xf) + 9)) cs
         else (c # cs, hex))"

definition GetHex :: "string \<Rightarrow> string \<times> u64" where
  "GetHex cursor = get_hex 0 cursor"

text \<open>The digits are written backwards into a scratch buffer with room for \<open>k\<close> more; \<open>None\<close> would be
  a write in front of it.\<close>

fun itoa_loop :: "nat \<Rightarrow> u64 \<Rightarrow> u64 \<Rightarrow> string \<Rightarrow> string option" where
  "itoa_loop 0 i base first = None"
| "itoa_loop (Suc k) i base first =
     (let first' = ''0123456789abcdef'' ! unat (i mod base) # first;
          i' = i div base
      in if i' > 0 then itoa_loop k i' base first' else Some first')"

text \<open>The string written to \<open>buf\<close>, \<open>None\<close> for the null pointer.\<close>

definition itoa_r :: "u64 \<Rightarrow> nat \<Rightarrow> u64 \<Rightarrow> string option" where
  "itoa_r i sz base =
     (if sz < 1 then None
      else if base < 2 \<or> base > 16 then None
      else case itoa_loop 64 i base [] of
        None \<Rightarrow> None
      | Some digits \<Rightarrow> if length digits \<ge> sz then None else Some digits)"

definition strncpy :: "string \<Rightarrow> nat \<Rightarrow> string" where
  "strncpy source n = take n (cstr source @ replicate n NUL)"

definition SafeAppendString :: "string \<Rightarrow> string \<Rightarrow> string" where
  "SafeAppendString source dest =
     (let dest_string_length = length (cstr dest);
          dest_size = length dest - dest_string_length
      in take dest_string_length dest @ (strncpy source dest_size)[dest_size - 1 := NUL])"

definition SafeAppendHexNumber :: "u64 \<Rightarrow> string \<Rightarrow> string" where
  "SafeAppendHexNumber value dest = SafeAppendString (the (itoa_r value 17 16)) dest"

section \<open>The mappings of the process\<close>

definition ET_EXEC :: "16 word" where "ET_EXEC = 2"
definition ET_DYN :: "16 word" where "ET_DYN = 3"

definition GetProgramHeaderCountFromMemory :: "fd \<Rightarrow> u64 \<Rightarrow> Ehdr \<Rightarrow> u64 option" where
  "GetProgramHeaderCountFromMemory mem_fd start_address elf_header =
     (if e_phnum elf_header = 0 then Some 0
      else do {
        count \<leftarrow>
          (if e_phnum elf_header = PN_XNUM then do {
             require (e_shoff elf_header \<noteq> 0 \<and> ucast (e_shentsize elf_header) \<ge> sizeof_Shdr);
             section_offset \<leftarrow> CheckedAdd start_address (e_shoff elf_header);
             first_section \<leftarrow> ReadShdr mem_fd section_offset;
             Some (ucast (sh_info first_section))
           } else Some (ucast (e_phnum elf_header)));
        require (count = 0 \<or> ucast (e_phentsize elf_header) \<ge> sizeof_Phdr);
        Some count
      })"

definition ReadProgramHeaderFromMemory :: "fd \<Rightarrow> u64 \<Rightarrow> Ehdr \<Rightarrow> u64 \<Rightarrow> u64 \<Rightarrow> Phdr option" where
  "ReadProgramHeaderFromMemory mem_fd start_address elf_header index count = do {
     require (index < count \<and> ucast (e_phentsize elf_header) \<ge> sizeof_Phdr);
     entry_offset \<leftarrow> CheckedMultiply index (ucast (e_phentsize elf_header));
     offset0 \<leftarrow> CheckedAdd (e_phoff elf_header) entry_offset;
     offset \<leftarrow> CheckedAdd start_address offset0;
     ReadPhdr mem_fd offset
   }"

text \<open>The base address that the headers at the start of a mapping give.\<close>

definition base_from_memory :: "fd \<Rightarrow> u64 \<Rightarrow> Ehdr \<Rightarrow> u64 \<Rightarrow> u64" where
  "base_from_memory mem_fd start_address ehdr base_address =
     (if e_type ehdr = ET_EXEC then 0
      else if e_type ehdr = ET_DYN then
        (case GetProgramHeaderCountFromMemory mem_fd start_address ehdr of
           None \<Rightarrow> start_address
         | Some program_header_count \<Rightarrow>
             (case for_loop 0 (unat program_header_count)
                     (\<lambda>i _. case ReadProgramHeaderFromMemory mem_fd start_address ehdr (of_nat i)
                                   program_header_count of
                        None \<Rightarrow> Inr ()
                      | Some phdr \<Rightarrow>
                          if p_type phdr = PT_LOAD \<and> p_offset phdr = 0
                          then Inl (if p_vaddr phdr \<le> start_address then start_address - p_vaddr phdr
                                    else start_address)
                          else Inr ()) () of
                Inl base \<Rightarrow> base
              | Inr _ \<Rightarrow> start_address))
      else base_address)"

definition map_base :: "fd \<Rightarrow> u64 \<Rightarrow> string \<Rightarrow> u64 \<Rightarrow> u64" where
  "map_base mem_fd start_address flags base_address =
     (if flags ! 0 \<noteq> CHR ''r'' then base_address
      else case ReadEhdr mem_fd start_address of
        None \<Rightarrow> base_address
      | Some ehdr \<Rightarrow>
          if take 4 (e_ident ehdr) = CHR 0x7f # ''ELF''
          then base_from_memory mem_fd start_address ehdr base_address else base_address)"

text \<open>Two or more spaces, and then the file name.\<close>

fun skip_to_name :: "nat \<Rightarrow> string \<Rightarrow> string" where
  "skip_to_name num_spaces [] = []"
| "skip_to_name num_spaces (c # cs) =
     (if c = CHR '' '' then skip_to_name (num_spaces + 1) cs
      else if num_spaces \<ge> 2 then c # cs
      else skip_to_name num_spaces cs)"

text \<open>What the body of the loop makes of a line: return the null descriptor, go on, or the name of
  the file to open; the last two with the start and the base address.\<close>

datatype map_line = Malformed_map | Skipped_map u64 | Found_map u64 u64 string

definition parse_map_line :: "fd \<Rightarrow> u64 \<Rightarrow> u64 \<Rightarrow> string \<Rightarrow> map_line" where
  "parse_map_line mem_fd pc base_address line =
     (case GetHex line of (cursor1, start_address) \<Rightarrow>
      if cursor1 = [] \<or> hd cursor1 \<noteq> CHR ''-'' then Malformed_map
      else case GetHex (tl cursor1) of (cursor2, end_address) \<Rightarrow>
      if cursor2 = [] \<or> hd cursor2 \<noteq> CHR '' '' then Malformed_map
      else let flags = takeWhile (\<lambda>c. c \<noteq> CHR '' '') (tl cursor2);
               cursor3 = dropWhile (\<lambda>c. c \<noteq> CHR '' '') (tl cursor2)
      in if cursor3 = [] \<or> length flags < 4 then Malformed_map
      else let base = map_base mem_fd start_address flags base_address
      in if start_address > pc \<or> pc \<ge> end_address then Skipped_map base
      else if flags ! 0 \<noteq> CHR ''r'' \<or> flags ! 2 \<noteq> CHR ''x'' then Skipped_map base
      else case GetHex (tl cursor3) of (cursor4, file_offset) \<Rightarrow>
      if cursor4 = [] \<or> hd cursor4 \<noteq> CHR '' '' then Malformed_map
      else let cursor5 = skip_to_name 0 (tl cursor4)
      in if cursor5 = [] then Malformed_map
      else Found_map start_address base cursor5)"

text \<open>The loop over the lines, which need not be finite for \<open>partial_function\<close>.\<close>

partial_function (option) find_map :: "fd \<Rightarrow> u64 \<Rightarrow> u64 \<Rightarrow> LineReader \<Rightarrow> map_line option" where
  "find_map mem_fd pc base_address r =
     (case ReadLine r of
        (ok, r') \<Rightarrow>
          if \<not> ok then Some Malformed_map
          else if truncated r' then find_map mem_fd pc base_address r'
          else (case parse_map_line mem_fd pc base_address (current_line r') of
                  Malformed_map \<Rightarrow> Some Malformed_map
                | Skipped_map base \<Rightarrow> find_map mem_fd pc base r'
                | Found_map start base name \<Rightarrow> Some (Found_map start base name)))"

declare find_map.simps [code]

end
