(* ===== verification/Symbolize.thy ===== *)
theory Symbolize imports SymbolizeMaps DemangleCalls begin

text \<open>
  \<open>Symbolize\<close> of \<open>src/src/symbolize.cc\<close> for a system with ELF files: the object file of the address
  is found and searched, the name is demangled in place, and an address without a symbol is given
  as the name of the file with an offset.

  The files that can be opened, the callbacks and what uninitialised buffers hold are an environment.
  A callback gets the buffer and gives back what it holds afterwards.
\<close>

record symbolize_env =
  self_maps :: fd
  self_mem :: fd
  open_path :: "string \<Rightarrow> fd"
  line_memory :: string
  demangle_memory :: string
  symbolize_callback :: "(fd \<Rightarrow> u64 \<Rightarrow> string \<Rightarrow> u64 \<Rightarrow> int \<times> string) option"
  open_callback :: "(u64 \<Rightarrow> string \<Rightarrow> fd \<times> u64 \<times> u64 \<times> string) option"

text \<open>The frame is \<open>file_line_offset\<close> and \<open>file_line_length\<close>.\<close>

type_synonym SymbolizedFrame = "nat \<times> nat"

text \<open>The descriptor, the start and the base address, and the buffer for the name of the file; \<open>None\<close>
  would be a search that does not end.\<close>

definition OpenObjectFileContainingPcAndGetStartAddress ::
  "symbolize_env \<Rightarrow> u64 \<Rightarrow> string \<Rightarrow> (fd \<times> u64 \<times> u64 \<times> string) option" where
  "OpenObjectFileContainingPcAndGetStartAddress env pc out_file_name =
     (if self_maps env = None \<or> self_mem env = None then Some (None, 0, 0, out_file_name)
      else case find_map (self_mem env) pc 0 (new_LineReader (self_maps env) (line_memory env) 0) of
        None \<Rightarrow> None
      | Some (Found_map start base name) \<Rightarrow>
          Some (open_path env (cstr name), start, base,
                (strncpy name (length out_file_name))[length out_file_name - 1 := NUL])
      | Some _ \<Rightarrow> Some (None, 0, 0, out_file_name))"

text \<open>\<open>None\<close> is the failed assertion, which aborts the program.\<close>

definition DemangleInplace :: "string \<Rightarrow> string \<Rightarrow> string option" where
  "DemangleInplace demangled out =
     (case Demangle (Some (cstr out)) (Some demangled) of
        Some (True, Some text) \<Rightarrow>
          if NUL \<notin> set text then None
          else let len = length (cstr text)
               in Some (if len + 1 \<le> length out then take (len + 1) text @ drop (len + 1) out else out)
      | _ \<Rightarrow> Some out)"

definition append_offset :: "u64 \<Rightarrow> string \<Rightarrow> string" where
  "append_offset offset out =
     SafeAppendString '')'' (SafeAppendHexNumber offset (SafeAppendString ''+0x'' (out[length out - 1 := NUL])))"

text \<open>The call of the callback: how many characters of the buffer it took, the buffer and the frame.\<close>

definition call_symbolize_callback ::
  "symbolize_env \<Rightarrow> fd \<Rightarrow> int \<Rightarrow> u64 \<Rightarrow> u64 \<Rightarrow> bool \<Rightarrow> string \<Rightarrow> SymbolizedFrame option
   \<Rightarrow> nat \<times> string \<times> SymbolizedFrame option" where
  "call_symbolize_callback env object_fd elf_type pc base_address no_line_numbers out frame =
     (case symbolize_callback env of
        None \<Rightarrow> (0, out, frame)
      | Some callback \<Rightarrow>
          if no_line_numbers then (0, out, frame)
          else let relocation = (if elf_type = uint ET_DYN then base_address else 0)
               in case callback object_fd pc out relocation of (num_bytes_written, out') \<Rightarrow>
                  if num_bytes_written > 0 then
                    let written = nat num_bytes_written
                    in (written, out',
                        map_option (\<lambda>_. (0, if written > 1 then written - 1 else 0)) frame)
                  else (0, out', frame))"

definition SymbolizeAndDemangle ::
  "symbolize_env \<Rightarrow> u64 \<Rightarrow> string \<Rightarrow> bool \<Rightarrow> SymbolizedFrame option
   \<Rightarrow> (bool \<times> string \<times> SymbolizedFrame option) option" where
  "SymbolizeAndDemangle env pc out no_line_numbers frame =
     (if length out < 2 then Some (False, out, frame)
      else let out1 = SafeAppendString ''('' (out[0 := NUL])
      in case (case open_callback env of
                 Some callback \<Rightarrow> Some (callback pc (drop 1 out1))
               | None \<Rightarrow> OpenObjectFileContainingPcAndGetStartAddress env pc (drop 1 out1)) of
           None \<Rightarrow> None
         | Some (object_fd, start_address, base_address, name) \<Rightarrow>
      let out2 = take 1 out1 @ name;
          object_name_available = (out2 ! 1 \<noteq> NUL)
      in if object_fd = None then
           (if object_name_available then Some (True, append_offset (pc - base_address) out2, frame)
            else Some (False, out2, frame))
         else let elf_type = FileGetElfType object_fd
         in if elf_type = - 1 then Some (False, out2, frame)
         else (case call_symbolize_callback env object_fd elf_type pc base_address no_line_numbers out2 frame of
           (written, out3, frame') \<Rightarrow>
             (case GetSymbolFromObjectFile object_fd pc (drop written out3) base_address of
                (kFound, symbol) \<Rightarrow>
                  (case DemangleInplace (demangle_memory env) symbol of
                     None \<Rightarrow> None
                   | Some symbol' \<Rightarrow> Some (True, take written out3 @ symbol', frame'))
              | (kMalformed, symbol) \<Rightarrow> Some (False, take written out3 @ symbol, frame')
              | (kNotFound, symbol) \<Rightarrow>
                  if object_name_available \<and> symbolize_callback env = None
                  then Some (True, take written out3 @ append_offset (pc - base_address) symbol, frame')
                  else Some (False, take written out3 @ symbol, frame'))))"

text \<open>\<open>frame\<close> is \<open>None\<close> for a null pointer.\<close>

definition Symbolize ::
  "symbolize_env \<Rightarrow> u64 \<Rightarrow> string \<Rightarrow> bool \<Rightarrow> SymbolizedFrame option
   \<Rightarrow> (bool \<times> string \<times> SymbolizedFrame option) option" where
  "Symbolize env pc out no_line_numbers frame =
     (case SymbolizeAndDemangle env pc out no_line_numbers (map_option (\<lambda>_. (0, 0)) frame) of
        None \<Rightarrow> None
      | Some (True, out', frame') \<Rightarrow> Some (True, out', frame')
      | Some (False, out', frame') \<Rightarrow> Some (False, out', map_option (\<lambda>_. (0, 0)) frame'))"

end
