(* ===== verification/ElfProps.thy ===== *)
theory ElfProps imports ElfSymbols begin

text \<open>
  Theorems on the reading of object files: what a positioned read gives whatever interrupts it, and
  the searches that read the section table and the symbol table in chunks against the search of the
  whole table; the count of symbols of a GNU hash table.
\<close>

section \<open>Positioned reads\<close>

lemma read_bytes_append:
  "read_bytes bytes offset (m + n) =
     (if length (read_bytes bytes offset m) = m then read_bytes bytes offset m @ read_bytes bytes (offset + m) n
      else read_bytes bytes offset m)"
  by (induction m arbitrary: offset) (simp_all split: option.split)

lemma read_bytes_le: "length (read_bytes bytes offset n) \<le> n"
  by (induction n arbitrary: offset) (auto split: option.splits)

lemma read_bytes_again: "read_bytes bytes offset (length (read_bytes bytes offset n)) = read_bytes bytes offset n"
  by (induction n arbitrary: offset) (auto split: option.splits)

lemma read_bytes_Nil: "read_bytes bytes offset n = [] \<longleftrightarrow> n = 0 \<or> bytes offset = None"
  by (cases n) (auto split: option.splits)

lemma read_bytes_full: "length (read_bytes bytes offset n) = n \<longleftrightarrow> (\<forall>i<n. bytes (offset + i) \<noteq> None)"
  by (induction n arbitrary: offset) (auto split: option.splits simp: less_Suc_eq_0_disj)

text \<open>A call of \<open>pread\<close> reads a piece of the file that is empty only at its end.\<close>

lemma FailureRetry_pread_piece:
  assumes "FailureRetry_pread events bytes n offset = (Some got, events')" and "0 < n"
  shows "got = read_bytes bytes offset (length got)" and "got = [] \<longleftrightarrow> bytes offset = None"
    and "length got \<le> n"
proof -
  have "\<exists>k>0. k \<le> n \<and> got = read_bytes bytes offset k"
    using assms
  proof (induction events bytes n offset rule: FailureRetry_pread.induct)
    case (4 k events bytes n offset)
    then show ?case
      by (intro exI [of _ "min n (Suc k)"]) auto
  qed auto
  then obtain k where k: "0 < k" "k \<le> n" "got = read_bytes bytes offset k"
    by blast
  show "got = read_bytes bytes offset (length got)"
    unfolding k(3) by (rule read_bytes_again [symmetric])
  show "got = [] \<longleftrightarrow> bytes offset = None"
    unfolding k(3) using k(1) by (simp add: read_bytes_Nil)
  show "length got \<le> n"
    unfolding k(3) using k(2) read_bytes_le order_trans by blast
qed

lemma pread_events_Failed:
  "Failed \<notin> set events \<Longrightarrow>
    \<exists>got events'. FailureRetry_pread events bytes n offset = (Some got, events') \<and> set events' \<subseteq> set events"
  by (induction events bytes n offset rule: FailureRetry_pread.induct) auto

lemma read_loop_exact:
  assumes "read_loop events bytes count offset buf = Some got"
    and "buf = read_bytes bytes (unat offset) (length buf)" and "length buf \<le> count" and "count < 2 ^ 63"
  shows "got = read_bytes bytes (unat offset) count"
  using assms
proof (induction events bytes count offset buf rule: read_loop.induct)
  case (1 events bytes count offset buf)
  note [simp] = read_loop.simps [of events bytes count offset buf]
  show ?case
  proof (cases "length buf < count")
    case True
    then obtain read_offset piece events' where
      r: "CheckedAdd offset (of_nat (length buf)) = Some read_offset"
        "FailureRetry_pread events bytes (count - length buf) (unat read_offset) = (Some piece, events')"
        "\<not> read_offset > kMaxFileOffset"
      using 1(2) by (auto split: option.splits if_splits prod.splits)
    then have pos: "unat read_offset = unat offset + length buf"
      using True 1(5) by (auto simp: CheckedAdd_Some_iff unat_of_nat_64 unat_add_no_wrap)
    note piece = FailureRetry_pread_piece [OF r(2)]
    have join: "buf @ piece = read_bytes bytes (unat offset) (length (buf @ piece))"
      using 1(3) piece(1) True pos by (simp add: read_bytes_append)
    show ?thesis
    proof (cases "piece = []")
      case True
      then have "bytes (unat offset + length buf) = None"
        using piece(2) \<open>length buf < count\<close> pos by simp
      moreover have "got = buf"
        using True r 1(2) \<open>length buf < count\<close> by simp
      moreover have "count = length buf + (count - length buf)"
        using \<open>length buf < count\<close> by simp
      ultimately show ?thesis
        using 1(3) by (metis read_bytes_append read_bytes_Nil append_Nil2)
    next
      case False
      then have "read_loop events' bytes count offset (buf @ piece) = Some got"
        using r 1(2) True by simp
      then show ?thesis
        by (rule 1(1) [OF True r(1,3) r(2) [symmetric] refl False _ join])
          (use piece(3) True 1(5) in auto)
    qed
  qed (use 1 in auto)
qed

lemma read_loop_succeeds:
  assumes "Failed \<notin> set events" and "buf = read_bytes bytes (unat offset) (length buf)"
    and "\<And>i. 2 ^ 63 - 1 \<le> i \<Longrightarrow> bytes i = None" and "offset \<le> kMaxFileOffset" and "count < 2 ^ 63"
  shows "read_loop events bytes count offset buf \<noteq> None"
  using assms
proof (induction events bytes count offset buf rule: read_loop.induct)
  case (1 events bytes count offset buf)
  note [simp] = read_loop.simps [of events bytes count offset buf]
  show ?case
  proof (cases "length buf < count")
    case True
    have off: "unat offset < 2 ^ 63"
      using 1(5) by (simp add: word_le_nat_alt kMaxFileOffset_def)
    have sum: "unat offset + length buf < 2 ^ 64" and pos: "unat (offset + of_nat (length buf)) = unat offset + length buf"
      using True 1(6) off by (simp_all add: unat_of_nat_64 unat_add_no_wrap)
    then have add: "CheckedAdd offset (of_nat (length buf)) = Some (offset + of_nat (length buf))"
      using True 1(6) by (simp add: CheckedAdd_Some_iff unat_of_nat_64)
    have "unat offset + length buf < 2 ^ 63"
    proof (cases "buf = []")
      case False
      then have "bytes (unat offset + (length buf - 1)) \<noteq> None"
        by (intro read_bytes_full [THEN iffD1, OF arg_cong [OF 1(3), of length, symmetric], rule_format])
          simp
      then have "\<not> 2 ^ 63 - 1 \<le> unat offset + (length buf - 1)"
        by (rule contrapos_nn) (rule 1(4))
      moreover have "0 < length buf"
        using False by simp
      ultimately show ?thesis
        by linarith
    qed (use off in simp)
    then have le: "\<not> offset + of_nat (length buf) > kMaxFileOffset"
      using pos by (simp add: word_less_nat_alt kMaxFileOffset_def)
    obtain piece events' where
      r: "FailureRetry_pread events bytes (count - length buf) (unat (offset + of_nat (length buf))) =
          (Some piece, events')" "set events' \<subseteq> set events"
      using pread_events_Failed [OF 1(2)] by blast
    note piece = FailureRetry_pread_piece [OF r(1)]
    have join: "buf @ piece = read_bytes bytes (unat offset) (length (buf @ piece))"
      using 1(3) piece(1) True pos by (simp add: read_bytes_append)
    show ?thesis
    proof (cases "piece = []")
      case False
      have "read_loop events' bytes count offset (buf @ piece) \<noteq> None"
        by (rule 1(1) [OF True add le r(1) [symmetric] refl False _ join]) (use r(2) 1 in auto)
      then show ?thesis
        using True add le r False by simp
    qed (use True add le r in simp)
  qed simp
qed

text \<open>The file with a given content where every request meets the same events.\<close>

definition file_of :: "read_event list \<Rightarrow> string \<Rightarrow> file_image" where
  "file_of events content = \<lparr>
     byte_at = (\<lambda>i. if i < length content then Some (content ! i) else None),
     st_size = Some (int (length content)), events_at = (\<lambda>_ _. events)\<rparr>"

text \<open>C14. Whatever interruptions and short reads there are, a read that succeeds gives exactly
  the bytes of the file from the offset on, up to the count or the end of the file; and it succeeds
  unless a call fails or the request is beyond the limits of the system.\<close>

theorem ReadFromOffset_reads:
  "(\<forall>got. ReadFromOffset (Some f) count offset = Some got \<longrightarrow>
      got = read_bytes (byte_at f) (unat offset) (unat count)) \<and>
   (Failed \<notin> set (events_at f offset count) \<and> (\<forall>i. 2 ^ 63 - 1 \<le> i \<longrightarrow> byte_at f i = None) \<and>
      count \<le> kMaxReadCount \<and> offset \<le> kMaxFileOffset \<longrightarrow>
      ReadFromOffset (Some f) count offset \<noteq> None)"
proof -
  have "unat count < 2 ^ 63" if "count \<le> kMaxReadCount"
    using that by (simp add: word_le_nat_alt kMaxReadCount_def)
  then show ?thesis
    using read_loop_exact [of "events_at f offset count" "byte_at f" "unat count" offset "[]"]
      read_loop_succeeds [of "events_at f offset count" "[]" "byte_at f" offset "unat count"]
    by (auto simp: ReadFromOffset_def split: if_splits)
qed

theorem ReadFromOffset_reads_witness:
  "ReadFromOffset (Some (file_of [Short 0, Interrupted, Short 1] ''abcdef'')) 4 1 = Some ''bcde''"
proof -
  let ?f = "file_of [Short 0, Interrupted, Short 1] ''abcdef''"
  have "ReadFromOffset (Some ?f) 4 1 \<noteq> None"
    using ReadFromOffset_reads [of ?f 4 1]
    by (auto simp: file_of_def kMaxReadCount_def kMaxFileOffset_def word_le_nat_alt)
  moreover have "read_bytes (byte_at ?f) 1 4 = ''bcde''"
    by (simp add: file_of_def numeral_eq_Suc)
  ultimately show ?thesis
    using ReadFromOffset_reads [of ?f 4 1] by auto
qed

section \<open>Readable files\<close>

text \<open>A file with a content that can be read without a failure, and one whose size is known too.\<close>

definition readable :: "file_image \<Rightarrow> string \<Rightarrow> bool" where
  "readable f content \<longleftrightarrow>
     (\<forall>i. byte_at f i = (if i < length content then Some (content ! i) else None)) \<and>
     (\<forall>offset count. Failed \<notin> set (events_at f offset count)) \<and> length content < 2 ^ 63"

definition regular :: "file_image \<Rightarrow> string \<Rightarrow> bool" where
  "regular f content \<longleftrightarrow> readable f content \<and> st_size f = Some (int (length content))"

lemma read_bytes_content:
  "(\<And>i. bytes i = (if i < length content then Some (content ! i) else None)) \<Longrightarrow>
    read_bytes bytes offset n = take n (drop offset content)"
  by (induction n arbitrary: offset) (auto simp: Cons_nth_drop_Suc [symmetric])

lemma ReadFromOffset_readable:
  assumes "readable f content" and "count \<le> kMaxReadCount" and "offset \<le> kMaxFileOffset"
  shows "ReadFromOffset (Some f) count offset = Some (take (unat count) (drop (unat offset) content))"
proof -
  have c: "unat count < 2 ^ 63"
    using assms(2) by (simp add: word_le_nat_alt kMaxReadCount_def)
  obtain got where got: "read_loop (events_at f offset count) (byte_at f) (unat count) offset [] = Some got"
    using read_loop_succeeds [of "events_at f offset count" "[]" "byte_at f" offset "unat count"] assms c
    by (auto simp: readable_def)
  then have "got = read_bytes (byte_at f) (unat offset) (unat count)"
    using read_loop_exact c by fastforce
  then show ?thesis
    using got assms by (simp add: ReadFromOffset_def read_bytes_content readable_def linorder_not_less)
qed

lemma ReadFromOffsetExact_readable:
  assumes "readable f content" and "unat offset + unat count \<le> length content"
  shows "ReadFromOffsetExact (Some f) count offset = Some (take (unat count) (drop (unat offset) content))"
proof -
  have "length content < 2 ^ 63"
    using assms(1) by (simp add: readable_def)
  then have "count \<le> kMaxReadCount" "offset \<le> kMaxFileOffset"
    using assms(2) by (simp_all add: word_le_nat_alt kMaxReadCount_def kMaxFileOffset_def)
  then show ?thesis
    using ReadFromOffset_readable [OF assms(1)] assms(2) by (simp add: ReadFromOffsetExact_def min_absorb2)
qed

lemma IsFileRangeReadable_regular:
  assumes "regular f content"
  shows "IsFileRangeReadable (Some f) offset bytes \<longleftrightarrow> unat offset + unat bytes \<le> length content"
proof -
  have len: "length content < 2 ^ 63"
    using assms by (simp add: regular_def readable_def)
  then have "unat (word_of_int (int (length content)) :: u64) = length content"
    by (simp add: unat_of_nat_64)
  then show ?thesis
    using assms unat_sub [of offset "of_nat (length content)"]
    by (auto simp: IsFileRangeReadable_def regular_def word_le_nat_alt Let_def)
qed

lemma regular_file_of:
  "Failed \<notin> set events \<Longrightarrow> length content < 2 ^ 63 \<Longrightarrow> regular (file_of events content) content"
  by (simp add: regular_def readable_def file_of_def)

section \<open>The section table\<close>

lemma for_loop_find:
  assumes "\<And>i. i < n \<Longrightarrow> body i () = (if P (g i) then Inl (h (g i)) else Inr ())"
  shows "for_loop k n body () = (case find P (map g [k..<n]) of Some x \<Rightarrow> Inl (h x) | None \<Rightarrow> Inr ())"
  using assms
proof (induction "n - k" arbitrary: k)
  case (Suc d)
  then have "k < n" by simp
  then show ?case
    using Suc by (subst for_loop.simps) (simp add: upt_conv_Cons)
qed (simp add: for_loop.simps)

text \<open>The sections of a table in the content of a file.\<close>

definition section_at :: "string \<Rightarrow> nat \<Rightarrow> nat \<Rightarrow> nat \<Rightarrow> Shdr" where
  "section_at content offset width i = Shdr_of (take 64 (drop (offset + i * width) content))"

lemma unat_of_nat_u64: "i < unat (n :: u64) \<Longrightarrow> unat (of_nat i :: u64) = i"
  using unat_u64_less [of n] by (simp add: unat_of_nat_64)

lemma CheckedMultiply_eq:
  "CheckedMultiply a b = (if unat a * unat b < 2 ^ 64 then Some (a * b) else None)"
  using CheckedMultiply_Some_iff [of a b] by (cases "CheckedMultiply a b") auto

lemma CheckedAdd_eq: "CheckedAdd a b = (if unat a + unat b < 2 ^ 64 then Some (a + b) else None)"
  using CheckedAdd_Some_iff [of a b] by (cases "CheckedAdd a b") auto

lemma unat_mult_no_wrap: "unat (a :: u64) * unat b < 2 ^ 64 \<Longrightarrow> unat (a * b) = unat a * unat b"
  by (simp add: unat_word_ariths)

lemma ReadSectionHeader_readable:
  assumes f: "readable f content" and i: "i < unat count" and w: "entry_size \<ge> sizeof_Shdr"
    and range: "unat offset + unat count * unat entry_size \<le> length content"
  shows "ReadSectionHeader (Some f) (of_nat i) count offset entry_size =
    Some (section_at content (unat offset) (unat entry_size) i)"
proof -
  have len: "length content < 2 ^ 63"
    using f by (simp add: readable_def)
  have "(i + 1) * unat entry_size \<le> unat count * unat entry_size"
    using i by (intro mult_le_mono1) simp
  moreover have w': "64 \<le> unat entry_size"
    using w by (simp add: word_le_nat_alt sizeof_Shdr_def)
  ultimately have fits: "unat offset + i * unat entry_size + 64 \<le> length content"
    using range by simp
  have [simp]: "unat (of_nat i :: u64) = i"
    by (rule unat_of_nat_u64 [OF i])
  have mult: "CheckedMultiply (of_nat i) entry_size = Some (of_nat i * entry_size)"
      "unat (of_nat i * entry_size) = i * unat entry_size"
    using fits len by (simp_all add: CheckedMultiply_eq unat_mult_no_wrap)
  have add: "CheckedAdd offset (of_nat i * entry_size) = Some (offset + of_nat i * entry_size)"
      "unat (offset + of_nat i * entry_size) = unat offset + i * unat entry_size"
    using fits len mult by (simp_all add: CheckedAdd_eq unat_add_no_wrap)
  have "of_nat i < count"
    using i by (simp add: word_less_nat_alt)
  then show ?thesis
    using w mult add fits ReadFromOffsetExact_readable [OF f, of "offset + of_nat i * entry_size" sizeof_Shdr]
    by (simp add: ReadSectionHeader_def ReadShdr_def section_at_def sizeof_Shdr_def)
qed

lemma section_by_one_find:
  assumes "readable f content" and "entry_size \<ge> sizeof_Shdr"
    and "unat offset + unat count * unat entry_size \<le> length content"
  shows "section_by_one (Some f) count offset entry_size type =
    (case find (\<lambda>s. sh_type s = type)
            (map (section_at content (unat offset) (unat entry_size)) [0..<unat count]) of
       Some s \<Rightarrow> kSectionFound s | None \<Rightarrow> kSectionNotFound)"
  unfolding section_by_one_def
  by (subst for_loop_find [where P = "\<lambda>s. sh_type s = type" and h = kSectionFound
        and g = "section_at content (unat offset) (unat entry_size)"])
    (simp_all add: ReadSectionHeader_readable [OF assms(1) _ assms(2,3)] split: option.split)

text \<open>A chunk of entries is a part of the table.\<close>

lemma find_append: "find P (xs @ ys) = (case find P xs of None \<Rightarrow> find P ys | Some x \<Rightarrow> Some x)"
  by (induction xs) auto

lemma entries_part:
  assumes "n * width \<le> bytes"
  shows "map g (entries width n (take bytes (drop (offset + i * width) content))) =
    map (\<lambda>j. g (take width (drop (offset + j * width) content))) [i..<i + n]"
proof (rule nth_equalityI)
  fix k assume "k < length (map g (entries width n (take bytes (drop (offset + i * width) content))))"
  then have k: "k < n" by simp
  then have "k * width + width \<le> n * width"
    by (metis Suc_leI add.commute mult_Suc mult_le_mono1)
  with assms have "take width (drop (k * width) (take bytes (drop (offset + i * width) content)))
      = take width (drop (offset + (i + k) * width) content)"
    by (simp add: drop_take min_absorb1 add_mult_distrib add.commute add.left_commute)
  then show "map g (entries width n (take bytes (drop (offset + i * width) content))) ! k =
      map (\<lambda>j. g (take width (drop (offset + j * width) content))) [i..<i + n] ! k"
    using k by (simp add: entries_def)
qed simp

lemma unat_sizeof_Shdr: "unat sizeof_Shdr = 64"
  by (simp add: sizeof_Shdr_def)

lemma chunk_of_sections:
  assumes "i < unat count" and "unat count * 64 < 2 ^ 63"
  defines "n \<equiv> min 16 (unat count - i)"
  shows "CheckedMultiply (count - of_nat i) sizeof_Shdr = Some ((count - of_nat i) * sizeof_Shdr)"
    and "unat (num_bytes_to_read ((count - of_nat i) * sizeof_Shdr)) = n * 64"
    and "unat (num_bytes_to_read ((count - of_nat i) * sizeof_Shdr) div sizeof_Shdr) = n"
proof -
  have [simp]: "unat (of_nat i :: u64) = i"
    by (rule unat_of_nat_u64 [OF assms(1)])
  have "(of_nat i :: u64) \<le> count"
    using assms(1) by (simp add: word_le_nat_alt)
  then have left: "unat (count - of_nat i) = unat count - i"
    by (simp add: unat_sub)
  then show mult: "CheckedMultiply (count - of_nat i) sizeof_Shdr = Some ((count - of_nat i) * sizeof_Shdr)"
    using assms(2) by (simp add: CheckedMultiply_eq sizeof_Shdr_def)
  have "unat ((count - of_nat i) * sizeof_Shdr) = (unat count - i) * 64"
    using left assms(2) unat_mult_no_wrap [of "count - of_nat i" sizeof_Shdr]
    by (simp add: unat_sizeof_Shdr)
  then show "unat (num_bytes_to_read ((count - of_nat i) * sizeof_Shdr)) = n * 64"
    by (auto simp: num_bytes_to_read_def kSectionBufferSize_def sizeof_Shdr_def word_less_nat_alt n_def)
  then show "unat (num_bytes_to_read ((count - of_nat i) * sizeof_Shdr) div sizeof_Shdr) = n"
    by (simp add: unat_div_distrib sizeof_Shdr_def)
qed

lemma section_by_sixteen_find:
  assumes f: "readable f content" and range: "unat offset + unat count * 64 \<le> length content"
  shows "section_by_sixteen (Some f) count offset type i =
    (case find (\<lambda>s. sh_type s = type) (map (section_at content (unat offset) 64) [i..<unat count]) of
       Some s \<Rightarrow> kSectionFound s | None \<Rightarrow> kSectionNotFound)"
proof (induction "unat count - i" arbitrary: i rule: less_induct)
  case less
  note loop = section_by_sixteen.simps [of "Some f" count offset type i]
  have len: "length content < 2 ^ 63"
    using f by (simp add: readable_def)
  show ?case
  proof (cases "i < unat count")
    case True
    define n where "n = min 16 (unat count - i)"
    define bytes where "bytes = num_bytes_to_read ((count - of_nat i) * sizeof_Shdr)"
    note chunk = chunk_of_sections [OF True, folded n_def, folded bytes_def]
    have n: "0 < n" "i + n \<le> unat count" "n \<le> 16"
      using True by (simp_all add: n_def)
    have small: "unat count * 64 < 2 ^ 63"
      using range len by simp
    have fits: "unat offset + i * 64 + n * 64 \<le> length content"
      using range n(2) by linarith
    have [simp]: "unat (of_nat i :: u64) = i"
      by (rule unat_of_nat_u64 [OF True])
    have mult: "CheckedMultiply (of_nat i) sizeof_Shdr = Some (of_nat i * sizeof_Shdr)"
        "unat (of_nat i * sizeof_Shdr :: u64) = i * 64"
      using fits len by (simp_all add: CheckedMultiply_eq unat_mult_no_wrap sizeof_Shdr_def)
    have add: "CheckedAdd offset (of_nat i * sizeof_Shdr) = Some (offset + of_nat i * sizeof_Shdr)"
        "unat (offset + of_nat i * sizeof_Shdr) = unat offset + i * 64"
      using fits len mult by (simp_all add: CheckedAdd_eq unat_add_no_wrap)
    have read: "ReadFromOffsetExact (Some f) bytes (offset + of_nat i * sizeof_Shdr) =
        Some (take (n * 64) (drop (unat offset + i * 64) content))"
      using ReadFromOffsetExact_readable [OF f, of "offset + of_nat i * sizeof_Shdr" bytes]
        add(2) chunk(2) [OF small] fits by simp
    have headers: "map Shdr_of (entries 64 n (take (n * 64) (drop (unat offset + i * 64) content)))
        = map (section_at content (unat offset) 64) [i..<i + n]"
      by (simp add: entries_part section_at_def [abs_def])
    have rest: "[i..<unat count] = [i..<i + n] @ [i + n..<unat count]"
      using n(2) by (metis upt_add_eq_append le_add1 le_add_diff_inverse)
    have "section_by_sixteen (Some f) count offset type i =
        (case find (\<lambda>s. sh_type s = type) (map (section_at content (unat offset) 64) [i..<i + n]) of
           Some s \<Rightarrow> kSectionFound s
         | None \<Rightarrow> section_by_sixteen (Some f) count offset type (i + n))"
      using True chunk(1) [OF small] mult(1) add(1) read chunk(3) [OF small] headers
      by (simp add: loop bytes_def [symmetric] Let_def) (simp add: sizeof_Shdr_def)
    also have "\<dots> = (case find (\<lambda>s. sh_type s = type)
          (map (section_at content (unat offset) 64) [i..<unat count]) of
        Some s \<Rightarrow> kSectionFound s | None \<Rightarrow> kSectionNotFound)"
      using less [of "i + n"] n True by (simp add: rest find_append split: option.split)
    finally show ?thesis .
  qed (simp add: loop)
qed

text \<open>C11. In a readable file, the search of the section table is the search of all its entries in
  order: reading sixteen at a time, or one at a time where an entry has an unusual size, makes no
  difference, and exactly the tables that are not inside the file are malformed.\<close>

theorem GetSectionHeaderByType_finds:
  assumes "regular f content"
  shows "GetSectionHeaderByType (Some f) count offset entry_size type =
    (if unat entry_size < 64 \<or> unat offset + unat count * unat entry_size > length content
     then kSectionMalformed
     else case find (\<lambda>s. sh_type s = type)
            (map (section_at content (unat offset) (unat entry_size)) [0..<unat count]) of
       Some s \<Rightarrow> kSectionFound s
     | None \<Rightarrow> kSectionNotFound)"
proof (cases "unat entry_size < 64 \<or> unat offset + unat count * unat entry_size > length content")
  case True
  then show ?thesis
    using IsFileRangeReadable_regular [OF assms, of offset "count * entry_size"]
    by (auto simp: GetSectionHeaderByType_def CheckedMultiply_eq unat_mult_no_wrap
      sizeof_Shdr_def word_less_nat_alt split: option.split)
next
  case False
  have f: "readable f content"
    using assms by (simp add: regular_def)
  then have mult: "unat count * unat entry_size < 2 ^ 64"
    using False by (simp add: readable_def)
  have w: "entry_size \<ge> sizeof_Shdr"
    using False by (simp add: word_le_nat_alt sizeof_Shdr_def)
  have "unat entry_size = 64" if "entry_size = sizeof_Shdr"
    using that by (simp add: sizeof_Shdr_def)
  then show ?thesis
    using False mult w IsFileRangeReadable_regular [OF assms, of offset "count * entry_size"]
      section_by_one_find [OF f w] section_by_sixteen_find [OF f, of offset count]
    by (auto simp: GetSectionHeaderByType_def CheckedMultiply_eq unat_mult_no_wrap linorder_not_less
      simp del: upt_0)
qed

theorem GetSectionHeaderByType_finds_witness:
  "GetSectionHeaderByType (Some (file_of [Short 5, Interrupted] (replicate 128 (CHR 0x01)))) 2 0 64 7
    \<noteq> kSectionMalformed"
  using GetSectionHeaderByType_finds [OF regular_file_of, of "[Short 5, Interrupted]"
      "replicate 128 (CHR 0x01)" 2 0 64 7]
  by (simp split: option.split)

section \<open>The symbol table\<close>

definition symbol_at :: "string \<Rightarrow> nat \<Rightarrow> nat \<Rightarrow> Sym" where
  "symbol_at content offset i = Sym_of (take 24 (drop (offset + i * 24) content))"

lemma unat_sizeof_Sym: "unat sizeof_Sym = 24"
  by (simp add: sizeof_Sym_def)

lemma find_symbol_chunk:
  assumes f: "readable f content" and i: "i < num_symbols"
    and range: "unat (sh_offset symtab) + num_symbols * 24 \<le> length content"
  defines "n \<equiv> min NUM_SYMBOLS (num_symbols - i)"
  shows "find_symbol_loop pc (Some f) out symbol_offset strtab symtab num_symbols i =
    (case find (symbol_matches pc symbol_offset)
            (map (symbol_at content (unat (sh_offset symtab))) [i..<i + n]) of
       Some symbol \<Rightarrow> read_name (Some f) strtab symbol out
     | None \<Rightarrow> find_symbol_loop pc (Some f) out symbol_offset strtab symtab num_symbols (i + n))"
proof -
  let ?o = "sh_offset symtab"
  note loop = find_symbol_loop.simps [of pc "Some f" out symbol_offset strtab symtab num_symbols i]
  have len: "length content < 2 ^ 63"
    using f by (simp add: readable_def)
  have n: "0 < n" "i + n \<le> num_symbols" "n \<le> 32"
    using i by (simp_all add: n_def NUM_SYMBOLS_def)
  have fits: "unat ?o + i * 24 + n * 24 \<le> length content"
    using range n(2) by linarith
  have ui: "unat (of_nat i :: u64) = i" "unat (of_nat n :: u64) = n"
    using fits len n by (simp_all add: unat_of_nat_64)
  have mult: "CheckedMultiply (of_nat i) sizeof_Sym = Some (of_nat i * sizeof_Sym)"
      "unat (of_nat i * sizeof_Sym :: u64) = i * 24"
      "CheckedMultiply sizeof_Sym (of_nat n) = Some (sizeof_Sym * of_nat n)"
      "unat (sizeof_Sym * of_nat n :: u64) = n * 24"
    using fits len n ui by (simp_all add: CheckedMultiply_eq unat_mult_no_wrap unat_sizeof_Sym)
  have add: "CheckedAdd ?o (of_nat i * sizeof_Sym) = Some (?o + of_nat i * sizeof_Sym)"
      "unat (?o + of_nat i * sizeof_Sym) = unat ?o + i * 24"
    using fits len mult by (simp_all add: CheckedAdd_eq unat_add_no_wrap)
  define buf where "buf = take (n * 24) (drop (unat ?o + i * 24) content)"
  have "sizeof_Sym * of_nat n \<le> kMaxReadCount" "?o + of_nat i * sizeof_Sym \<le> kMaxFileOffset"
    using mult(4) n(3) add(2) fits len
    by (simp_all add: word_le_nat_alt kMaxReadCount_def kMaxFileOffset_def)
  then have read: "ReadFromOffset (Some f) (sizeof_Sym * of_nat n) (?o + of_nat i * sizeof_Sym) = Some buf"
    using ReadFromOffset_readable [OF f] mult(4) add(2) by (simp add: buf_def)
  have buf: "length buf = n * 24"
    using fits by (simp add: buf_def min_absorb2)
  have "map Sym_of (entries 24 n buf) = map (symbol_at content (unat ?o)) [i..<i + n]"
    by (simp add: buf_def entries_part symbol_at_def [abs_def])
  then show ?thesis
    using i mult(1,3) add(1) read buf n(1)
    by (simp add: loop n_def [symmetric] unat_sizeof_Sym Let_def)
qed

lemma find_symbol_loop_finds:
  assumes f: "readable f content"
    and range: "unat (sh_offset symtab) + num_symbols * 24 \<le> length content"
  shows "find_symbol_loop pc (Some f) out symbol_offset strtab symtab num_symbols i =
    (case find (symbol_matches pc symbol_offset)
            (map (symbol_at content (unat (sh_offset symtab))) [i..<num_symbols]) of
       Some symbol \<Rightarrow> read_name (Some f) strtab symbol out
     | None \<Rightarrow> (kNotFound, out))"
proof (induction "num_symbols - i" arbitrary: i rule: less_induct)
  case less
  show ?case
  proof (cases "i < num_symbols")
    case True
    define n where "n = min NUM_SYMBOLS (num_symbols - i)"
    have n: "0 < n" "i + n \<le> num_symbols"
      using True by (simp_all add: n_def NUM_SYMBOLS_def)
    then have "[i..<num_symbols] = [i..<i + n] @ [i + n..<num_symbols]"
      by (metis upt_add_eq_append le_add1 le_add_diff_inverse)
    then show ?thesis
      using find_symbol_chunk [OF f True range, folded n_def] less [of "i + n"] n True
      by (simp add: find_append split: option.split)
  qed (simp add: find_symbol_loop.simps)
qed

text \<open>The bytes of the string table from the name of a symbol on.\<close>

definition name_bytes :: "string \<Rightarrow> Shdr \<Rightarrow> Sym \<Rightarrow> string" where
  "name_bytes content strtab symbol =
     take (unat (sh_size strtab) - unat (st_name symbol))
       (drop (unat (sh_offset strtab) + unat (st_name symbol)) content)"

definition name_result :: "string \<Rightarrow> Shdr \<Rightarrow> Sym \<Rightarrow> string \<Rightarrow> SymbolLookupResult \<times> string" where
  "name_result content strtab symbol out =
     (let name = take (length out) (name_bytes content strtab symbol)
      in if unat (sh_size strtab) \<le> unat (st_name symbol) \<or> out = [] then (kMalformed, out)
         else if NUL \<in> set name then (kFound, name @ drop (length name) out)
         else (kMalformed, replicate (length out) NUL))"

lemma read_name_readable:
  assumes f: "readable f content" and range: "unat (sh_offset strtab) + unat (sh_size strtab) \<le> length content"
    and out: "length out < 2 ^ 63"
  shows "read_name (Some f) strtab symbol out = name_result content strtab symbol out"
proof (cases "unat (sh_size strtab) \<le> unat (st_name symbol) \<or> out = []")
  case True
  show ?thesis
  proof (cases "unat (sh_size strtab) \<le> unat (st_name symbol)")
    case True
    then show ?thesis
      by (simp add: read_name_def name_result_def word_le_nat_alt)
  next
    case False
    with True have "out = []"
      by simp
    moreover have "0 < sh_size strtab - ucast (st_name symbol)"
      using False by (simp add: word_less_nat_alt unat_sub word_le_nat_alt)
    ultimately show ?thesis
      using False by (simp add: read_name_def name_result_def word_le_nat_alt Let_def split: option.split)
  qed
next
  case False
  let ?n = "ucast (st_name symbol) :: u64"
  define bytes where
    "bytes = (if sh_size strtab - ?n > of_nat (length out) then of_nat (length out) else sh_size strtab - ?n)"
  have len: "length content < 2 ^ 63"
    using f by (simp add: readable_def)
  have "?n \<le> sh_size strtab"
    using False by (simp add: word_le_nat_alt)
  then have rest: "unat (sh_size strtab - ?n) = unat (sh_size strtab) - unat (st_name symbol)"
    by (simp add: unat_sub)
  have b: "unat bytes = min (length out) (unat (sh_size strtab) - unat (st_name symbol))"
    using rest out by (auto simp: bytes_def word_less_nat_alt unat_of_nat_64)
  have add: "CheckedAdd (sh_offset strtab) ?n = Some (sh_offset strtab + ?n)"
      "unat (sh_offset strtab + ?n) = unat (sh_offset strtab) + unat (st_name symbol)"
    using False range len by (simp_all add: CheckedAdd_eq unat_add_no_wrap)
  have "bytes \<le> kMaxReadCount" "sh_offset strtab + ?n \<le> kMaxFileOffset"
    using b add(2) False range len out
    by (simp_all add: word_le_nat_alt kMaxReadCount_def kMaxFileOffset_def)
  then have "ReadFromOffset (Some f) bytes (sh_offset strtab + ?n) =
      Some (take (length out) (name_bytes content strtab symbol))"
    using ReadFromOffset_readable [OF f] b add(2) by (simp add: name_bytes_def)
  moreover have "bytes \<noteq> 0"
    using b False by (auto simp: unat_eq_0 [symmetric])
  moreover have "\<not> sh_size strtab \<le> ?n"
    using False by (simp add: word_le_nat_alt)
  ultimately show ?thesis
    using False add(1) by (simp add: read_name_def name_result_def bytes_def [symmetric] Let_def)
qed

text \<open>C10. In a readable file, the search of a symbol table that reads 32 symbols at a time gives
  the first symbol of the whole table that contains the address, with its name from the string
  table, as long as the name with its terminator fits in the buffer; exactly the tables that have
  another layout or are not inside the file are malformed.\<close>

theorem FindSymbol_finds:
  assumes "regular f content" and "length out < 2 ^ 63"
  shows "FindSymbol pc (Some f) out symbol_offset strtab symtab =
    (if sh_entsize symtab \<noteq> sizeof_Sym \<or> unat (sh_size symtab) mod 24 \<noteq> 0 \<or>
        unat (sh_offset symtab) + unat (sh_size symtab) > length content \<or>
        unat (sh_offset strtab) + unat (sh_size strtab) > length content
     then (kMalformed, out)
     else case find (symbol_matches pc symbol_offset)
            (map (symbol_at content (unat (sh_offset symtab))) [0..<unat (sh_size symtab) div 24]) of
       Some symbol \<Rightarrow> name_result content strtab symbol out
     | None \<Rightarrow> (kNotFound, out))"
proof -
  have f: "readable f content"
    using assms(1) by (simp add: regular_def)
  have m: "sh_size symtab mod sizeof_Sym \<noteq> 0 \<longleftrightarrow> unat (sh_size symtab) mod 24 \<noteq> 0"
    by (simp add: unat_eq_0 [symmetric] unat_mod_distrib unat_sizeof_Sym)
  have d: "unat (sh_size symtab div sizeof_Sym) = unat (sh_size symtab) div 24"
    by (simp add: unat_div_distrib unat_sizeof_Sym)
  have "unat (sh_size symtab) div 24 * 24 \<le> unat (sh_size symtab)"
    by simp
  then show ?thesis
    using m d find_symbol_loop_finds [OF f, of symtab "unat (sh_size symtab) div 24" pc out symbol_offset strtab 0]
      read_name_readable [OF f _ assms(2), of strtab]
    by (auto simp: FindSymbol_def IsFileRangeReadable_regular [OF assms(1)] linorder_not_less
      simp del: upt_0 split: option.split)
qed

theorem FindSymbol_finds_witness:
  "FindSymbol 0 (Some (file_of [Short 5, Interrupted] (replicate 24 (CHR 0x01)))) ''x'' 0
     (table_header SHT_STRTAB 0 2 0) (table_header SHT_SYMTAB 0 24 24) = (kNotFound, ''x'')"
proof -
  have "\<not> symbol_matches 0 0 symbol" for symbol
    by (auto simp: symbol_matches_def CheckedAdd_eq split: option.split)
  then show ?thesis
    using FindSymbol_finds [OF regular_file_of, of "[Short 5, Interrupted]" "replicate 24 (CHR 0x01)"
        "''x''" 0 0 "table_header SHT_STRTAB 0 2 0" "table_header SHT_SYMTAB 0 24 24"]
    by (simp add: table_header_def sizeof_Sym_def)
qed

section \<open>The count of a GNU hash table\<close>

text \<open>A walk along a chain counts the symbol at its head, however long the chain is.\<close>

lemma walk_chain_count:
  "walk_chain fd chain_offset symbol_index chain_index max_symbol = Some n \<Longrightarrow>
    unat n = max (unat max_symbol) (unat symbol_index + 1)"
proof (induction fd chain_offset symbol_index chain_index max_symbol rule: walk_chain.induct)
  case (1 fd chain_offset symbol_index chain_index max_symbol)
  obtain chain_value max' where
    step: "chain_step fd chain_offset symbol_index chain_index max_symbol = Some (chain_value, max')"
    using 1(2) by (subst (asm) walk_chain.simps) (auto split: option.splits)
  have "unat max' = max (unat max_symbol) (unat symbol_index + 1)"
  proof (cases "max_symbol \<le> ucast symbol_index")
    case True
    then have "CheckedAdd (ucast symbol_index) 1 = Some max'"
      using step by (auto simp: chain_step_def split: Option.bind_splits)
    moreover have "unat max_symbol \<le> unat symbol_index"
      using True by (simp add: word_le_nat_alt)
    ultimately show ?thesis
      by (auto simp: CheckedAdd_Some_iff unat_add_no_wrap)
  next
    case False
    then have "max' = max_symbol"
      using step by (auto simp: chain_step_def split: Option.bind_splits)
    moreover have "unat symbol_index < unat max_symbol"
      using False by (simp add: word_le_nat_alt)
    ultimately show ?thesis
      by simp
  qed
  then show ?case
    using 1 step
    by (auto simp: walk_chain.simps [of fd chain_offset symbol_index chain_index max_symbol] split: if_splits)
qed

text \<open>A table of one bucket whose chain consists of \<open>k + 1\<close> symbols, the first of which has
  index 1: the header, an empty filter, the bucket, and the hash values, whose lowest bit marks the
  end of the chain.\<close>

definition word32 :: "nat \<Rightarrow> string" where
  "word32 n = [char_of n, NUL, NUL, NUL]"

definition gnu_chain :: "nat \<Rightarrow> nat list" where
  "gnu_chain k = replicate k 2 @ [3]"

definition gnu_table :: "nat \<Rightarrow> string" where
  "gnu_table k = concat (map word32 ([1, 1, 1, 0, 0, 0, 1] @ gnu_chain k))"

text \<open>The number of symbols that the chain at the last bucket stands for.\<close>

definition symbols_of_chain :: "nat \<Rightarrow> nat list \<Rightarrow> nat" where
  "symbols_of_chain bucket chain = bucket + length (takeWhile even chain) + 1"

lemma length_word32 [simp]: "length (word32 n) = 4"
  by (simp add: word32_def)

lemma length_concat_word32: "length (concat (map word32 ws)) = 4 * length ws"
  by (induction ws) simp_all

lemma word32_at:
  "i < length ws \<Longrightarrow> take 4 (drop (i * 4) (concat (map word32 ws))) = word32 (ws ! i)"
proof (induction ws arbitrary: i)
  case (Cons w ws)
  then show ?case
    by (cases i) simp_all
qed simp

lemma field_word32: "n < 256 \<Longrightarrow> field 0 4 (word32 n) = of_nat n"
  by (simp add: field_def word32_def)

lemma read_word32:
  assumes "readable f (concat (map word32 ws))" and "i < length ws" and "unat offset = i * 4"
  shows "ReadFromOffsetExact (Some f) 4 offset = Some (word32 (ws ! i))"
  using ReadFromOffsetExact_readable [OF assms(1), of offset 4] assms(2,3) word32_at [OF assms(2)]
  by (simp add: length_concat_word32)

lemma chain_step_gnu_table:
  assumes f: "readable f (gnu_table k)" and j: "j \<le> k" and k: "k < 2 ^ 30"
  shows "\<exists>m. chain_step (Some f) 28 1 (of_nat j) max_symbol = Some (of_nat (gnu_chain k ! j), m)"
proof -
  have u: "unat (of_nat j :: 32 word) = j"
    using j k by (simp add: unat_of_nat take_bit_nat_eq_self)
  have mult: "CheckedMultiply (ucast (of_nat j :: 32 word)) 4 = Some (ucast (of_nat j :: 32 word) * 4)"
      "unat (ucast (of_nat j :: 32 word) * 4 :: u64) = j * 4"
    using u j k by (simp_all add: CheckedMultiply_eq unat_mult_no_wrap)
  have add: "CheckedAdd 28 (ucast (of_nat j :: 32 word) * 4) = Some (28 + ucast (of_nat j :: 32 word) * 4)"
      "unat (28 + ucast (of_nat j :: 32 word) * 4 :: u64) = (7 + j) * 4"
    using mult(2) j k by (simp_all add: CheckedAdd_eq unat_add_no_wrap)
  have v: "([1, 1, 1, 0, 0, 0, 1] @ gnu_chain k) ! (7 + j) = gnu_chain k ! j"
    by (simp add: nth_append)
  have "gnu_chain k ! j < 256"
    using j by (auto simp: gnu_chain_def nth_append)
  moreover have "ReadFromOffsetExact (Some f) 4 (28 + ucast (of_nat j :: 32 word) * 4) =
      Some (word32 (gnu_chain k ! j))"
    unfolding v [symmetric]
    by (rule read_word32 [OF f [unfolded gnu_table_def] _ add(2)]) (use j in \<open>simp add: gnu_chain_def\<close>)
  moreover have "CheckedAdd (ucast (1 :: 32 word)) 1 = Some 2"
    by (simp add: CheckedAdd_eq)
  ultimately show ?thesis
    using mult(1) add(1) by (simp add: chain_step_def field_word32)
qed

lemma walk_gnu_table:
  assumes f: "readable f (gnu_table k)" and "j \<le> k" and k: "k < 2 ^ 30"
  shows "walk_chain (Some f) 28 1 (of_nat j) max_symbol \<noteq> None"
  using assms(2)
proof (induction "k - j" arbitrary: j max_symbol rule: less_induct)
  case less
  obtain m where step: "chain_step (Some f) 28 1 (of_nat j) max_symbol = Some (of_nat (gnu_chain k ! j), m)"
    using chain_step_gnu_table [OF f less(2) k] by blast
  note loop = walk_chain.simps [of "Some f" 28 1 "of_nat j" max_symbol]
  show ?case
  proof (cases "j = k")
    case True
    then have "gnu_chain k ! j = 3"
      by (simp add: gnu_chain_def nth_append)
    then show ?thesis
      using step by (simp add: loop)
  next
    case False
    then have j: "j < k"
      using less(2) by simp
    then have "gnu_chain k ! j = 2"
      by (simp add: gnu_chain_def nth_append)
    moreover have "(of_nat j :: 32 word) + 1 = of_nat (j + 1)"
      by simp
    moreover have "(of_nat j :: 32 word) \<noteq> - 1"
    proof
      assume "(of_nat j :: 32 word) = - 1"
      then have "unat (of_nat j :: 32 word) = 2 ^ 32 - 1"
        by (simp add: unsigned_minus_1_eq_mask mask_eq_exp_minus_1)
      then show False
        using j k by (simp add: unat_of_nat take_bit_nat_eq_self)
    qed
    moreover have "walk_chain (Some f) 28 1 (of_nat (j + 1)) m \<noteq> None"
      by (rule less(1)) (use j in simp_all)
    ultimately show ?thesis
      using step by (simp add: loop add.commute)
  qed
qed

text \<open>C15. The count of a GNU hash table misses every symbol of the last chain but the first one: the
  walk along the chain moves on in the table and not in the symbols. A table of a readable file
  whose only chain stands for the symbols 1 to \<open>k + 1\<close> is taken for one of two symbols.\<close>

theorem gnu_hash_undercounts:
  assumes "regular f (gnu_table k)" and "k < 2 ^ 30"
  shows "ReadGnuHashSymbolCount (Some f) 0 = Some 2 \<and> symbols_of_chain 1 (gnu_chain k) = k + 2"
proof
  have f: "readable f (gnu_table k)"
    using assms(1) by (simp add: regular_def)
  have len: "length (gnu_table k) = 4 * k + 32"
    unfolding gnu_table_def length_concat_word32 by (simp add: gnu_chain_def)
  have header: "ReadFromOffsetExact (Some f) 16 0 = Some (word32 1 @ word32 1 @ word32 1 @ word32 0)"
    using ReadFromOffsetExact_readable [OF f, of 0 16] len by (simp add: gnu_table_def word32_def)
  have bucket: "ReadFromOffsetExact (Some f) 4 24 = Some (word32 1)"
    using read_word32 [OF f [unfolded gnu_table_def], of 6 24] by simp
  obtain n where n: "walk_chain (Some f) 28 1 0 1 = Some n"
    using walk_gnu_table [OF f, of 0 1] assms(2) by auto
  then have "unat n = 2"
    using walk_chain_count [OF n] by simp
  then have "n = 2"
    using unsigned_word_eqI [where 'a = nat, of n 2] by simp
  have loop: "for_loop 0 (Suc 0) body s = (case body 0 s of Inl r \<Rightarrow> Inl r | Inr s' \<Rightarrow> Inr s')"
    for body :: "nat \<Rightarrow> u64 \<Rightarrow> unit + u64" and s
    by (simp add: for_loop.simps [of 0] for_loop.simps [of "Suc 0"] split: sum.split)
  show "ReadGnuHashSymbolCount (Some f) 0 = Some 2"
    using header bucket n \<open>n = 2\<close> len
    by (simp add: ReadGnuHashSymbolCount_def IsFileRangeReadable_regular [OF assms(1)] CheckedMultiply_eq
      CheckedAdd_eq field_def word32_def loop)
  show "symbols_of_chain 1 (gnu_chain k) = k + 2"
    by (induction k) (simp_all add: symbols_of_chain_def gnu_chain_def)
qed

theorem gnu_hash_undercounts_witness:
  "ReadGnuHashSymbolCount (Some (file_of [] (gnu_table 1))) 0 = Some 2 \<and>
    symbols_of_chain 1 (gnu_chain 1) = 3"
  using gnu_hash_undercounts [OF regular_file_of [of "[]" "gnu_table 1"]]
  by (simp add: gnu_table_def gnu_chain_def word32_def)

end
