(* ===== verification/MapsProps.thy ===== *)
theory MapsProps imports SymbolizeMaps ElfProps begin

text \<open>
  Theorems on the search for the object file: the reader of lines against the text that is left to
  read, numbers that are printed and read back, lines in the format of the kernel, and the loop over
  the mappings against the list of the lines.
\<close>

section \<open>Lines\<close>

lemma memchr_None: "memchr c s = None \<longleftrightarrow> c \<notin> set s"
  by (simp add: memchr_def)

lemma memchr_Nil [simp]: "memchr c [] = None"
  by (simp add: memchr_def)

lemma memchr_Some: "memchr c s = Some k \<Longrightarrow> k < length s \<and> s ! k = c \<and> c \<notin> set (take k s)"
proof -
  assume k: "memchr c s = Some k"
  then have k': "k = length (takeWhile (\<lambda>d. d \<noteq> c) s)" and c: "c \<in> set s"
    by (simp_all add: memchr_def split: if_splits)
  have "k < length s"
    unfolding k' using c by (induction s) auto
  moreover have "take k s = takeWhile (\<lambda>d. d \<noteq> c) s"
    unfolding k' by (simp add: takeWhile_eq_take [symmetric])
  ultimately show ?thesis
    using k' nth_length_takeWhile [of "\<lambda>d. d \<noteq> c" s] by (auto dest: set_takeWhileD)
qed

lemma memchr_append:
  "memchr c (xs @ ys) =
     (case memchr c xs of Some k \<Rightarrow> Some k | None \<Rightarrow> map_option (\<lambda>k. length xs + k) (memchr c ys))"
  by (induction xs) (auto simp: memchr_def)

text \<open>The next line of a text for a buffer of \<open>room\<close> characters, whether it was trunc off, and the
  text after it. A line without its line feed is no line.\<close>

definition next_line :: "nat \<Rightarrow> string \<Rightarrow> (string \<times> bool \<times> string) option" where
  "next_line room s =
     (case memchr newline s of
        None \<Rightarrow> None
      | Some k \<Rightarrow> Some (if k < room then take k s else take (room - 1) s, room \<le> k, drop (k + 1) s))"

definition reader_ok :: "string \<Rightarrow> LineReader \<Rightarrow> bool" where
  "reader_ok content r \<longleftrightarrow>
     (\<exists>f. reader_fd r = Some f \<and> readable f content) \<and> unat (reader_offset r) \<le> length content \<and>
     0 < length (line_buf r) \<and> length (line_buf r) < 2 ^ 63 \<and> eod r \<le> length (line_buf r) \<and>
     (eod r \<noteq> 0 \<longrightarrow> (\<exists>e<eod r. eol r = Some e))"

definition unread :: "string \<Rightarrow> LineReader \<Rightarrow> string" where
  "unread content r =
     (if eod r = 0 then [] else drop (the (eol r) + 1) (take (eod r) (line_buf r))) @
     drop (unat (reader_offset r)) content"

text \<open>What \<open>ReadLine\<close> promises for the text \<open>s\<close>.\<close>

definition line_result :: "string \<Rightarrow> nat \<Rightarrow> string \<Rightarrow> bool \<times> LineReader \<Rightarrow> bool" where
  "line_result content room s result \<longleftrightarrow>
     (case next_line room s of
        None \<Rightarrow> \<not> fst result
      | Some (line, trunc, rest) \<Rightarrow>
          fst result \<and> current_line (snd result) = line \<and> truncated (snd result) = trunc \<and>
          unread content (snd result) = rest \<and> reader_ok content (snd result) \<and>
          length (line_buf (snd result)) = room)"

lemma readable_offset: "readable f content \<Longrightarrow> unat (offset :: u64) \<le> length content \<Longrightarrow> offset \<le> kMaxFileOffset"
  by (simp add: readable_def word_le_nat_alt kMaxFileOffset_def)

lemma SkipRestOfLine_readable:
  assumes f: "readable f content" and "unat offset \<le> length content"
  shows "case memchr newline (drop (unat offset) content) of
      None \<Rightarrow> \<not> fst (SkipRestOfLine (Some f) offset)
    | Some k \<Rightarrow> SkipRestOfLine (Some f) offset = (True, offset + of_nat k + 1)"
  using assms(2)
proof (induction "length content - unat offset" arbitrary: offset rule: less_induct)
  case less
  note loop = SkipRestOfLine.simps [of "Some f" offset]
  let ?s = "drop (unat offset) content"
  have len: "length content < 2 ^ 63"
    using f by (simp add: readable_def)
  have read: "ReadFromOffset (Some f) (of_nat kSkipChunkSize) offset = Some (take 256 ?s)"
    using ReadFromOffset_readable [OF f _ readable_offset [OF f less(2)], of "of_nat kSkipChunkSize"]
    by (simp add: kSkipChunkSize_def kMaxReadCount_def word_le_nat_alt)
  note parts = memchr_append [of newline "take 256 ?s" "drop 256 ?s", unfolded append_take_drop_id]
  show ?case
  proof (cases "?s = [] \<or> newline \<in> set (take 256 ?s)")
    case True
    then show ?thesis
      using read parts by (auto simp: loop memchr_None split: option.splits)
  next
    case False
    define n where "n = length (take 256 ?s)"
    define o' where "o' = offset + of_nat n"
    have room: "unat offset + n \<le> length content" and "0 < n"
      using less(2) False by (auto simp: n_def)
    then have next_offset: "unat o' = unat offset + n"
      using len by (simp add: o'_def unat_add_no_wrap unat_of_nat_64)
    have rest: "drop (unat o') content = drop n ?s" "drop 256 ?s = drop n ?s"
      by (simp_all add: next_offset add.commute n_def min_def)
    have none: "memchr newline (take 256 ?s) = None"
      using False by (simp add: memchr_None)
    have s: "memchr newline ?s = map_option (\<lambda>k. n + k) (memchr newline (drop (unat o') content))"
      using parts by (simp only: none option.case rest n_def [symmetric])
    have step: "SkipRestOfLine (Some f) offset = SkipRestOfLine (Some f) o'"
      using read none False by (simp add: loop o'_def n_def)
    have IH: "case memchr newline (drop (unat o') content) of
        None \<Rightarrow> \<not> fst (SkipRestOfLine (Some f) o')
      | Some k \<Rightarrow> SkipRestOfLine (Some f) o' = (True, o' + of_nat k + 1)"
      by (rule less(1)) (use next_offset room \<open>0 < n\<close> in simp_all)
    show ?thesis
      unfolding s step using IH
      by (cases "memchr newline (drop (unat o') content)") (simp_all add: o'_def add.assoc)
  qed
qed

text \<open>The end of a line that is in the buffer, that fills it, or that the file does not end.\<close>

lemma end_line_feed:
  assumes k: "memchr newline p = Some k" and p: "p = take (eod r - bol r) (drop (bol r) (line_buf r))"
    and r: "reader_fd r = Some f" "readable f content" "unat (reader_offset r) \<le> length content"
      "0 < length (line_buf r)" "length (line_buf r) < 2 ^ 63" "eod r \<le> length (line_buf r)" "bol r \<le> eod r"
      "\<not> truncated r"
  shows "line_result content (length (line_buf r)) (p @ drop (unat (reader_offset r)) content) (end_line r)"
proof -
  let ?rest = "drop (unat (reader_offset r)) content"
  let ?r' = "r\<lparr>eol := Some (bol r + k), line_buf := (line_buf r)[bol r + k := NUL]\<rparr>"
  have "k < length p"
    using memchr_Some [OF k] by simp
  then have kl: "bol r + k < eod r" "k < length (line_buf r)"
    using p r(6,7) by auto
  have "end_line r = (True, ?r')"
    using k p by (simp add: end_line_def FindLineFeed_def)
  moreover have "memchr newline (p @ ?rest) = Some k"
    using k by (simp add: memchr_append)
  moreover have "current_line ?r' = take k (p @ ?rest)"
    using \<open>k < length p\<close> p kl by (simp add: current_line_def take_update_cancel drop_update_swap min_def)
  moreover have "unread content ?r' = drop (k + 1) (p @ ?rest)"
    using \<open>k < length p\<close> p kl by (simp add: unread_def take_update_swap drop_update_cancel drop_take add.commute)
  moreover have "reader_ok content ?r'"
    using r kl by (auto simp: reader_ok_def)
  ultimately show ?thesis
    using kl(2) r(8) by (simp add: line_result_def next_line_def)
qed

lemma end_line_full:
  assumes none: "newline \<notin> set (line_buf r)" and full: "bol r = 0" "eod r = length (line_buf r)"
    and r: "reader_fd r = Some f" "readable f content" "unat (reader_offset r) \<le> length content"
      "0 < length (line_buf r)" "length (line_buf r) < 2 ^ 63"
  shows "line_result content (length (line_buf r)) (line_buf r @ drop (unat (reader_offset r)) content)
    (end_line r)"
proof -
  let ?rest = "drop (unat (reader_offset r)) content" and ?room = "length (line_buf r)"
  have feed: "FindLineFeed r = None"
    using none full by (simp add: FindLineFeed_def memchr_None)
  have s: "memchr newline (line_buf r @ ?rest) = map_option (\<lambda>k. ?room + k) (memchr newline ?rest)"
    using none memchr_None [of newline "line_buf r"] by (simp add: memchr_append)
  note skip = SkipRestOfLine_readable [OF r(2,3)]
  show ?thesis
  proof (cases "memchr newline ?rest")
    case None
    then have "\<not> fst (SkipRestOfLine (Some f) (reader_offset r))"
      using skip by simp
    then have "\<not> fst (end_line r)"
      using feed full r(1) by (cases "SkipRestOfLine (Some f) (reader_offset r)") (simp add: end_line_def)
    then show ?thesis
      using None s by (simp add: line_result_def next_line_def)
  next
    case (Some k)
    define offset where "offset = reader_offset r + of_nat k + 1"
    let ?r' = "r\<lparr>eol := Some (?room - 1), reader_offset := offset, truncated := True,
      line_buf := (line_buf r)[?room - 1 := NUL]\<rparr>"
    have run: "end_line r = (True, ?r')"
      using skip Some feed full r(1) by (simp add: end_line_def offset_def Let_def)
    have k: "unat (reader_offset r) + k + 1 \<le> length content"
      using memchr_Some [OF Some] r(3) by (auto simp: less_diff_conv)
    moreover have "length content < 2 ^ 63"
      using r(2) by (simp add: readable_def)
    ultimately have "unat (reader_offset r + of_nat k) = unat (reader_offset r) + k"
      by (simp add: unat_add_no_wrap unat_of_nat_64)
    then have offset: "unat offset = unat (reader_offset r) + k + 1"
      using k \<open>length content < 2 ^ 63\<close> by (simp add: offset_def unat_add_no_wrap)
    have "unread content ?r' = drop (?room + k + 1) (line_buf r @ ?rest)"
      using full r(4) offset by (simp add: unread_def add.commute add.left_commute)
    moreover have "current_line ?r' = take (?room - 1) (line_buf r @ ?rest)"
      using full r(4) by (simp add: current_line_def)
    moreover have "reader_ok content ?r'"
      using r full offset k by (auto simp: reader_ok_def)
    ultimately show ?thesis
      using run s Some by (simp add: line_result_def next_line_def)
  qed
qed

lemma end_line_last:
  assumes "newline \<notin> set (take (eod r) (line_buf r))" and "bol r = 0" "eod r < length (line_buf r)"
  shows "line_result content room (take (eod r) (line_buf r)) (end_line r)"
  using assms memchr_None [of newline "take (eod r) (line_buf r)"]
  by (simp add: line_result_def next_line_def end_line_def FindLineFeed_def)

lemma take_drop_length: "take n xs @ drop (length (take n xs)) xs = xs"
  by (cases "n \<le> length xs") (simp_all add: min_def)

lemma fill_buffer_result:
  assumes none: "newline \<notin> set (take k (line_buf r))" and k: "k < length (line_buf r)"
    and r: "reader_fd r = Some f" "readable f content" "unat (reader_offset r) \<le> length content"
      "length (line_buf r) < 2 ^ 63" "\<not> truncated r"
  shows "line_result content (length (line_buf r))
    (take k (line_buf r) @ drop (unat (reader_offset r)) content) (fill_buffer k r)"
proof -
  let ?rest = "drop (unat (reader_offset r)) content" and ?room = "length (line_buf r)"
  define bs where "bs = take (?room - k) ?rest"
  have "of_nat (?room - k) \<le> kMaxReadCount"
    using r(4) by (simp add: word_le_nat_alt kMaxReadCount_def unat_of_nat_64)
  then have read: "ReadFromOffset (Some f) (of_nat (?room - k)) (reader_offset r) = Some bs"
    using ReadFromOffset_readable [OF r(2) _ readable_offset [OF r(2,3)]] r(4)
    by (simp add: bs_def unat_of_nat_64)
  show ?thesis
  proof (cases "?rest = []")
    case True
    then show ?thesis
      using read none r(1) memchr_None [of newline "take k (line_buf r)"]
      by (simp add: line_result_def next_line_def fill_buffer_def bs_def)
  next
    case False
    define r' where "r' = r\<lparr>line_buf := take k (line_buf r) @ bs @ drop (k + length bs) (line_buf r),
      reader_offset := reader_offset r + of_nat (length bs), eod := k + length bs, bol := 0\<rparr>"
    have bs: "bs \<noteq> []" "k + length bs \<le> ?room"
      using False k by (auto simp: bs_def)
    have rest: "bs @ drop (length bs) ?rest = ?rest"
      unfolding bs_def by (rule take_drop_length)
    have run: "fill_buffer k r = end_line r'"
      using read r(1) bs(1) by (simp add: fill_buffer_def r'_def)
    have len: "length content < 2 ^ 63"
      using r(2) by (simp add: readable_def)
    have "unat (reader_offset r) + length bs \<le> length content"
      using r(3) by (simp add: bs_def)
    then have offset: "unat (reader_offset r') = unat (reader_offset r) + length bs"
      using len by (simp add: r'_def unat_add_no_wrap unat_of_nat_64)
    have room: "length (line_buf r') = ?room"
      using bs(2) k by (simp add: r'_def)
    define p where "p = take (eod r') (line_buf r')"
    have p: "p = take k (line_buf r) @ bs"
      using k by (simp add: p_def r'_def)
    have s: "take k (line_buf r) @ ?rest = p @ drop (unat (reader_offset r')) content"
      using rest by (simp add: p offset add.commute)
    have r': "reader_fd r' = Some f" "unat (reader_offset r') \<le> length content" "bol r' = 0"
        "eod r' \<le> length (line_buf r')" "\<not> truncated r'" "0 < length (line_buf r')"
        "length (line_buf r') < 2 ^ 63"
      using r(1,5) offset \<open>unat (reader_offset r) + length bs \<le> length content\<close> bs(2) room k r(4)
      by (auto simp: r'_def)
    show ?thesis
    proof (cases "newline \<in> set p")
      case True
      then obtain i where "memchr newline p = Some i"
        by (auto simp: memchr_def)
      then show ?thesis
        using end_line_feed [of p i r' f content] r' r(2) by (simp add: s run p_def room)
    next
      case newline: False
      show ?thesis
      proof (cases "eod r' = length (line_buf r')")
        case True
        then show ?thesis
          using end_line_full [of r' f content] newline r' r(2) by (simp add: s run p_def room)
      next
        case False
        then have "length bs < ?room - k"
          using bs(2) room by (simp add: r'_def)
        then have "drop (unat (reader_offset r')) content = []"
          using offset by (auto simp: bs_def)
        then show ?thesis
          using end_line_last [of r' content ?room] newline False r' by (simp add: s run p_def)
      qed
    qed
  qed
qed

text \<open>C12. The reader of lines refines the text that is left to read: a call gives the next line
  that ends with a line feed, cut off to what the buffer holds if it is longer, and moves past it;
  it fails exactly when no line feed is left. Interruptions, short reads and where the buffer was
  filled make no difference.\<close>

theorem ReadLine_refines:
  assumes "reader_ok content r"
  shows "line_result content (length (line_buf r)) (unread content r) (ReadLine r)"
proof -
  obtain f where f: "reader_fd r = Some f" "readable f content"
    using assms by (auto simp: reader_ok_def)
  let ?r = "r\<lparr>truncated := False\<rparr>"
  show ?thesis
  proof (cases "eod r = 0")
    case True
    then show ?thesis
      using fill_buffer_result [of 0 ?r f content] f assms
      by (simp add: ReadLine_def BufferIsEmpty_def unread_def reader_ok_def)
  next
    case False
    then obtain e where e: "eol r = Some e" "e < eod r"
      using assms by (auto simp: reader_ok_def)
    define r1 where "r1 = ?r\<lparr>bol := e + 1\<rparr>"
    define p where "p = take (eod r1 - bol r1) (drop (bol r1) (line_buf r1))"
    have s: "unread content r = p @ drop (unat (reader_offset r1)) content"
      using False e by (simp add: unread_def p_def r1_def drop_take)
    have feed: "HasCompleteLine r1 \<longleftrightarrow> newline \<in> set p"
      using False by (simp add: HasCompleteLine_def BufferIsEmpty_def FindLineFeed_def memchr_def
        p_def [symmetric]) (simp add: r1_def)
    show ?thesis
    proof (cases "newline \<in> set p")
      case True
      then obtain i where i: "memchr newline p = Some i"
        by (auto simp: memchr_def)
      have "ReadLine r = end_line r1"
        using True feed False e by (simp add: ReadLine_def BufferIsEmpty_def r1_def)
      then show ?thesis
        using end_line_feed [OF i p_def, of f content] f e assms
        by (simp add: s) (simp add: r1_def reader_ok_def)
    next
      case none: False
      define r2 where "r2 = r1\<lparr>line_buf := p @ drop (length p) (line_buf r1)\<rparr>"
      have "ReadLine r = fill_buffer (length p) r2"
        using none feed False e
        by (simp add: ReadLine_def BufferIsEmpty_def r2_def p_def Let_def r1_def)
      moreover have "length p < length (line_buf r)"
        using e assms by (auto simp: p_def r1_def reader_ok_def)
      ultimately show ?thesis
        using fill_buffer_result [of "length p" r2 f content] f none assms
        by (simp add: s) (simp add: r2_def r1_def reader_ok_def)
    qed
  qed
qed

theorem ReadLine_refines_witness:
  "line_result ''ab\<newline>cdef\<newline>'' 3 ''ab\<newline>cdef\<newline>''
     (ReadLine (new_LineReader (Some (file_of [Short 0, Interrupted] ''ab\<newline>cdef\<newline>'')) ''xyz'' 0))"
proof -
  let ?c = "''ab\<newline>cdef\<newline>''"
  have "reader_ok ?c (new_LineReader (Some (file_of [Short 0, Interrupted] ?c)) ''xyz'' 0)"
    using regular_file_of [of "[Short 0, Interrupted]" ?c]
    by (simp add: reader_ok_def new_LineReader_def regular_def)
  from ReadLine_refines [OF this] show ?thesis
    by (simp add: new_LineReader_def unread_def eval_nat_numeral)
qed

section \<open>The lines of the mappings\<close>

lemma next_line_shorter: "next_line room s = Some (line, trunc, rest) \<Longrightarrow> length rest < length s"
  using memchr_Some [of newline s] by (auto simp: next_line_def split: option.splits)

text \<open>All lines of a text, each with whether it was cut off.\<close>

function lines_of :: "nat \<Rightarrow> string \<Rightarrow> (string \<times> bool) list" where
  "lines_of room s =
     (case next_line room s of None \<Rightarrow> [] | Some (line, trunc, rest) \<Rightarrow> (line, trunc) # lines_of room rest)"
  by pat_completeness auto

termination
  by (relation "measure (\<lambda>(room, s). length s)") (auto dest: next_line_shorter)

declare lines_of.simps [simp del]

text \<open>The outcome of a list of lines: lines that were cut off do not count.\<close>

fun scan_maps :: "fd \<Rightarrow> u64 \<Rightarrow> u64 \<Rightarrow> (string \<times> bool) list \<Rightarrow> map_line" where
  "scan_maps mem_fd pc base [] = Malformed_map"
| "scan_maps mem_fd pc base ((line, trunc) # ls) =
     (if trunc then scan_maps mem_fd pc base ls
      else case parse_map_line mem_fd pc base line of
        Skipped_map base' \<Rightarrow> scan_maps mem_fd pc base' ls
      | outcome \<Rightarrow> outcome)"

lemma find_map_scan:
  assumes "reader_ok content r"
  shows "find_map mem_fd pc base r =
    Some (scan_maps mem_fd pc base (lines_of (length (line_buf r)) (unread content r)))"
  using assms
proof (induction "length (unread content r)" arbitrary: r base rule: less_induct)
  case less
  let ?room = "length (line_buf r)" and ?s = "unread content r"
  note result = ReadLine_refines [OF less(2), unfolded line_result_def]
  obtain ok r' where run: "ReadLine r = (ok, r')"
    by fastforce
  show ?case
  proof (cases "next_line ?room ?s")
    case None
    then show ?thesis
      using result run by (simp add: find_map.simps [of mem_fd pc base r] lines_of.simps [of ?room ?s])
  next
    case (Some result')
    obtain line trunc rest where n: "next_line ?room ?s = Some (line, trunc, rest)"
      using Some by (cases result') auto
    then have r': "ok" "current_line r' = line" "truncated r' = trunc" "unread content r' = rest"
        "reader_ok content r'" "length (line_buf r') = ?room"
      using result run by simp_all
    have IH: "find_map mem_fd pc b r' = Some (scan_maps mem_fd pc b (lines_of ?room rest))" for b
      using less(1) [of r' b] r' next_line_shorter [OF n] by simp
    show ?thesis
      using run r' n IH
      by (simp add: find_map.simps [of mem_fd pc base r] lines_of.simps [of ?room ?s] split: map_line.split)
  qed
qed

section \<open>Hexadecimal numbers\<close>

definition hex_digit :: "nat \<Rightarrow> char" where
  "hex_digit d = ''0123456789abcdef'' ! d"

fun hex_digits :: "nat \<Rightarrow> string" where
  "hex_digits n = (if n < 16 then [hex_digit n] else hex_digits (n div 16) @ [hex_digit (n mod 16)])"

declare hex_digits.simps [simp del]

definition is_hex :: "char \<Rightarrow> bool" where
  "is_hex c \<longleftrightarrow> c \<in> set ''0123456789abcdefABCDEF''"

lemma shift_or_digit:
  assumes "d < 16"
  shows "push_bit 4 h OR of_nat d = h * 16 + (of_nat d :: u64)"
proof -
  have "\<not> bit (of_nat d :: u64) n" if "4 \<le> n" for n
  proof -
    have "(2::nat) ^ 4 \<le> 2 ^ n"
      using that by (rule power_increasing) simp
    then have "\<not> bit d n"
      using assms by (simp add: bit_iff_odd)
    then show ?thesis
      by (simp add: bit_of_nat_iff)
  qed
  then have "push_bit 4 h OR of_nat d = push_bit 4 h + (of_nat d :: u64)"
    by (intro disjunctive_add [symmetric]) (auto simp: bit_push_bit_iff linorder_not_less)
  then show ?thesis
    by (simp add: push_bit_eq_mult mult.commute)
qed

lemma get_hex_digit:
  assumes "d < 16"
  shows "get_hex h (hex_digit d # cs) = get_hex (h * 16 + of_nat d) cs"
proof -
  have "d \<in> {0, 1, 2, 3, 4, 5, 6, 7, 8, 9, 10, 11, 12, 13, 14, 15}"
    unfolding insert_iff empty_iff using assms by presburger
  then have "get_hex h (hex_digit d # cs) = get_hex (push_bit 4 h OR of_nat d) cs"
    by (elim insertE emptyE) (simp_all add: hex_digit_def Let_def)
  then show ?thesis
    by (simp only: shift_or_digit [OF assms])
qed

lemma get_hex_digits:
  "get_hex h (hex_digits n @ cs) = get_hex (h * 16 ^ length (hex_digits n) + of_nat n) cs"
proof (induction n arbitrary: cs rule: hex_digits.induct)
  case (1 n)
  show ?case
  proof (cases "n < 16")
    case True
    then show ?thesis
      by (simp add: hex_digits.simps [of n] get_hex_digit del: get_hex.simps)
  next
    case False
    let ?h = "hex_digits (n div 16)"
    have "(of_nat n :: u64) = of_nat (n div 16 * 16 + n mod 16)"
      by simp
    also have "\<dots> = of_nat (n div 16) * 16 + of_nat (n mod 16)"
      by (simp only: of_nat_add of_nat_mult of_nat_numeral)
    finally have n: "(of_nat n :: u64) = of_nat (n div 16) * 16 + of_nat (n mod 16)" .
    have "get_hex h (hex_digits n @ cs) = get_hex h (?h @ hex_digit (n mod 16) # cs)"
      using False by (simp add: hex_digits.simps [of n])
    also have "\<dots> = get_hex ((h * 16 ^ length ?h + of_nat (n div 16)) * 16 + of_nat (n mod 16)) cs"
      using 1 [OF False] by (simp add: get_hex_digit del: get_hex.simps)
    also have "(h * 16 ^ length ?h + of_nat (n div 16)) * 16 + of_nat (n mod 16) =
        h * 16 ^ length (hex_digits n) + of_nat n"
      using False by (simp add: hex_digits.simps [of n] n algebra_simps)
    finally show ?thesis .
  qed
qed

lemma itoa_loop_hex:
  "unat i < 16 ^ k \<Longrightarrow> itoa_loop (Suc k) i 16 first = Some (hex_digits (unat i) @ first)"
proof (induction k arbitrary: i first)
  case 0
  then have "i = 0"
    by (simp add: unat_eq_0)
  then show ?case
    by (simp add: hex_digits.simps hex_digit_def)
next
  case (Suc k)
  have parts: "unat (i mod 16) = unat i mod 16" "unat (i div 16) = unat i div 16"
    by (simp_all add: unat_mod_distrib unat_div_distrib)
  show ?case
  proof (cases "unat i < 16")
    case True
    then have "i div 16 = 0"
      using parts(2) by (simp add: unat_eq_0 [symmetric])
    then show ?thesis
      using True parts by (simp add: hex_digits.simps [of "unat i"] hex_digit_def)
  next
    case False
    then have "i div 16 > 0"
      using parts(2) by (simp add: word_less_nat_alt)
    moreover have "unat (i div 16) < 16 ^ k"
      using Suc(2) parts(2) by (simp add: less_mult_imp_div_less mult.commute)
    ultimately show ?thesis
      using False parts Suc(1) [of "i div 16"]
      by (simp add: hex_digits.simps [of "unat i"] hex_digit_def)
  qed
qed

lemma length_hex_digits: "n < 16 ^ k \<Longrightarrow> 0 < k \<Longrightarrow> length (hex_digits n) \<le> k"
proof (induction n arbitrary: k rule: hex_digits.induct)
  case (1 n)
  show ?case
  proof (cases "n < 16")
    case False
    then obtain j where k: "k = Suc j" "0 < j"
      using 1(2,3) by (cases k; cases "k - 1") auto
    then have "length (hex_digits (n div 16)) \<le> j"
      using 1(1) [OF False, of j] 1(2) by (simp add: less_mult_imp_div_less mult.commute)
    then show ?thesis
      using False k by (simp add: hex_digits.simps [of n])
  qed (use 1 in \<open>simp add: hex_digits.simps\<close>)
qed

lemma get_hex_stops:
  assumes "rest = [] \<or> \<not> is_hex (hd rest)"
  shows "get_hex v rest = (rest, v)"
proof (cases rest)
  case (Cons c cs)
  then have c: "c \<notin> set ''0123456789abcdefABCDEF''"
    using assms by (simp add: is_hex_def)
  have other: "\<not> ((48 \<le> (of_char c :: nat) \<and> (of_char c :: nat) \<le> 57) \<or>
      (65 \<le> (of_char c :: nat) \<and> (of_char c :: nat) \<le> 70) \<or>
      (97 \<le> (of_char c :: nat) \<and> (of_char c :: nat) \<le> 102))" (is "\<not> ?hex")
  proof
    assume ?hex
    then have "(of_char c :: nat) \<in> {48, 49, 50, 51, 52, 53, 54, 55, 56, 57, 65, 66, 67, 68, 69, 70,
        97, 98, 99, 100, 101, 102}"
      unfolding insert_iff empty_iff by presburger
    then have "c \<in> char_of ` {48 :: nat, 49, 50, 51, 52, 53, 54, 55, 56, 57, 65, 66, 67, 68, 69, 70,
        97, 98, 99, 100, 101, 102}"
      by (metis char_of_char image_eqI)
    then show False
      using c by (simp add: char_of_def bit_Suc_0_iff)
  qed
  show ?thesis
    by (simp only: Cons get_hex.simps Let_def other if_False)
qed simp

lemma hex_read: "rest = [] \<or> \<not> is_hex (hd rest) \<Longrightarrow> GetHex (hex_digits (unat v) @ rest) = (rest, v)"
  by (simp add: GetHex_def get_hex_digits get_hex_stops)

text \<open>An address that is printed in hexadecimal fits in the buffer of the printer and is read
  back, up to the first character that is no hexadecimal digit.\<close>

theorem hex_roundtrip:
  assumes "rest = [] \<or> \<not> is_hex (hd rest)"
  shows "itoa_r v 17 16 = Some (hex_digits (unat v)) \<and> GetHex (hex_digits (unat v) @ rest) = (rest, v)"
proof
  have v: "unat v < 16 ^ 16"
    using unat_u64_less [of v] by simp
  have "unat v < 16 ^ 63"
    using v by (rule less_trans) simp
  from itoa_loop_hex [OF this, of "[]"]
  have "itoa_loop 64 v 16 [] = Some (hex_digits (unat v))"
    by simp
  then show "itoa_r v 17 16 = Some (hex_digits (unat v))"
    using length_hex_digits [OF v] by (simp add: itoa_r_def)
  show "GetHex (hex_digits (unat v) @ rest) = (rest, v)"
    by (rule hex_read) (rule assms)
qed

theorem hex_roundtrip_witness:
  "itoa_r 0xdeadbeef 17 16 = Some (hex_digits 3735928559) \<and>
    GetHex (hex_digits 3735928559 @ ''-1'') = (''-1'', 0xdeadbeef)"
proof -
  have "''-1'' = [] \<or> \<not> is_hex (hd ''-1'')"
    by (simp add: is_hex_def)
  from hex_roundtrip [OF this, of "0xdeadbeef"] show ?thesis
    by simp
qed

section \<open>Lines in the format of the kernel\<close>

record mapping =
  map_start :: u64
  map_end :: u64
  map_flags :: string
  map_offset :: u64
  map_device :: string
  map_inode :: string
  map_padding :: nat
  map_name :: string

definition hex_padded :: "u64 \<Rightarrow> string" where
  "hex_padded v = setw 8 (CHR ''0'') (hex_digits (unat v))"

definition map_text :: "mapping \<Rightarrow> string" where
  "map_text m = hex_padded (map_start m) @ ''-'' @ hex_padded (map_end m) @ '' '' @ map_flags m @ '' '' @
     hex_padded (map_offset m) @ '' '' @ map_device m @ '' '' @ map_inode m @
     replicate (Suc (map_padding m)) (CHR '' '') @ map_name m"

definition mapping_ok :: "mapping \<Rightarrow> bool" where
  "mapping_ok m \<longleftrightarrow> 4 \<le> length (map_flags m) \<and> CHR '' '' \<notin> set (map_flags m) \<and>
     CHR '' '' \<notin> set (map_device m) \<and> CHR '' '' \<notin> set (map_inode m) \<and>
     map_name m \<noteq> [] \<and> hd (map_name m) \<noteq> CHR '' '' \<and> newline \<notin> set (map_text m)"

definition holds_pc :: "u64 \<Rightarrow> mapping \<Rightarrow> bool" where
  "holds_pc pc m \<longleftrightarrow> map_start m \<le> pc \<and> pc < map_end m \<and>
     map_flags m ! 0 = CHR ''r'' \<and> map_flags m ! 2 = CHR ''x''"

lemma get_hex_zeros: "get_hex 0 (replicate k (CHR ''0'') @ s) = get_hex 0 s"
proof (induction k)
  case (Suc k)
  then show ?case
    using get_hex_digit [of 0 0] by (simp add: hex_digit_def del: get_hex.simps)
qed simp

lemma GetHex_padded:
  "rest = [] \<or> \<not> is_hex (hd rest) \<Longrightarrow> GetHex (hex_padded v @ rest) = (rest, v)"
  using hex_read [of rest v] by (simp add: GetHex_def hex_padded_def setw_def get_hex_zeros)

lemma skip_to_name_word:
  "CHR '' '' \<notin> set w \<Longrightarrow> n < 2 \<Longrightarrow> skip_to_name n (w @ cs) = skip_to_name n cs"
  by (induction w) auto

lemma skip_to_name_spaces: "skip_to_name n (replicate k (CHR '' '') @ cs) = skip_to_name (n + k) cs"
  by (induction k arbitrary: n) simp_all

lemma split_at_char:
  "c \<notin> set xs \<Longrightarrow> takeWhile (\<lambda>d. d \<noteq> c) (xs @ c # ys) = xs"
  "c \<notin> set xs \<Longrightarrow> dropWhile (\<lambda>d. d \<noteq> c) (xs @ c # ys) = c # ys"
  by (induction xs) auto

lemma parse_map_text:
  assumes "mapping_ok m"
  shows "parse_map_line mem_fd pc base (map_text m) =
    (let b = map_base mem_fd (map_start m) (map_flags m) base
     in if holds_pc pc m then Found_map (map_start m) b (map_name m) else Skipped_map b)"
proof -
  define tail3 where "tail3 = map_device m @ '' '' @ map_inode m @
    replicate (Suc (map_padding m)) (CHR '' '') @ map_name m"
  define tail2 where "tail2 = map_flags m @ '' '' @ hex_padded (map_offset m) @ '' '' @ tail3"
  have nohex: "\<not> is_hex (CHR ''-'')" "\<not> is_hex (CHR '' '')"
    by (simp_all add: is_hex_def)
  have line: "map_text m = hex_padded (map_start m) @ ''-'' @ hex_padded (map_end m) @ '' '' @ tail2"
    by (simp add: map_text_def tail2_def tail3_def)
  have g1: "GetHex (map_text m) = (''-'' @ hex_padded (map_end m) @ '' '' @ tail2, map_start m)"
    unfolding line by (rule GetHex_padded) (simp add: nohex)
  have g2: "GetHex (hex_padded (map_end m) @ '' '' @ tail2) = ('' '' @ tail2, map_end m)"
    by (rule GetHex_padded) (simp add: nohex)
  have g3: "GetHex (hex_padded (map_offset m) @ '' '' @ tail3) = ('' '' @ tail3, map_offset m)"
    by (rule GetHex_padded) (simp add: nohex)
  have flags: "takeWhile (\<lambda>c. c \<noteq> CHR '' '') tail2 = map_flags m"
      "dropWhile (\<lambda>c. c \<noteq> CHR '' '') tail2 = '' '' @ hex_padded (map_offset m) @ '' '' @ tail3"
    using assms by (simp_all add: tail2_def mapping_ok_def split_at_char)
  have name: "skip_to_name 0 tail3 = map_name m"
    using assms skip_to_name_word [of "map_device m" 0] skip_to_name_word [of "map_inode m" 1]
      skip_to_name_spaces [of 1 "Suc (map_padding m)"]
    by (cases "map_name m") (simp_all add: tail3_def mapping_ok_def)
  show ?thesis
    using assms g2 g3 flags name
    by (auto simp: parse_map_line_def g1 Let_def mapping_ok_def holds_pc_def linorder_not_less)
qed

text \<open>The text of a list of mappings and its lines.\<close>

definition maps_text :: "mapping list \<Rightarrow> string" where
  "maps_text ms = concat (map (\<lambda>m. map_text m @ [newline]) ms)"

lemma next_line_append:
  assumes "newline \<notin> set xs" and "length xs < room"
  shows "next_line room (xs @ newline # ys) = Some (xs, False, ys)"
proof -
  have "memchr newline (xs @ newline # ys) = Some (length xs)"
    using assms(1) by (simp add: memchr_def split_at_char)
  then show ?thesis
    using assms(2) by (simp add: next_line_def)
qed

lemma lines_of_maps:
  assumes "\<And>m. m \<in> set ms \<Longrightarrow> mapping_ok m \<and> length (map_text m) < room"
  shows "lines_of room (maps_text ms) = map (\<lambda>m. (map_text m, False)) ms"
  using assms
proof (induction ms)
  case Nil
  then show ?case
    by (simp add: maps_text_def lines_of.simps next_line_def)
next
  case (Cons m ms)
  then have "next_line room (maps_text (m # ms)) = Some (map_text m, False, maps_text ms)"
    by (simp add: maps_text_def next_line_append mapping_ok_def)
  then show ?case
    using Cons by (simp add: lines_of.simps [of room "maps_text (m # ms)"])
qed

definition base_after :: "fd \<Rightarrow> mapping list \<Rightarrow> u64 \<Rightarrow> u64" where
  "base_after mem_fd ms base = foldl (\<lambda>b m. map_base mem_fd (map_start m) (map_flags m) b) base ms"

lemma scan_maps_skips:
  assumes "\<And>m. m \<in> set before \<Longrightarrow> mapping_ok m \<and> \<not> holds_pc pc m"
  shows "scan_maps mem_fd pc base (map (\<lambda>m. (map_text m, False)) before @ ls) =
    scan_maps mem_fd pc (base_after mem_fd before base) ls"
  using assms by (induction before arbitrary: base) (simp_all add: parse_map_text base_after_def)


definition sample_mapping :: mapping where
  "sample_mapping = \<lparr>map_start = 16, map_end = 0x100, map_flags = ''r-xp'', map_offset = 0,
     map_device = ''08:01'', map_inode = ''7'', map_padding = 3, map_name = ''/x''\<rparr>"

lemma sample_text: "map_text sample_mapping = ''00000010-00000100 r-xp 00000000 08:01 7    /x''"
  by code_simp


end
