(* ===== verification/SymbolizeProps.thy ===== *)
theory SymbolizeProps imports Symbolize MapsProps begin

text \<open>
  The output of \<open>Symbolize\<close>: it always returns, stays in its buffer, and leaves a string there when
  it succeeds.
\<close>

lemma cstr_take: "NUL \<in> set s \<Longrightarrow> take (Suc (length (cstr s))) s = cstr s @ [NUL]"
  unfolding cstr_def by (induction s) auto

lemma length_SafeAppendString:
  assumes "NUL \<in> set dest"
  shows "length (SafeAppendString source dest) = length dest" and "NUL \<in> set (SafeAppendString source dest)"
proof -
  have "length (cstr dest) < length dest"
    using assms unfolding cstr_def by (induction dest) auto
  then show "length (SafeAppendString source dest) = length dest" "NUL \<in> set (SafeAppendString source dest)"
    by (auto simp: SafeAppendString_def strncpy_def Let_def intro!: set_update_memI)
qed

lemma append_offset_ok:
  assumes "out \<noteq> []"
  shows "length (append_offset offset out) = length out" and "NUL \<in> set (append_offset offset out)"
proof -
  have "NUL \<in> set (out[length out - 1 := NUL])"
    using assms by (intro set_update_memI) simp
  then show "length (append_offset offset out) = length out" "NUL \<in> set (append_offset offset out)"
    by (simp_all add: append_offset_def SafeAppendHexNumber_def length_SafeAppendString)
qed

text \<open>A search keeps the size of the buffer, and a name that it found ends in it.\<close>

definition lookup_ok :: "string \<Rightarrow> SymbolLookupResult \<times> string \<Rightarrow> bool" where
  "lookup_ok out result \<longleftrightarrow>
     length (snd result) = length out \<and> (fst result = kFound \<longrightarrow> NUL \<in> set (snd result))"

lemma lookup_ok_simps [simp]:
  "lookup_ok out (kNotFound, out')  \<longleftrightarrow> length out' = length out"
  "lookup_ok out (kMalformed, out') \<longleftrightarrow> length out' = length out"
  "lookup_ok out (kFound, out') \<longleftrightarrow> length out' = length out \<and> NUL \<in> set out'"
  by (simp_all add: lookup_ok_def)

lemma read_name_ok: "lookup_ok out (read_name fd strtab symbol out)"
proof -
  define bytes where "bytes = (if sh_size strtab - ucast (st_name symbol) > of_nat (length out)
    then of_nat (length out) else sh_size strtab - ucast (st_name symbol))"
  have "unat (of_nat (length out) :: u64) \<le> length out"
    by (simp add: unat_of_nat take_bit_nat_less_eq_self)
  then have "unat bytes \<le> length out"
    by (auto simp: bytes_def word_less_nat_alt)
  then have "length name \<le> length out" if "ReadFromOffset fd bytes offset = Some name" for offset name
    using ReadFromOffset_length [OF that] by simp
  then show ?thesis
    unfolding read_name_def Let_def bytes_def [symmetric] by (auto split: option.split)
qed

lemma find_symbol_loop_ok:
  "lookup_ok out (find_symbol_loop pc fd out symbol_offset strtab symtab num_symbols i)"
proof (induction pc fd out symbol_offset strtab symtab num_symbols i rule: find_symbol_loop.induct)
  case (1 pc fd out symbol_offset strtab symtab num_symbols i)
  then show ?case
    by (subst find_symbol_loop.simps) (simp add: Let_def read_name_ok split: option.split)
qed

lemma FindSymbol_ok: "lookup_ok out (FindSymbol pc fd out symbol_offset strtab symtab)"
  by (simp add: FindSymbol_def find_symbol_loop_ok)

lemma search_section_ok: "lookup_ok out (search_section fd pc out base count offset entry_size type)"
  by (simp add: search_section_def FindSymbol_ok split: SectionLookupResult.split option.split)

lemma GetDynamicSymbolTables_not_found: "GetDynamicSymbolTables fd elf_header \<noteq> Inl kFound"
  by (simp add: GetDynamicSymbolTables_def split: option.split sum.split)

lemma search_dynamic_ok: "lookup_ok out (search_dynamic fd elf_header pc out base)"
proof (cases "GetDynamicSymbolTables fd elf_header")
  case (Inl result)
  then show ?thesis
    using GetDynamicSymbolTables_not_found [of fd elf_header]
    by (cases result) (simp_all add: search_dynamic_def)
qed (simp add: search_dynamic_def FindSymbol_ok split: prod.split)

lemma GetSymbolFromObjectFile_ok: "lookup_ok out (GetSymbolFromObjectFile fd pc out base)"
proof -
  have chain: "lookup_ok out (case r of (kNotFound, out1) \<Rightarrow> g out1 | result \<Rightarrow> result)"
    if r: "lookup_ok out r" and g: "\<And>out1. lookup_ok out1 (g out1)"
    for r and g :: "string \<Rightarrow> SymbolLookupResult \<times> string" and out
  proof (cases r)
    case (Pair result out1)
    then show ?thesis
      using r g [of out1] by (cases result) (auto simp: lookup_ok_def)
  qed
  show ?thesis
    by (simp add: GetSymbolFromObjectFile_def search_dynamic_ok chain search_section_ok split: option.split)
qed

text \<open>The name is demangled in place.\<close>

lemma DemangleInplace_ok:
  assumes "demangled \<noteq> []" "last demangled = NUL" and "NUL \<in> set out"
  shows "\<exists>out'. DemangleInplace demangled out = Some out' \<and> length out' = length out \<and> NUL \<in> set out'"
proof -
  obtain ok text' where r: "Demangle (Some (cstr out)) (Some demangled) = Some (ok, Some text')"
      "length text' = length demangled" "last text' = last demangled \<or> last text' = NUL"
    by (rule Demangle_run [OF assms(1)])
  then have t: "NUL \<in> set text'"
    using assms(1,2) by (metis last_in_set length_0_conv)
  then have "length (take (length (cstr text') + 1) text') = length (cstr text') + 1"
      "NUL \<in> set (take (length (cstr text') + 1) text')"
    by (simp_all add: cstr_take)
  then show ?thesis
    using r(1) t assms(3) by (cases ok) (auto simp: DemangleInplace_def Let_def)
qed

section \<open>The environment\<close>

text \<open>The list of mappings can be read, the last byte of the demangler's buffer is zero, and the
  callbacks stay inside the buffers that they get.\<close>

definition env_ok :: "symbolize_env \<Rightarrow> bool" where
  "env_ok env \<longleftrightarrow>
     (\<forall>f. self_maps env = Some f \<longrightarrow> (\<exists>content. readable f content)) \<and>
     line_memory env \<noteq> [] \<and> length (line_memory env) < 2 ^ 63 \<and>
     demangle_memory env \<noteq> [] \<and> last (demangle_memory env) = NUL \<and>
     (\<forall>callback object_fd pc out relocation. symbolize_callback env = Some callback \<longrightarrow>
        length (snd (callback object_fd pc out relocation)) = length out \<and>
        fst (callback object_fd pc out relocation) \<le> int (length out)) \<and>
     (\<forall>callback pc out. open_callback env = Some callback \<longrightarrow>
        length (snd (snd (snd (callback pc out)))) = length out)"

lemma OpenObjectFile_ok:
  assumes "env_ok env"
  shows "\<exists>fd start base out'.
    OpenObjectFileContainingPcAndGetStartAddress env pc out = Some (fd, start, base, out') \<and>
    length out' = length out"
proof (cases "self_maps env = None \<or> self_mem env = None")
  case False
  then obtain f content where f: "self_maps env = Some f" "readable f content"
    using assms by (auto simp: env_ok_def)
  let ?r = "new_LineReader (self_maps env) (line_memory env) 0"
  have "reader_ok content ?r"
    using f assms by (simp add: reader_ok_def new_LineReader_def env_ok_def)
  then obtain outcome where "find_map (self_mem env) pc 0 ?r = Some outcome"
    using find_map_scan by blast
  then show ?thesis
    using False by (cases outcome)
      (simp_all add: OpenObjectFileContainingPcAndGetStartAddress_def strncpy_def)
qed (simp add: OpenObjectFileContainingPcAndGetStartAddress_def)

lemma call_symbolize_callback_ok:
  assumes "env_ok env"
    and "call_symbolize_callback env fd elf_type pc base no_line_numbers out frame = (written, out', frame')"
  shows "length out' = length out" and "written \<le> length out"
    and "frame' = frame \<or> (\<exists>n. frame' = map_option (\<lambda>_. (0, n)) frame \<and> n \<le> written)"
proof -
  have "length out' = length out \<and> written \<le> length out \<and>
      (frame' = frame \<or> (\<exists>n. frame' = map_option (\<lambda>_. (0, n)) frame \<and> n \<le> written))"
  proof (cases "symbolize_callback env = None \<or> no_line_numbers")
    case True
    then show ?thesis
      using assms(2) by (auto simp: call_symbolize_callback_def split: option.splits)
  next
    case False
    then obtain callback where cb: "symbolize_callback env = Some callback"
      by auto
    define relocation where "relocation = (if elf_type = uint ET_DYN then base else 0)"
    obtain n o' where run: "callback fd pc out relocation = (n, o')"
      by fastforce
    then have "length o' = length out" "n \<le> int (length out)"
      using assms(1) cb unfolding env_ok_def by (metis fst_conv snd_conv)+
    then show ?thesis
      using assms(2) False cb run
      by (auto simp: call_symbolize_callback_def relocation_def [symmetric] Let_def split: if_splits)
  qed
  then show "length out' = length out" "written \<le> length out"
    and "frame' = frame \<or> (\<exists>n. frame' = map_option (\<lambda>_. (0, n)) frame \<and> n \<le> written)"
    by blast+
qed

section \<open>The result\<close>

text \<open>What \<open>SymbolizeAndDemangle\<close> promises: the buffer, and a frame of \<open>n\<close> characters at its start.\<close>

definition output_ok :: "string \<Rightarrow> SymbolizedFrame option
    \<Rightarrow> (bool \<times> string \<times> SymbolizedFrame option) option \<Rightarrow> bool" where
  "output_ok out frame result \<longleftrightarrow>
     (\<exists>ok out' n. result = Some (ok, out', map_option (\<lambda>_. (0, n)) frame) \<and> length out' = length out \<and>
        (ok \<longrightarrow> NUL \<in> set out') \<and> n \<le> length out)"

lemma output_okI:
  "result = Some (ok, out', map_option (\<lambda>_. (0, n)) frame) \<Longrightarrow> length out' = length out \<Longrightarrow>
    (ok \<Longrightarrow> NUL \<in> set out') \<Longrightarrow> n \<le> length out \<Longrightarrow> output_ok out frame result"
  unfolding output_ok_def by blast

text \<open>The part after the object file was opened.\<close>

lemma search_output_ok:
  assumes env: "env_ok env" and out: "length out3 = length out" "written \<le> length out" "0 < length out"
    and n: "n \<le> length out" and frame: "frame' = map_option (\<lambda>_. (0, n)) frame"
    and none: "symbolize_callback env = None \<Longrightarrow> written = 0"
    and run: "GetSymbolFromObjectFile fd pc (drop written out3) base = (result, symbol)"
  shows "output_ok out frame
    (case (result, symbol) of
       (kFound, symbol) \<Rightarrow>
         (case DemangleInplace (demangle_memory env) symbol of
            None \<Rightarrow> None
          | Some symbol' \<Rightarrow> Some (True, take written out3 @ symbol', frame'))
     | (kMalformed, symbol) \<Rightarrow> Some (False, take written out3 @ symbol, frame')
     | (kNotFound, symbol) \<Rightarrow>
         if available \<and> symbolize_callback env = None
         then Some (True, take written out3 @ append_offset (pc - base) symbol, frame')
         else Some (False, take written out3 @ symbol, frame'))"
    (is "output_ok out frame ?r")
proof -
  have found: "length symbol = length out - written" "result = kFound \<Longrightarrow> NUL \<in> set symbol"
    using GetSymbolFromObjectFile_ok [of "drop written out3" fd pc base] out(1)
    by (simp_all add: run lookup_ok_def)
  show ?thesis
  proof (cases result)
    case kNotFound
    show ?thesis
    proof (cases "available \<and> symbolize_callback env = None")
      case True
      then have "symbol \<noteq> []"
        using found(1) none out(3) by auto
      note append_offset_ok [OF this, of "pc - base"]
      then show ?thesis
        by (intro output_okI [of _ True "take written out3 @ append_offset (pc - base) symbol" n])
          (use kNotFound True found(1) out n frame in simp_all)
    next
      case False
      then show ?thesis
        by (intro output_okI [of _ False "take written out3 @ symbol" n])
          (use kNotFound found(1) out n frame in auto)
    qed
  next
    case kFound
    then have nul: "NUL \<in> set symbol"
      using found(2) by blast
    have memory: "demangle_memory env \<noteq> []" "last (demangle_memory env) = NUL"
      using env by (simp_all add: env_ok_def)
    obtain symbol' where "DemangleInplace (demangle_memory env) symbol = Some symbol'"
        "length symbol' = length symbol" "NUL \<in> set symbol'"
      using DemangleInplace_ok [OF memory nul] by blast
    then show ?thesis
      by (intro output_okI [of _ True "take written out3 @ symbol'" n])
        (use kFound found(1) out n frame in simp_all)
  next
    case kMalformed
    then show ?thesis
      by (intro output_okI [of _ False "take written out3 @ symbol" n])
        (use found(1) out n frame in simp_all)
  qed
qed

lemma SymbolizeAndDemangle_ok:
  assumes env: "env_ok env" and frame: "frame = map_option (\<lambda>_. (0, 0)) frame"
  shows "output_ok out frame (SymbolizeAndDemangle env pc out no_line_numbers frame)"
proof (cases "length out < 2")
  case True
  then show ?thesis
    by (intro output_okI [of _ False out 0]) (simp_all add: SymbolizeAndDemangle_def frame [symmetric])
next
  case False
  define out1 where "out1 = SafeAppendString ''('' (out[0 := NUL])"
  have "NUL \<in> set (out[0 := NUL])"
    using False by (cases out) simp_all
  then have out1: "length out1 = length out"
    by (simp add: out1_def length_SafeAppendString)
  define opened where "opened = (case open_callback env of
      Some callback \<Rightarrow> Some (callback pc (drop 1 out1))
    | None \<Rightarrow> OpenObjectFileContainingPcAndGetStartAddress env pc (drop 1 out1))"
  have "\<exists>fd start base name. opened = Some (fd, start, base, name) \<and> length name = length (drop 1 out1)"
  proof (cases "open_callback env")
    case None
    then show ?thesis
      using OpenObjectFile_ok [OF env, of pc "drop 1 out1"] by (simp add: opened_def)
  next
    case (Some callback)
    obtain fd start base name where r: "callback pc (drop 1 out1) = (fd, start, base, name)"
      using prod_cases4 by blast
    moreover have "length (snd (snd (snd (callback pc (drop 1 out1))))) = length (drop 1 out1)"
      using env Some unfolding env_ok_def by blast
    ultimately show ?thesis
      using Some by (simp add: opened_def)
  qed
  then obtain fd start base name where
    opened: "opened = Some (fd, start, base, name)" and name: "length name = length out - 1"
    using out1 by auto
  define out2 where "out2 = take 1 out1 @ name"
  have out2: "length out2 = length out" "out2 \<noteq> []"
    using name out1 False by (auto simp: out2_def)
  obtain written out3 frame' where call: "call_symbolize_callback env fd (FileGetElfType fd) pc base
      no_line_numbers out2 frame = (written, out3, frame')"
    by (metis prod_cases3)
  note called = call_symbolize_callback_ok [OF env call]
  obtain result symbol where run: "GetSymbolFromObjectFile fd pc (drop written out3) base = (result, symbol)"
    by fastforce
  obtain n where n: "frame' = map_option (\<lambda>_. (0, n)) frame" "n \<le> length out"
  proof (cases "frame' = frame")
    case True
    then show ?thesis
      by (intro that [of 0]) (simp_all add: frame [symmetric])
  next
    case False
    then show ?thesis
      using called(2,3) out2(1) by (auto intro: that)
  qed
  have none: "symbolize_callback env = None \<Longrightarrow> written = 0"
    using call by (simp add: call_symbolize_callback_def)
  have "length out3 = length out" "written \<le> length out" "0 < length out"
    using called(1,2) out2 by auto
  note searched = search_output_ok [OF env this n(2,1) none run, of "out2 ! 1 \<noteq> NUL"]
  have body: "SymbolizeAndDemangle env pc out no_line_numbers frame =
      (if fd = None then
         (if out2 ! 1 \<noteq> NUL then Some (True, append_offset (pc - base) out2, frame)
          else Some (False, out2, frame))
       else if FileGetElfType fd = - 1 then Some (False, out2, frame)
       else case (result, symbol) of
           (kFound, symbol) \<Rightarrow>
             (case DemangleInplace (demangle_memory env) symbol of
                None \<Rightarrow> None
              | Some symbol' \<Rightarrow> Some (True, take written out3 @ symbol', frame'))
         | (kMalformed, symbol) \<Rightarrow> Some (False, take written out3 @ symbol, frame')
         | (kNotFound, symbol) \<Rightarrow>
             if out2 ! 1 \<noteq> NUL \<and> symbolize_callback env = None
             then Some (True, take written out3 @ append_offset (pc - base) symbol, frame')
             else Some (False, take written out3 @ symbol, frame'))"
    unfolding SymbolizeAndDemangle_def Let_def out1_def [symmetric] opened_def [symmetric] opened
      option.case prod.case out2_def [symmetric] call run
    using False by simp
  have offset: "output_ok out frame (Some (True, append_offset (pc - base) out2, frame))"
    using append_offset_ok [OF out2(2)] out2(1)
    by (intro output_okI [of _ True "append_offset (pc - base) out2" 0]) (simp_all add: frame [symmetric])
  have plain: "output_ok out frame (Some (False, out2, frame))"
    using out2(1) by (intro output_okI [of _ False out2 0]) (simp_all add: frame [symmetric])
  show ?thesis
    unfolding body using searched offset plain by simp
qed


text \<open>A program without any file.\<close>

definition no_files :: symbolize_env where
  "no_files = \<lparr>self_maps = None, self_mem = None, open_path = (\<lambda>_. None), line_memory = ''x'',
     demangle_memory = [NUL], symbolize_callback = None, open_callback = None\<rparr>"


end
